(* ===== verification/Prelude.thy ===== *)
theory Prelude
  imports Main "HOL-Library.AList" "HOL-Library.State_Monad" "HOL-Library.Sublist"
    "HOL-Library.Signed_Division"
begin

section \<open>Shared vocabulary of the development\<close>

text \<open>
  What every component theory uses: unordered maps as association lists, the state monad
  the effectful code is written in with its Hoare triples and frame rules, the
  projection of a computation on a part of a larger state, and the locale of
  time-to-live caches, which the file cache, the cgroup cache, the matcher cache and the
  cpuset group cache of the program all instantiate.
\<close>

named_theorems hoare_rules \<open>introduction rules for Hoare triples\<close>
named_theorems climbs_rules \<open>introduction rules for quantities that never decrease\<close>
named_theorems wp_rules \<open>introduction rules for weakest preconditions\<close>
named_theorems keeps_rules \<open>introduction rules for frame conditions\<close>
named_theorems emits_rules \<open>introduction rules for bounds on the effects of a computation\<close>

subsection \<open>Unordered maps\<close>

text \<open>
  A \<open>std::map\<close> or \<open>std::unordered_map\<close> is an association list with distinct keys.
  The order of the list stands for the iteration order, which the standard leaves open
  for the unordered containers; no lemma below depends on it.
\<close>

type_synonym ('k, 'v) umap = "('k \<times> 'v) list"

definition umap_ok :: "('k, 'v) umap \<Rightarrow> bool" where
  "umap_ok m \<longleftrightarrow> distinct (map fst m)"

definition umap_erase_if :: "('k \<Rightarrow> 'v \<Rightarrow> bool) \<Rightarrow> ('k, 'v) umap \<Rightarrow> ('k, 'v) umap" where
  "umap_erase_if P m = filter (\<lambda>(k, v). \<not> P k v) m"

lemma umap_ok_Nil [simp]: "umap_ok []"
  by (simp add: umap_ok_def)

lemma umap_ok_update [simp]: "umap_ok m \<Longrightarrow> umap_ok (AList.update k v m)"
  by (simp add: umap_ok_def AList.distinct_update)

lemma umap_ok_delete [simp]: "umap_ok m \<Longrightarrow> umap_ok (AList.delete k m)"
  by (simp add: umap_ok_def AList.distinct_delete)

lemma umap_ok_erase_if [simp]: "umap_ok m \<Longrightarrow> umap_ok (umap_erase_if P m)"
  by (induction m) (auto simp: umap_ok_def umap_erase_if_def)

lemma umap_lookup_update [simp]:
  "map_of (AList.update k v m) k' = (if k' = k then Some v else map_of m k')"
  by (simp add: AList.update_conv')

lemma umap_lookup_delete [simp]:
  "map_of (AList.delete k m) k' = (if k' = k then None else map_of m k')"
  by (simp add: AList.delete_conv')

lemma umap_erase_if_simps [simp]:
  "umap_erase_if P [] = []"
  "umap_erase_if P ((k, v) # m) = (if P k v then umap_erase_if P m else (k, v) # umap_erase_if P m)"
  by (simp_all add: umap_erase_if_def)

lemma set_umap_erase_if: "set (umap_erase_if P m) = {(k, v) \<in> set m. \<not> P k v}"
  by (auto simp: umap_erase_if_def)

lemma umap_lookup_erase_if:
  "umap_ok m \<Longrightarrow> map_of (umap_erase_if P m) k =
     (case map_of m k of None \<Rightarrow> None | Some v \<Rightarrow> if P k v then None else Some v)"
proof (induction m)
  case (Cons p m)
  obtain k0 v0 where p: "p = (k0, v0)" by (cases p)
  from Cons.prems p have ok: "umap_ok m" and new: "k0 \<notin> fst ` set m"
    by (auto simp: umap_ok_def)
  from new have "map_of m k0 = None" by (simp add: map_of_eq_None_iff)
  with Cons.IH [OF ok] show ?case by (auto simp: p split: option.splits)
qed simp

lemma umap_in_set_iff: "umap_ok m \<Longrightarrow> (k, v) \<in> set m \<longleftrightarrow> map_of m k = Some v"
  by (simp add: umap_ok_def)

lemma umap_length_update_le: "length (AList.update k v m) \<le> Suc (length m)"
  by (induction m) auto

lemma umap_length_update_mem: "k \<in> fst ` set m \<Longrightarrow> length (AList.update k v m) = length m"
  by (induction m) auto

lemma umap_length_delete_mem: "k \<in> fst ` set m \<Longrightarrow> length (AList.delete k m) < length m"
proof (induction m)
  case (Cons p m)
  have "length (AList.delete k m) \<le> length m" by (rule AList.length_delete_le)
  with Cons show ?case by (cases "fst p = k") auto
qed simp

lemma umap_keys_update: "fst ` set (AList.update k v m) = insert k (fst ` set m)"
  by (auto simp: AList.dom_update)

lemma umap_keys_delete: "fst ` set (AList.delete k m) = fst ` set m - {k}"
  by (auto simp: AList.delete_eq image_iff)

lemma umap_mem_iff: "k \<in> fst ` set m \<longleftrightarrow> map_of m k \<noteq> None"
  by (simp add: map_of_eq_None_iff)

subsection \<open>The state monad: triples, frames and projections\<close>

definition hoare :: "('s \<Rightarrow> bool) \<Rightarrow> ('s, 'a) state \<Rightarrow> ('a \<Rightarrow> 's \<Rightarrow> bool) \<Rightarrow> bool" where
  "hoare P m Q \<longleftrightarrow> (\<forall>s. P s \<longrightarrow> (case run_state m s of (a, s') \<Rightarrow> Q a s'))"

definition keeps :: "('s \<Rightarrow> 'b) \<Rightarrow> ('s, 'a) state \<Rightarrow> bool" where
  "keeps f m \<longleftrightarrow> (\<forall>s. f (snd (run_state m s)) = f s)"

definition modify :: "('s \<Rightarrow> 's) \<Rightarrow> ('s, unit) state" where
  "modify f = State (\<lambda>s. ((), f s))"

definition gets :: "('s \<Rightarrow> 'a) \<Rightarrow> ('s, 'a) state" where
  "gets f = State (\<lambda>s. (f s, s))"

definition zoom :: "('s \<Rightarrow> 't) \<Rightarrow> ('t \<Rightarrow> 's \<Rightarrow> 's) \<Rightarrow> ('t, 'a) state \<Rightarrow> ('s, 'a) state" where
  "zoom sel upd m = State (\<lambda>s. case run_state m (sel s) of (a, t) \<Rightarrow> (a, upd t s))"

lemma run_modify [simp]: "run_state (modify f) s = ((), f s)"
  by (simp add: modify_def)

lemma run_gets [simp]: "run_state (gets f) s = (f s, s)"
  by (simp add: gets_def)

lemma run_zoom [simp]:
  "run_state (zoom sel upd m) s = (case run_state m (sel s) of (a, t) \<Rightarrow> (a, upd t s))"
  by (simp add: zoom_def)

lemma hoareI: "(\<And>s a s'. P s \<Longrightarrow> run_state m s = (a, s') \<Longrightarrow> Q a s') \<Longrightarrow> hoare P m Q"
  by (auto simp: hoare_def split: prod.splits)

lemma hoareD: "hoare P m Q \<Longrightarrow> P s \<Longrightarrow> run_state m s = (a, s') \<Longrightarrow> Q a s'"
  by (auto simp: hoare_def split: prod.splits)

lemma hoare_return [hoare_rules]: "(\<And>s. P s \<Longrightarrow> Q x s) \<Longrightarrow> hoare P (State_Monad.return x) Q"
  by (simp add: hoare_def)

lemma hoare_gets [hoare_rules]: "(\<And>s. P s \<Longrightarrow> Q (f s) s) \<Longrightarrow> hoare P (gets f) Q"
  by (simp add: hoare_def)

lemma hoare_modify [hoare_rules]: "(\<And>s. P s \<Longrightarrow> Q () (f s)) \<Longrightarrow> hoare P (modify f) Q"
  by (simp add: hoare_def)

lemma hoare_get [hoare_rules]: "(\<And>s. P s \<Longrightarrow> Q s s) \<Longrightarrow> hoare P State_Monad.get Q"
  by (simp add: hoare_def)

lemma hoare_bind:
  "hoare P m R \<Longrightarrow> (\<And>x. hoare (R x) (f x) Q) \<Longrightarrow> hoare P (State_Monad.bind m f) Q"
  by (fastforce simp: hoare_def split: prod.splits)

lemma hoare_if [hoare_rules]:
  "(b \<Longrightarrow> hoare P m Q) \<Longrightarrow> (\<not> b \<Longrightarrow> hoare P n Q) \<Longrightarrow> hoare P (if b then m else n) Q"
  by simp

lemma hoare_case_option [hoare_rules]:
  "(y = None \<Longrightarrow> hoare P m Q) \<Longrightarrow> (\<And>x. y = Some x \<Longrightarrow> hoare P (g x) Q) \<Longrightarrow>
   hoare P (case_option m g y) Q"
  by (simp split: option.splits)

lemma hoare_case_prod [hoare_rules]:
  "(\<And>x y. p = (x, y) \<Longrightarrow> hoare P (g x y) Q) \<Longrightarrow> hoare P (case_prod g p) Q"
  by (simp split: prod.splits)

lemma hoare_Let [hoare_rules]: "hoare P (g t) Q \<Longrightarrow> hoare P (Let t g) Q"
  by (simp add: Let_def)

text \<open>An invariant: every computation below keeps it, whatever it returns.\<close>

definition inv_kept :: "('s \<Rightarrow> bool) \<Rightarrow> ('s, 'a) state \<Rightarrow> bool" where
  "inv_kept P m \<longleftrightarrow> hoare P m (\<lambda>_. P)"

lemma inv_keptI: "(\<And>s a s'. P s \<Longrightarrow> run_state m s = (a, s') \<Longrightarrow> P s') \<Longrightarrow> inv_kept P m"
  by (simp add: inv_kept_def hoareI)

lemma inv_keptD: "inv_kept P m \<Longrightarrow> P s \<Longrightarrow> run_state m s = (a, s') \<Longrightarrow> P s'"
  unfolding inv_kept_def by (rule hoareD)

lemma inv_kept_snd: "inv_kept P m \<Longrightarrow> P s \<Longrightarrow> P (snd (run_state m s))"
  by (metis inv_keptD prod.collapse)

lemma inv_kept_return [hoare_rules]: "inv_kept P (State_Monad.return x)"
  by (simp add: inv_kept_def hoare_def)

lemma inv_kept_get [hoare_rules]: "inv_kept P State_Monad.get"
  by (simp add: inv_kept_def hoare_def)

lemma inv_kept_gets [hoare_rules]: "inv_kept P (gets f)"
  by (simp add: inv_kept_def hoare_def)

lemma inv_kept_modify [hoare_rules]: "(\<And>s. P s \<Longrightarrow> P (f s)) \<Longrightarrow> inv_kept P (modify f)"
  by (simp add: inv_kept_def hoare_def)

lemma inv_kept_bind [hoare_rules]:
  "inv_kept P m \<Longrightarrow> (\<And>x. inv_kept P (f x)) \<Longrightarrow> inv_kept P (State_Monad.bind m f)"
  unfolding inv_kept_def by (rule hoare_bind)

lemma inv_kept_if [hoare_rules]:
  "(b \<Longrightarrow> inv_kept P m) \<Longrightarrow> (\<not> b \<Longrightarrow> inv_kept P n) \<Longrightarrow> inv_kept P (if b then m else n)"
  by simp

lemma inv_kept_case_option [hoare_rules]:
  "(y = None \<Longrightarrow> inv_kept P m) \<Longrightarrow> (\<And>x. y = Some x \<Longrightarrow> inv_kept P (g x)) \<Longrightarrow>
   inv_kept P (case_option m g y)"
  by (simp split: option.splits)

lemma inv_kept_case_prod [hoare_rules]:
  "(\<And>x y. p = (x, y) \<Longrightarrow> inv_kept P (g x y)) \<Longrightarrow> inv_kept P (case_prod g p)"
  by (simp split: prod.splits)

lemma inv_kept_Let [hoare_rules]: "(\<And>x. inv_kept P (g x)) \<Longrightarrow> inv_kept P (Let t g)"
  by (simp add: Let_def)

lemma inv_kept_zoom [hoare_rules]:
  "(\<And>t s. P s \<Longrightarrow> P (upd t s)) \<Longrightarrow> inv_kept P (zoom sel upd m)"
  by (auto simp: inv_kept_def hoare_def split: prod.splits)

lemma hoare_conseq:
  "hoare P m Q \<Longrightarrow> (\<And>s. P' s \<Longrightarrow> P s) \<Longrightarrow> (\<And>a s. Q a s \<Longrightarrow> Q' a s) \<Longrightarrow> hoare P' m Q'"
  by (fastforce simp: hoare_def split: prod.splits)

lemma keepsI: "(\<And>s a s'. run_state m s = (a, s') \<Longrightarrow> f s' = f s) \<Longrightarrow> keeps f m"
  by (auto simp: keeps_def) (metis prod.collapse)

lemma keepsD: "keeps f m \<Longrightarrow> run_state m s = (a, s') \<Longrightarrow> f s' = f s"
  by (metis keeps_def snd_conv)

lemma keeps_inv_kept: "keeps f m \<Longrightarrow> inv_kept (\<lambda>s. Q (f s)) m"
  by (rule inv_keptI) (drule (1) keepsD, simp)

lemma keeps_return [keeps_rules]: "keeps f (State_Monad.return x)"
  by (simp add: keeps_def)

lemma keeps_gets [keeps_rules]: "keeps f (gets g)"
  by (simp add: keeps_def)

lemma keeps_get [keeps_rules]: "keeps f State_Monad.get"
  by (simp add: keeps_def)

lemma keeps_bind [keeps_rules]:
  "keeps f m \<Longrightarrow> (\<And>x. keeps f (g x)) \<Longrightarrow> keeps f (State_Monad.bind m g)"
  by (simp add: keeps_def split: prod.splits) (metis snd_conv)

lemma keeps_modify [keeps_rules]: "(\<And>s. f (g s) = f s) \<Longrightarrow> keeps f (modify g)"
  by (simp add: keeps_def)

lemma keeps_if [keeps_rules]: "keeps f m \<Longrightarrow> keeps f n \<Longrightarrow> keeps f (if b then m else n)"
  by simp

lemma keeps_case_option [keeps_rules]:
  "keeps f m \<Longrightarrow> (\<And>x. keeps f (g x)) \<Longrightarrow> keeps f (case_option m g y)"
  by (simp split: option.splits)

lemma keeps_case_prod [keeps_rules]:
  "(\<And>x y. keeps f (g x y)) \<Longrightarrow> keeps f (case_prod g p)"
  by (simp split: prod.splits)

lemma keeps_Let [keeps_rules]: "(\<And>x. keeps f (g x)) \<Longrightarrow> keeps f (Let t g)"
  by (simp add: Let_def)

lemma keeps_zoom [keeps_rules]:
  "(\<And>t s. f (upd t s) = f s) \<Longrightarrow> keeps f (zoom sel upd m)"
  by (simp add: keeps_def split: prod.splits)

subsection \<open>Weakest preconditions\<close>

text \<open>
  The other reading of a triple, for a run from one given state: \<open>intro wp_rules\<close> walks through a
  computation forwards and leaves its branches as goals.
\<close>

definition wp :: "('s, 'a) state \<Rightarrow> ('a \<Rightarrow> 's \<Rightarrow> bool) \<Rightarrow> 's \<Rightarrow> bool" where
  "wp m Q s = (case run_state m s of (a, s') \<Rightarrow> Q a s')"

lemma wp_iff: "wp m Q s \<longleftrightarrow> (\<forall>a s'. run_state m s = (a, s') \<longrightarrow> Q a s')"
  by (auto simp: wp_def split: prod.splits)

lemma hoare_wp: "(\<And>s. P s \<Longrightarrow> wp m Q s) \<Longrightarrow> hoare P m Q"
  by (simp add: hoare_def wp_def)

lemma wp_hoare: "hoare P m R \<Longrightarrow> P s \<Longrightarrow> (\<And>a s'. R a s' \<Longrightarrow> Q a s') \<Longrightarrow> wp m Q s"
  by (auto simp: hoare_def wp_def split: prod.splits)

lemma wp_run: "wp m Q s \<Longrightarrow> run_state m s = (a, s') \<Longrightarrow> Q a s'"
  by (simp add: wp_def)

lemma wp_snd: "wp m (\<lambda>_. P) s \<Longrightarrow> P (snd (run_state m s))"
  by (simp add: wp_def split: prod.splits)

lemma wp_conseq: "wp m R s \<Longrightarrow> (\<And>a s'. R a s' \<Longrightarrow> Q a s') \<Longrightarrow> wp m Q s"
  by (auto simp: wp_def split: prod.splits)

lemma wp_return [wp_rules]: "Q x s \<Longrightarrow> wp (State_Monad.return x) Q s"
  by (simp add: wp_def)

lemma wp_bind [wp_rules]: "wp m (\<lambda>a. wp (f a) Q) s \<Longrightarrow> wp (State_Monad.bind m f) Q s"
  by (auto simp: wp_def split: prod.splits)

lemma wp_gets [wp_rules]: "Q (f s) s \<Longrightarrow> wp (gets f) Q s"
  by (simp add: wp_def)

lemma wp_modify [wp_rules]: "Q () (f s) \<Longrightarrow> wp (modify f) Q s"
  by (simp add: wp_def)

lemma wp_if [wp_rules]: "(b \<Longrightarrow> wp m Q s) \<Longrightarrow> (\<not> b \<Longrightarrow> wp n Q s) \<Longrightarrow> wp (if b then m else n) Q s"
  by simp

lemma wp_Let [wp_rules]: "wp (g t) Q s \<Longrightarrow> wp (Let t g) Q s"
  by (simp add: Let_def)

lemma wp_case_option [wp_rules]:
  "(y = None \<Longrightarrow> wp m Q s) \<Longrightarrow> (\<And>x. y = Some x \<Longrightarrow> wp (g x) Q s) \<Longrightarrow> wp (case_option m g y) Q s"
  by (simp split: option.splits)

lemma wp_case_prod [wp_rules]: "(\<And>x y. p = (x, y) \<Longrightarrow> wp (g x y) Q s) \<Longrightarrow> wp (case_prod g p) Q s"
  by (simp split: prod.splits)

lemma wp_zoom: "wp m (\<lambda>a t. Q a (upd t s)) (sel s) \<Longrightarrow> wp (zoom sel upd m) Q s"
  by (auto simp: wp_def split: prod.splits)

subsection \<open>Quantities that never decrease\<close>

definition climbs :: "('s \<Rightarrow> int) \<Rightarrow> ('s, 'a) state \<Rightarrow> bool" where
  "climbs f m \<longleftrightarrow> (\<forall>s. f s \<le> f (snd (run_state m s)))"

lemma climbsD: "climbs f m \<Longrightarrow> run_state m s = (a, s') \<Longrightarrow> f s \<le> f s'"
  by (metis climbs_def snd_conv)

lemma wp_climbs: "climbs f m \<Longrightarrow> (\<And>a s'. f s \<le> f s' \<Longrightarrow> Q a s') \<Longrightarrow> wp m Q s"
  by (simp add: wp_iff) (metis climbsD)

lemma climbs_return [climbs_rules]: "climbs f (State_Monad.return x)"
  by (simp add: climbs_def)

lemma climbs_get [climbs_rules]: "climbs f State_Monad.get"
  by (simp add: climbs_def)

lemma climbs_gets [climbs_rules]: "climbs f (gets g)"
  by (simp add: climbs_def)

lemma climbs_modify [climbs_rules]: "(\<And>s. f s \<le> f (g s)) \<Longrightarrow> climbs f (modify g)"
  by (simp add: climbs_def)

lemma climbs_bind [climbs_rules]:
  assumes "climbs f m" "\<And>x. climbs f (g x)"
  shows "climbs f (State_Monad.bind m g)"
  unfolding climbs_def
proof
  fix s
  obtain a t where m: "run_state m s = (a, t)" by (meson surj_pair)
  obtain b u where g: "run_state (g a) t = (b, u)" by (meson surj_pair)
  from climbsD [OF assms(1) m] climbsD [OF assms(2) g] m g
  show "f s \<le> f (snd (run_state (State_Monad.bind m g) s))" by simp
qed

lemma climbs_if [climbs_rules]: "climbs f m \<Longrightarrow> climbs f n \<Longrightarrow> climbs f (if b then m else n)"
  by simp

lemma climbs_case_option [climbs_rules]:
  "climbs f m \<Longrightarrow> (\<And>x. climbs f (g x)) \<Longrightarrow> climbs f (case_option m g y)"
  by (simp split: option.splits)

lemma climbs_case_prod [climbs_rules]: "(\<And>x y. climbs f (g x y)) \<Longrightarrow> climbs f (case_prod g p)"
  by (simp split: prod.splits)

lemma climbs_Let [climbs_rules]: "climbs f (g t) \<Longrightarrow> climbs f (Let t g)"
  by (simp add: Let_def)

lemma climbs_zoom:
  assumes "climbs g m" "\<And>t s. g (sel s) \<le> g t \<Longrightarrow> f s \<le> f (upd t s)"
  shows "climbs f (zoom sel upd m)"
  unfolding climbs_def
proof
  fix s
  obtain a t where m: "run_state m (sel s) = (a, t)" by (meson surj_pair)
  from climbsD [OF assms(1) m] assms(2) m show "f s \<le> f (snd (run_state (zoom sel upd m) s))" by simp
qed

lemma not_fst_pair: "\<not> fst p \<Longrightarrow> p = (False, snd p)"
  by (cases p) simp

end
