(* ===== verification/Kernel.thy ===== *)
theory Kernel
  imports Prelude "HOL-Library.Word"
begin

section \<open>The kernel interface and time-to-live caches\<close>

text \<open>
  The Linux kernel is not under \<open>src/\<close>: it is the parameter \<open>os\<close> of every effectful
  definition, a record of system calls over an arbitrary world type \<open>'w\<close>. Nothing is
  assumed of a call, so a theorem below holds for every kernel behaviour, including other
  processes that change files between two calls, unless it names a law as a hypothesis.
  Time is the steady clock in nanoseconds. \<open>os_write\<close> is \<open>write(2)\<close> reissued while it
  fails with \<open>EINTR\<close>; a directory stream is the list of entries \<open>readdir\<close> will deliver
  and whether it ends with an error.
\<close>

type_synonym cpu_set_t = "1024 word"

datatype open_mode = CreateTruncate | ControlFile

datatype file_kind = NoEntry | Directory | RegularFile | OtherFile

datatype mkdir_result = MkdirOk | MkdirExists | MkdirFailed

datatype dirent_type = DT_DIR | DT_UNKNOWN | DT_OTHER

record dirent =
  d_name :: string
  d_type :: dirent_type

record dir_stream =
  ds_entries :: "dirent list"
  ds_error :: bool

record 'w os =
  os_now :: "('w, int) state"
  os_sleep_us :: "int \<Rightarrow> ('w, unit) state"
  os_read_all :: "string \<Rightarrow> ('w, string option) state"
  os_open :: "string \<Rightarrow> open_mode \<Rightarrow> ('w, int) state"
  os_write :: "int \<Rightarrow> string \<Rightarrow> ('w, int) state"
  os_close :: "int \<Rightarrow> ('w, unit) state"
  os_stat :: "string \<Rightarrow> ('w, file_kind) state"
  os_mkdir :: "string \<Rightarrow> ('w, mkdir_result) state"
  os_opendir :: "string \<Rightarrow> ('w, dir_stream option) state"
  os_sched_setaffinity :: "int \<Rightarrow> cpu_set_t \<Rightarrow> ('w, bool) state"
  os_sched_getaffinity :: "int \<Rightarrow> ('w, cpu_set_t option) state"
  os_sched_getscheduler :: "int \<Rightarrow> ('w, int) state"
  os_sched_getparam :: "int \<Rightarrow> ('w, int option) state"
  os_sched_setscheduler :: "int \<Rightarrow> int \<Rightarrow> int \<Rightarrow> ('w, bool) state"
  os_getpriority :: "int \<Rightarrow> ('w, int option) state"
  os_setpriority :: "int \<Rightarrow> int \<Rightarrow> ('w, bool) state"

subsection \<open>Recording the system calls of a run\<close>

text \<open>
  \<open>traced os\<close> is the same kernel with a log of the calls that change the state of the
  system or of a thread. Running a definition on it shows what the definition does
  without the definition knowing of the log.
\<close>

datatype effect =
    EOpenWrite string open_mode
  | EWrite int string
  | EMkdir string
  | ESetAffinity int cpu_set_t
  | ESetScheduler int int int
  | ESetPriority int int

definition quiet :: "('w, 'a) state \<Rightarrow> ('w \<times> effect list, 'a) state" where
  "quiet m = zoom fst (\<lambda>w s. (w, snd s)) m"

definition logged :: "effect \<Rightarrow> ('w, 'a) state \<Rightarrow> ('w \<times> effect list, 'a) state" where
  "logged e m = zoom fst (\<lambda>w s. (w, snd s @ [e])) m"

definition traced :: "'w os \<Rightarrow> ('w \<times> effect list) os" where
  "traced os = \<lparr>
     os_now = quiet (os_now os),
     os_sleep_us = (\<lambda>n. quiet (os_sleep_us os n)),
     os_read_all = (\<lambda>p. quiet (os_read_all os p)),
     os_open = (\<lambda>p m. logged (EOpenWrite p m) (os_open os p m)),
     os_write = (\<lambda>fd s. logged (EWrite fd s) (os_write os fd s)),
     os_close = (\<lambda>fd. quiet (os_close os fd)),
     os_stat = (\<lambda>p. quiet (os_stat os p)),
     os_mkdir = (\<lambda>p. logged (EMkdir p) (os_mkdir os p)),
     os_opendir = (\<lambda>p. quiet (os_opendir os p)),
     os_sched_setaffinity = (\<lambda>t s. logged (ESetAffinity t s) (os_sched_setaffinity os t s)),
     os_sched_getaffinity = (\<lambda>t. quiet (os_sched_getaffinity os t)),
     os_sched_getscheduler = (\<lambda>t. quiet (os_sched_getscheduler os t)),
     os_sched_getparam = (\<lambda>t. quiet (os_sched_getparam os t)),
     os_sched_setscheduler = (\<lambda>t p q. logged (ESetScheduler t p q) (os_sched_setscheduler os t p q)),
     os_getpriority = (\<lambda>t. quiet (os_getpriority os t)),
     os_setpriority = (\<lambda>t n. logged (ESetPriority t n) (os_setpriority os t n))\<rparr>"

lemma quiet_keeps [keeps_rules]: "keeps snd (quiet m)"
  by (simp add: keeps_def quiet_def split: prod.splits)

lemma traced_quiet_calls [simp]:
  "os_now (traced os) = quiet (os_now os)"
  "os_sleep_us (traced os) n = quiet (os_sleep_us os n)"
  "os_read_all (traced os) p = quiet (os_read_all os p)"
  "os_close (traced os) fd = quiet (os_close os fd)"
  "os_stat (traced os) p = quiet (os_stat os p)"
  "os_opendir (traced os) p = quiet (os_opendir os p)"
  "os_sched_getaffinity (traced os) t = quiet (os_sched_getaffinity os t)"
  "os_sched_getscheduler (traced os) t = quiet (os_sched_getscheduler os t)"
  "os_sched_getparam (traced os) t = quiet (os_sched_getparam os t)"
  "os_getpriority (traced os) t = quiet (os_getpriority os t)"
  by (simp_all add: traced_def)

text \<open>
  \<open>emits log P m\<close>: whatever the start state, \<open>m\<close> only appends to the log, and only
  effects that satisfy \<open>P\<close>.
\<close>

definition emits :: "('s \<Rightarrow> effect list) \<Rightarrow> (effect \<Rightarrow> bool) \<Rightarrow> ('s, 'a) state \<Rightarrow> bool" where
  "emits log P m \<longleftrightarrow> (\<forall>s. \<exists>es. log (snd (run_state m s)) = log s @ es \<and> list_all P es)"

lemma emitsD:
  "emits log P m \<Longrightarrow> run_state m s = (a, s') \<Longrightarrow> \<exists>es. log s' = log s @ es \<and> list_all P es"
  unfolding emits_def by (metis snd_conv)

lemma emits_keeps: "keeps log m \<Longrightarrow> emits log P m"
  by (simp add: emits_def keeps_def)

lemma emits_return [emits_rules]: "emits log P (State_Monad.return x)"
  by (simp add: emits_def)

lemma emits_get [emits_rules]: "emits log P State_Monad.get"
  by (simp add: emits_def)

lemma emits_gets [emits_rules]: "emits log P (gets f)"
  by (simp add: emits_def)

lemma emits_modify [emits_rules]: "(\<And>s. log (f s) = log s) \<Longrightarrow> emits log P (modify f)"
  by (simp add: emits_def)

lemma emits_bind [emits_rules]:
  assumes "emits log P m" "\<And>x. emits log P (f x)"
  shows "emits log P (State_Monad.bind m f)"
  unfolding emits_def
proof
  fix s
  obtain x s1 where m: "run_state m s = (x, s1)" by (meson surj_pair)
  obtain y s2 where f: "run_state (f x) s1 = (y, s2)" by (meson surj_pair)
  from emitsD [OF assms(1) m] emitsD [OF assms(2) f]
  obtain es fs where "log s1 = log s @ es" "list_all P es" "log s2 = log s1 @ fs" "list_all P fs"
    by blast
  then have "log s2 = log s @ (es @ fs) \<and> list_all P (es @ fs)" by simp
  then show "\<exists>es. log (snd (run_state (State_Monad.bind m f) s)) = log s @ es \<and> list_all P es"
    using m f by auto
qed

lemma emits_if [emits_rules]: "emits log P m \<Longrightarrow> emits log P n \<Longrightarrow> emits log P (if b then m else n)"
  by simp

lemma emits_case_option [emits_rules]:
  "emits log P m \<Longrightarrow> (\<And>x. emits log P (g x)) \<Longrightarrow> emits log P (case_option m g y)"
  by (simp split: option.splits)

lemma emits_case_prod [emits_rules]: "(\<And>x y. emits log P (g x y)) \<Longrightarrow> emits log P (case_prod g p)"
  by (simp split: prod.splits)

lemma emits_Let [emits_rules]: "(\<And>x. emits log P (g x)) \<Longrightarrow> emits log P (Let t g)"
  by (simp add: Let_def)

lemma emits_zoom:
  assumes "emits log P m" "\<And>t s. log' (upd t s) = log t" "\<And>s. log' s = log (sel s)"
  shows "emits log' P (zoom sel upd m)"
  unfolding emits_def
proof
  fix s
  obtain a t where m: "run_state m (sel s) = (a, t)" by (meson surj_pair)
  have "log' s = log (sel s)" by (rule assms(3))
  with emitsD [OF assms(1) m]
  show "\<exists>es. log' (snd (run_state (zoom sel upd m) s)) = log' s @ es \<and> list_all P es"
    by (simp add: m assms(2))
qed

lemma emits_mono: "emits log P m \<Longrightarrow> (\<And>e. P e \<Longrightarrow> Q e) \<Longrightarrow> emits log Q m"
  unfolding emits_def by (metis list_all_iff)

lemma traced_logged_calls [simp]:
  "os_open (traced os) p mode = logged (EOpenWrite p mode) (os_open os p mode)"
  "os_write (traced os) fd s = logged (EWrite fd s) (os_write os fd s)"
  "os_mkdir (traced os) p = logged (EMkdir p) (os_mkdir os p)"
  "os_sched_setaffinity (traced os) t m = logged (ESetAffinity t m) (os_sched_setaffinity os t m)"
  "os_sched_setscheduler (traced os) t pol q =
     logged (ESetScheduler t pol q) (os_sched_setscheduler os t pol q)"
  "os_setpriority (traced os) t n = logged (ESetPriority t n) (os_setpriority os t n)"
  by (simp_all add: traced_def)

subsection \<open>Durations\<close>

text \<open>\<open>duration_cast<milliseconds>(now - t).count()\<close> truncates towards zero.\<close>

definition trunc_div :: "int \<Rightarrow> int \<Rightarrow> int" where
  "trunc_div a b = sgn a * sgn b * (\<bar>a\<bar> div \<bar>b\<bar>)"

definition NS_PER_MS :: int where "NS_PER_MS = 1000000"

definition elapsed_ms :: "int \<Rightarrow> int \<Rightarrow> int" where
  "elapsed_ms t now = trunc_div (now - t) NS_PER_MS"

lemma elapsed_ms_mono_clock: "t \<le> now \<Longrightarrow> elapsed_ms t now = (now - t) div NS_PER_MS"
  by (cases "t = now") (simp_all add: elapsed_ms_def trunc_div_def NS_PER_MS_def sgn_if)

lemma elapsed_ms_less_iff:
  assumes "t \<le> now"
  shows "elapsed_ms t now < n \<longleftrightarrow> now - t < n * NS_PER_MS"
proof -
  define d q r where "d = now - t" and "q = d div 1000000" and "r = d mod 1000000"
  have "d = 1000000 * q + r" "0 \<le> r" "r < 1000000"
    by (simp_all add: q_def r_def)
  then have "q < n \<longleftrightarrow> d < n * 1000000" by linarith
  then show ?thesis
    using assms by (simp add: elapsed_ms_mono_clock NS_PER_MS_def q_def d_def)
qed

lemma elapsed_ms_self [simp]: "elapsed_ms t t = 0"
  by (simp add: elapsed_ms_def trunc_div_def)

subsection \<open>A clock that does not stop\<close>

text \<open>
  The law of \<open>CLOCK_MONOTONIC\<close> the loops that run against a deadline rely on: reading the clock
  shows the current time and takes time, and no other call sets it back.
\<close>

definition clock_law :: "'w os \<Rightarrow> ('w \<Rightarrow> int) \<Rightarrow> bool" where
  "clock_law os clk \<longleftrightarrow>
     (\<forall>w. fst (run_state (os_now os) w) = clk w \<and> clk w < clk (snd (run_state (os_now os) w))) \<and>
     (\<forall>us. climbs clk (os_sleep_us os us)) \<and> (\<forall>p. climbs clk (os_read_all os p)) \<and>
     (\<forall>p. climbs clk (os_opendir os p))"

lemma clock_lawD:
  assumes "clock_law os clk"
  shows "climbs clk (os_now os)" "climbs clk (os_sleep_us os us)" "climbs clk (os_read_all os p)"
    "climbs clk (os_opendir os p)"
  using assms by (auto simp: clock_law_def climbs_def intro: less_imp_le)

subsection \<open>The contract of a time-to-live cache\<close>

text \<open>
  Four caches of the program follow one discipline: an entry carries the time it was
  stored at, a lookup ignores an entry whose age has reached the time to live, and
  storing or dropping a key never invents an entry for another one. \<open>hits_are_recent\<close>
  is what a client gets: whatever was stored and dropped before, a hit is the value of the
  last store for that key, and that store is still recent.
\<close>

datatype ('k, 'v) cache_op = Store int 'k 'v | Drop 'k

fun last_store :: "('k, 'v) cache_op list \<Rightarrow> 'k \<Rightarrow> ('v \<times> int) option" where
  "last_store [] k = None"
| "last_store (Store t k' v # ops) k =
     (case last_store ops k of Some r \<Rightarrow> Some r
      | None \<Rightarrow> if k' = k \<and> (\<forall>op \<in> set ops. op \<noteq> Drop k) then Some (v, t) else None)"
| "last_store (Drop k' # ops) k = last_store ops k"

locale ttl_cache =
  fixes ent :: "'c \<Rightarrow> 'k \<Rightarrow> ('v \<times> int) option"
    and look :: "int \<Rightarrow> 'k \<Rightarrow> 'c \<Rightarrow> 'v option"
    and ins :: "int \<Rightarrow> 'k \<Rightarrow> 'v \<Rightarrow> 'c \<Rightarrow> 'c"
    and drp :: "'k \<Rightarrow> 'c \<Rightarrow> 'c"
    and ok :: "'c \<Rightarrow> bool"
    and recent :: "int \<Rightarrow> int \<Rightarrow> bool"
  assumes look_recent: "ok c \<Longrightarrow> look now k c = Some v \<Longrightarrow>
      \<exists>t. ent c k = Some (v, t) \<and> recent now t"
    and ent_ins: "ok c \<Longrightarrow> ent (ins t k v c) k = Some (v, t)"
    and ent_ins_other: "ok c \<Longrightarrow> k' \<noteq> k \<Longrightarrow> ent (ins t k v c) k' = Some e \<Longrightarrow> ent c k' = Some e"
    and ent_drp: "ok c \<Longrightarrow> ent (drp k c) k = None"
    and ent_drp_other: "ok c \<Longrightarrow> k' \<noteq> k \<Longrightarrow> ent (drp k c) k' = Some e \<Longrightarrow> ent c k' = Some e"
    and ok_ins: "ok c \<Longrightarrow> ok (ins t k v c)"
    and ok_drp: "ok c \<Longrightarrow> ok (drp k c)"
begin

fun run_op :: "('k, 'v) cache_op \<Rightarrow> 'c \<Rightarrow> 'c" where
  "run_op (Store t k v) c = ins t k v c"
| "run_op (Drop k) c = drp k c"

lemmas cache_laws = look_recent ent_ins ent_drp ok_ins ok_drp

lemma ok_run: "ok c \<Longrightarrow> ok (fold run_op ops c)"
proof (induction ops arbitrary: c)
  case (Cons op ops)
  then show ?case by (cases op) (simp_all add: ok_ins ok_drp)
qed simp

lemma ent_run_absent:
  "ok c \<Longrightarrow> ent c k = None \<Longrightarrow> ent (fold run_op ops c) k = Some e \<Longrightarrow> last_store ops k = Some e"
  and ent_run_present:
  "ok c \<Longrightarrow> ent c k = Some e0 \<Longrightarrow> ent (fold run_op ops c) k = Some e \<Longrightarrow>
     last_store ops k = Some e \<or> (last_store ops k = None \<and> e = e0 \<and> Drop k \<notin> set ops)"
proof (induction ops arbitrary: c e0)
  case Nil
  { case 1 then show ?case by simp next case 2 then show ?case by simp }
next
  case (Cons op ops)
  { case 1
    then show ?case
    proof (cases op)
      case (Store t k' v)
      show ?thesis
      proof (cases "k' = k")
        case True
        with 1 Store have "ent (ins t k' v c) k = Some (v, t)" by (simp add: ent_ins)
        from Cons.IH(2) [OF ok_ins [OF 1(1)] this] 1(3) Store True
        show ?thesis by auto
      next
        case False
        with 1 have "ent (ins t k' v c) k = None"
          by (metis ent_ins_other not_None_eq)
        from Cons.IH(1) [OF ok_ins [OF 1(1)] this] 1(3) Store False
        show ?thesis by auto
      qed
    next
      case (Drop k')
      with 1 have "ent (drp k' c) k = None"
        by (metis ent_drp ent_drp_other not_None_eq)
      from Cons.IH(1) [OF ok_drp [OF 1(1)] this] 1(3) Drop show ?thesis by auto
    qed
  next
    case 2
    then show ?case
    proof (cases op)
      case (Store t k' v)
      show ?thesis
      proof (cases "k' = k")
        case True
        with 2 Store have "ent (ins t k' v c) k = Some (v, t)" by (simp add: ent_ins)
        from Cons.IH(2) [OF ok_ins [OF 2(1)] this] 2(3) Store True
        show ?thesis by auto
      next
        case False
        show ?thesis
        proof (cases "ent (ins t k' v c) k")
          case None
          from Cons.IH(1) [OF ok_ins [OF 2(1)] None] 2(3) Store False show ?thesis by auto
        next
          case (Some e1)
          with False 2 have "e1 = e0" by (metis ent_ins_other option.inject)
          with Cons.IH(2) [OF ok_ins [OF 2(1)] Some] 2(3) Store False show ?thesis by auto
        qed
      qed
    next
      case (Drop k')
      show ?thesis
      proof (cases "ent (drp k' c) k")
        case None
        from Cons.IH(1) [OF ok_drp [OF 2(1)] None] 2(3) Drop show ?thesis by auto
      next
        case (Some e1)
        with 2 have "k' \<noteq> k" by (metis ent_drp option.distinct(1))
        moreover from this Some 2 have "e1 = e0" by (metis ent_drp_other option.inject)
        ultimately show ?thesis using Cons.IH(2) [OF ok_drp [OF 2(1)] Some] 2(3) Drop by auto
      qed
    qed
  }
qed

lemma hits_are_recent:
  assumes "ok c" "\<And>k. ent c k = None" "look now k (fold run_op ops c) = Some v"
  shows "\<exists>t. last_store ops k = Some (v, t) \<and> recent now t"
  using look_recent [OF ok_run [OF assms(1)] assms(3)] ent_run_absent [OF assms(1,2)] by blast

end

end
