(* ===== verification/Cxx_Text.thy ===== *)
theory Cxx_Text
  imports Prelude "HOL-Library.Char_ord"
begin

section \<open>The C and C++ text functions the program relies on\<close>

text \<open>
  \<open>std::to_string\<close>, \<open>strtol\<close>, \<open>strtoull\<close>, \<open>std::stoi\<close>, \<open>std::getline\<close> and the
  searches of \<open>std::string\<close>, as the source uses them: base 10, the C locale, \<open>long\<close> of 64
  bits and \<open>int\<close> of 32 bits (LP64; on 32-bit ABIs the callers' own range checks reject
  what \<open>strtol\<close> would clamp). A string is the list of its bytes.
\<close>

definition INT_MAX :: int where "INT_MAX = 2147483647"
definition INT_MIN :: int where "INT_MIN = -2147483648"
definition LONG_MAX :: int where "LONG_MAX = 9223372036854775807"
definition LONG_MIN :: int where "LONG_MIN = -9223372036854775808"
definition UINT64_MOD :: int where "UINT64_MOD = 18446744073709551616"

subsection \<open>Characters\<close>

definition NUL :: char where "NUL = CHR 0x00"
definition NL :: char where "NL = CHR 0x0A"
definition TAB :: char where "TAB = CHR 0x09"

definition is_digit :: "char \<Rightarrow> bool" where
  "is_digit c \<longleftrightarrow> 48 \<le> (of_char c :: nat) \<and> (of_char c :: nat) \<le> 57"

definition is_space :: "char \<Rightarrow> bool" where
  "is_space c \<longleftrightarrow> (of_char c :: nat) = 32 \<or> (9 \<le> (of_char c :: nat) \<and> (of_char c :: nat) \<le> 13)"

definition digit_val :: "char \<Rightarrow> nat" where
  "digit_val c = of_char c - 48"

definition digit_char :: "nat \<Rightarrow> char" where
  "digit_char n = char_of (48 + n)"

definition c_str :: "string \<Rightarrow> string" where
  "c_str s = takeWhile (\<lambda>c. c \<noteq> NUL) s"

lemma of_char_digit_char: "n < 10 \<Longrightarrow> of_char (digit_char n) = 48 + n"
  by (simp add: digit_char_def)

lemma digit_char_props [simp]:
  "n < 10 \<Longrightarrow> is_digit (digit_char n)"
  "n < 10 \<Longrightarrow> digit_val (digit_char n) = n"
  by (simp_all add: is_digit_def digit_val_def of_char_digit_char)

lemma is_digit_not_space: "is_digit c \<Longrightarrow> \<not> is_space c"
  by (auto simp: is_digit_def is_space_def)

lemma is_digit_neq [simp]:
  "is_digit c \<Longrightarrow> c \<noteq> CHR ''-''" "is_digit c \<Longrightarrow> c \<noteq> CHR ''+''"
  "is_digit c \<Longrightarrow> c \<noteq> CHR '',''" "is_digit c \<Longrightarrow> c \<noteq> CHR '' ''"
  "is_digit c \<Longrightarrow> c \<noteq> CHR '')''" "is_digit c \<Longrightarrow> c \<noteq> CHR ''/''"
  "is_digit c \<Longrightarrow> c \<noteq> CHR '':''" "is_digit c \<Longrightarrow> c \<noteq> NUL"
  "is_digit c \<Longrightarrow> c \<noteq> NL" "is_digit c \<Longrightarrow> c \<noteq> TAB"
  by (auto simp: is_digit_def NUL_def NL_def TAB_def)

lemma not_is_digit [simp]:
  "\<not> is_digit (CHR ''-'')" "\<not> is_digit (CHR ''+'')" "\<not> is_digit (CHR '','')"
  "\<not> is_digit (CHR '' '')" "\<not> is_digit (CHR '')'')" "\<not> is_digit (CHR ''/'')"
  "\<not> is_digit (CHR '':'')" "\<not> is_digit NUL" "\<not> is_digit NL" "\<not> is_digit TAB"
  by (simp_all add: is_digit_def NUL_def NL_def TAB_def)

subsection \<open>Decimal output\<close>

fun show_nat :: "nat \<Rightarrow> string" where
  "show_nat n = (if n < 10 then [digit_char n] else show_nat (n div 10) @ [digit_char (n mod 10)])"

declare show_nat.simps [simp del]

definition to_string :: "int \<Rightarrow> string" where
  "to_string i = (if i < 0 then CHR ''-'' # show_nat (nat (- i)) else show_nat (nat i))"

definition digits_val :: "string \<Rightarrow> nat" where
  "digits_val ds = foldl (\<lambda>a c. 10 * a + digit_val c) 0 ds"

lemma show_nat_nonempty [simp]: "show_nat n \<noteq> []"
  by (subst show_nat.simps) simp

lemma show_nat_digits: "\<forall>c \<in> set (show_nat n). is_digit c"
proof (induction n rule: show_nat.induct)
  case (1 n)
  then show ?case by (subst show_nat.simps) (auto simp: not_less)
qed

lemma digits_val_snoc [simp]: "digits_val (ds @ [c]) = 10 * digits_val ds + digit_val c"
  by (simp add: digits_val_def)

lemma digits_val_show_nat [simp]: "digits_val (show_nat n) = n"
proof (induction n rule: show_nat.induct)
  case (1 n)
  show ?case
  proof (cases "n < 10")
    case True
    then show ?thesis by (subst show_nat.simps) (simp add: digits_val_def)
  next
    case False
    with "1.IH" show ?thesis by (subst show_nat.simps) simp
  qed
qed

lemma show_nat_inject [simp]: "show_nat m = show_nat n \<longleftrightarrow> m = n"
  by (metis digits_val_show_nat)

lemma to_string_nonempty [simp]: "to_string i \<noteq> []"
  by (simp add: to_string_def)

lemma to_string_inject [simp]: "to_string i = to_string j \<longleftrightarrow> i = j"
proof
  assume eq: "to_string i = to_string j"
  have hd: "hd (show_nat n) \<noteq> CHR ''-''" for n
    using show_nat_digits [of n] by (metis hd_in_set is_digit_neq(1) show_nat_nonempty)
  show "i = j"
  proof (cases "(i < 0) = (j < 0)")
    case True
    with eq show ?thesis by (auto simp: to_string_def split: if_splits)
  next
    case False
    with eq show ?thesis
      by (auto simp: to_string_def split: if_splits) (metis hd list.sel(1))+
  qed
qed simp

lemma to_string_nonneg: "0 \<le> i \<Longrightarrow> to_string i = show_nat (nat i)"
  by (simp add: to_string_def)

lemma to_string_chars: "c \<in> set (to_string i) \<Longrightarrow> is_digit c \<or> c = CHR ''-''"
  using show_nat_digits by (auto simp: to_string_def split: if_splits)

subsection \<open>Decimal input\<close>

text \<open>
  \<open>parse_int s\<close> is what the \<open>strtol\<close> family does before it checks a range: skip white
  space, read an optional sign and the longest run of digits. \<open>None\<close> is "no conversion"
  (\<open>end == str\<close>); otherwise the sign, the magnitude and the rest \<open>end\<close> points to.
\<close>

definition parse_int :: "string \<Rightarrow> (bool \<times> nat \<times> string) option" where
  "parse_int s =
     (let t = dropWhile is_space (c_str s);
          neg = (t \<noteq> [] \<and> hd t = CHR ''-'');
          u = (if t \<noteq> [] \<and> (hd t = CHR ''-'' \<or> hd t = CHR ''+'') then tl t else t);
          ds = takeWhile is_digit u
      in if ds = [] then None else Some (neg, digits_val ds, dropWhile is_digit u))"

text \<open>\<open>strtol\<close>: the value clamped to \<open>long\<close>, \<open>end\<close>, and whether \<open>errno\<close> is \<open>ERANGE\<close>.\<close>

definition strtol :: "string \<Rightarrow> (int \<times> string \<times> bool) option" where
  "strtol s = (case parse_int s of None \<Rightarrow> None
     | Some (neg, n, rest) \<Rightarrow>
         (let v = (if neg then - int n else int n)
          in Some (if v > LONG_MAX then LONG_MAX else if v < LONG_MIN then LONG_MIN else v,
                   rest, v > LONG_MAX \<or> v < LONG_MIN)))"

text \<open>\<open>strtoull\<close>: a minus sign negates modulo 2 to the 64, as C requires.\<close>

definition strtoull :: "string \<Rightarrow> (nat \<times> string \<times> bool) option" where
  "strtoull s = (case parse_int s of None \<Rightarrow> None
     | Some (neg, n, rest) \<Rightarrow>
         (if int n \<ge> UINT64_MOD then Some (nat (UINT64_MOD - 1), rest, True)
          else Some (if neg then nat ((UINT64_MOD - int n) mod UINT64_MOD) else n, rest, False)))"

text \<open>\<open>std::stoi\<close>: \<open>None\<close> stands for the exception; trailing text is ignored.\<close>

definition stoi :: "string \<Rightarrow> int option" where
  "stoi s = (case strtol s of None \<Rightarrow> None
     | Some (v, _, erange) \<Rightarrow>
         (if erange \<or> v > INT_MAX \<or> v < INT_MIN then None else Some v))"

definition no_digit_head :: "string \<Rightarrow> bool" where
  "no_digit_head rest \<longleftrightarrow> rest = [] \<or> \<not> is_digit (hd rest)"

lemma parse_int_show_nat:
  assumes "no_digit_head rest"
  shows "parse_int (show_nat n @ rest) = Some (False, n, takeWhile (\<lambda>c. c \<noteq> NUL) rest)"
proof -
  let ?ds = "show_nat n"
  have ds: "\<forall>c \<in> set ?ds. is_digit c" by (rule show_nat_digits)
  obtain d ds' where cons: "?ds = d # ds'" by (cases ?ds) auto
  from ds cons have d: "is_digit d" by simp
  have cstr: "c_str (?ds @ rest) = ?ds @ takeWhile (\<lambda>c. c \<noteq> NUL) rest"
    using ds by (auto simp: c_str_def takeWhile_append2)
  have tw: "takeWhile is_digit (?ds @ takeWhile (\<lambda>c. c \<noteq> NUL) rest) = ?ds"
  proof -
    have "takeWhile is_digit (takeWhile (\<lambda>c. c \<noteq> NUL) rest) = []"
      using assms by (cases rest) (auto simp: no_digit_head_def)
    with ds show ?thesis by (simp add: takeWhile_append)
  qed
  have dw: "dropWhile is_digit (?ds @ takeWhile (\<lambda>c. c \<noteq> NUL) rest) = takeWhile (\<lambda>c. c \<noteq> NUL) rest"
    using tw by (metis append_same_eq same_append_eq takeWhile_dropWhile_id)
  have skip: "dropWhile is_space (?ds @ takeWhile (\<lambda>c. c \<noteq> NUL) rest) = ?ds @ takeWhile (\<lambda>c. c \<noteq> NUL) rest"
    using d by (simp add: cons is_digit_not_space)
  show ?thesis
    using d cstr tw dw skip cons by (auto simp: parse_int_def Let_def) (metis cons digits_val_show_nat)+
qed

lemma strtol_show_nat:
  assumes "no_digit_head rest" "int n \<le> LONG_MAX"
  shows "strtol (show_nat n @ rest) = Some (int n, takeWhile (\<lambda>c. c \<noteq> NUL) rest, False)"
  using assms by (simp add: strtol_def parse_int_show_nat LONG_MAX_def LONG_MIN_def)

lemma stoi_show_nat:
  assumes "no_digit_head rest" "int n \<le> INT_MAX"
  shows "stoi (show_nat n @ rest) = Some (int n)"
  using assms
  by (simp add: stoi_def strtol_show_nat LONG_MAX_def INT_MAX_def INT_MIN_def)

lemma strtoull_show_nat:
  assumes "int n < UINT64_MOD"
  shows "strtoull (show_nat n) = Some (n, [], False)"
  using assms parse_int_show_nat [of "[]" n] by (simp add: strtoull_def no_digit_head_def)

lemma strtol_range: "strtol s = Some (v, r, e) \<Longrightarrow> LONG_MIN \<le> v \<and> v \<le> LONG_MAX"
  by (auto simp: strtol_def LONG_MAX_def LONG_MIN_def Let_def split: option.splits if_splits)

lemma stoi_range: "stoi s = Some v \<Longrightarrow> INT_MIN \<le> v \<and> v \<le> INT_MAX"
  by (auto simp: stoi_def split: option.splits if_splits)

subsection \<open>Lines, fields and searches\<close>

text \<open>
  The loop \<open>while (std::getline(in, x, d))\<close>: the pieces between delimiters, with no empty
  piece after a final delimiter.
\<close>

function getlines :: "char \<Rightarrow> string \<Rightarrow> string list" where
  "getlines d s =
     (if s = [] then []
      else takeWhile (\<lambda>c. c \<noteq> d) s #
           (case dropWhile (\<lambda>c. c \<noteq> d) s of [] \<Rightarrow> [] | _ # r \<Rightarrow> getlines d r))"
  by pat_completeness auto
termination
proof (relation "measure (\<lambda>(d, s). length s)", goal_cases)
  case (2 d s c r)
  then have "Suc (length r) = length (dropWhile (\<lambda>c. c \<noteq> d) s)" by simp
  also have "\<dots> \<le> length s" by (rule length_dropWhile_le)
  finally show ?case by simp
qed simp

declare getlines.simps [simp del]

lemma getlines_Nil [simp]: "getlines d [] = []"
  by (simp add: getlines.simps)

lemma while_before [simp]:
  "d \<notin> set l \<Longrightarrow> takeWhile (\<lambda>c. c \<noteq> d) (l @ d # r) = l"
  "d \<notin> set l \<Longrightarrow> dropWhile (\<lambda>c. c \<noteq> d) (l @ d # r) = d # r"
  by (induction l) auto

lemma while_absent [simp]:
  "d \<notin> set s \<Longrightarrow> takeWhile (\<lambda>c. c \<noteq> d) s = s"
  "d \<notin> set s \<Longrightarrow> dropWhile (\<lambda>c. c \<noteq> d) s = []"
  by (induction s) auto

lemma getlines_single: "s \<noteq> [] \<Longrightarrow> d \<notin> set s \<Longrightarrow> getlines d s = [s]"
  by (subst getlines.simps) simp

lemma getlines_append: "d \<notin> set l \<Longrightarrow> getlines d (l @ d # r) = l # getlines d r"
  by (subst getlines.simps) simp

definition str_starts :: "string \<Rightarrow> string \<Rightarrow> bool" where
  "str_starts s p \<longleftrightarrow> take (length p) s = p"

fun str_find :: "string \<Rightarrow> string \<Rightarrow> nat option" where
  "str_find [] p = (if p = [] then Some 0 else None)"
| "str_find (c # s) p = (if str_starts (c # s) p then Some 0 else map_option Suc (str_find s p))"

definition str_contains :: "string \<Rightarrow> string \<Rightarrow> bool" where
  "str_contains s p \<longleftrightarrow> str_find s p \<noteq> None"

text \<open>Text before and after the first occurrence of a character (\<open>find\<close> and \<open>substr\<close>).\<close>

definition split_at :: "char \<Rightarrow> string \<Rightarrow> (string \<times> string) option" where
  "split_at d s = (case dropWhile (\<lambda>c. c \<noteq> d) s of [] \<Rightarrow> None
     | _ # r \<Rightarrow> Some (takeWhile (\<lambda>c. c \<noteq> d) s, r))"

text \<open>Text after the last occurrence of a character (\<open>rfind\<close> and \<open>substr\<close>).\<close>

definition after_last :: "char \<Rightarrow> string \<Rightarrow> string option" where
  "after_last d s = (if d \<in> set s then Some (rev (takeWhile (\<lambda>c. c \<noteq> d) (rev s))) else None)"

definition strip_trailing :: "char \<Rightarrow> string \<Rightarrow> string" where
  "strip_trailing d s = rev (dropWhile (\<lambda>c. c = d) (rev s))"

lemma str_starts_append [simp]: "str_starts (p @ s) p"
  by (simp add: str_starts_def)

lemma str_starts_iff: "str_starts s p \<longleftrightarrow> (\<exists>t. s = p @ t)"
  by (auto simp: str_starts_def) (metis append_take_drop_id)

lemma str_contains_iff: "str_contains s p \<longleftrightarrow> (\<exists>a b. s = a @ p @ b)"
proof (induction s)
  case Nil
  then show ?case by (simp add: str_contains_def)
next
  case (Cons c s)
  have "str_contains (c # s) p \<longleftrightarrow> str_starts (c # s) p \<or> str_contains s p"
    by (simp add: str_contains_def)
  also have "\<dots> \<longleftrightarrow> (\<exists>b. c # s = p @ b) \<or> (\<exists>a b. s = a @ p @ b)"
    by (simp add: str_starts_iff Cons.IH)
  also have "\<dots> \<longleftrightarrow> (\<exists>a b. c # s = a @ p @ b)"
    by (metis append_Cons append_Nil list.exhaust list.inject)
  finally show ?case .
qed

lemma split_at_append: "d \<notin> set l \<Longrightarrow> split_at d (l @ d # r) = Some (l, r)"
  by (simp add: split_at_def)

lemma split_at_None: "d \<notin> set s \<Longrightarrow> split_at d s = None"
  by (simp add: split_at_def)

lemma split_at_SomeD:
  assumes "split_at d s = Some (l, r)"
  shows "s = l @ d # r \<and> d \<notin> set l"
proof -
  from assms obtain c where dw: "dropWhile (\<lambda>c. c \<noteq> d) s = c # r"
    and tw: "takeWhile (\<lambda>c. c \<noteq> d) s = l"
    by (auto simp: split_at_def split: list.splits)
  from dw have "c = d" by (metis (mono_tags) hd_dropWhile list.sel(1) list.distinct(1))
  moreover have "s = l @ c # r" using dw tw takeWhile_dropWhile_id by metis
  moreover have "d \<notin> set l" using tw set_takeWhileD by fastforce
  ultimately show ?thesis by simp
qed

lemma after_last_append: "d \<notin> set r \<Longrightarrow> after_last d (l @ d # r) = Some r"
  by (simp add: after_last_def takeWhile_append takeWhile_eq_all_conv)

end
