(* ===== verification/Config_Types.thy ===== *)
theory Config_Types
  imports Prelude
begin

section \<open>Configuration and match-result types\<close>

text \<open>
  The data of \<open>config/config_types.hpp\<close>, the log levels of \<open>utils/logger.hpp\<close> and the
  result record of \<open>core/thread_matcher.hpp\<close> with its pure helpers. Field names carry
  the initials of their struct, because several structs share them. C++ \<open>int\<close> fields are
  \<open>int\<close>; the range each one has after parsing is proved in \<open>Config_Parser\<close>.
\<close>

datatype ProcessState = BG | FG | TOP

datatype LogLevel = ERR | WARN | INFO | DEBUG | TRACE

instantiation LogLevel :: linorder
begin

fun log_rank :: "LogLevel \<Rightarrow> nat" where
  "log_rank ERR = 0"
| "log_rank WARN = 1"
| "log_rank INFO = 2"
| "log_rank DEBUG = 3"
| "log_rank TRACE = 4"

definition less_eq_LogLevel :: "LogLevel \<Rightarrow> LogLevel \<Rightarrow> bool" where
  "less_eq_LogLevel a b \<longleftrightarrow> log_rank a \<le> log_rank b"

definition less_LogLevel :: "LogLevel \<Rightarrow> LogLevel \<Rightarrow> bool" where
  "less_LogLevel a b \<longleftrightarrow> log_rank a < log_rank b"

instance
proof
  fix a b c :: LogLevel
  show "a < b \<longleftrightarrow> a \<le> b \<and> \<not> b \<le> a" "a \<le> a" "a \<le> b \<or> b \<le> a"
    by (auto simp: less_eq_LogLevel_def less_LogLevel_def)
  show "a \<le> b \<Longrightarrow> b \<le> c \<Longrightarrow> a \<le> c"
    by (auto simp: less_eq_LogLevel_def)
  show "a \<le> b \<Longrightarrow> b \<le> a \<Longrightarrow> a = b"
    by (cases a; cases b) (auto simp: less_eq_LogLevel_def)
qed

end

record LogConfig =
  lc_level :: string
  lc_output :: string

record ThreadRule =
  tr_keyword :: string
  tr_affinity_class :: string
  tr_prio_class :: string
  tr_uclamp_max :: "int option"
  tr_cpu_share :: "int option"
  tr_enable_limit :: bool

record ProcessRule =
  pr_name :: string
  pr_regex_str :: string
  pr_pinned :: bool
  pr_topfore :: bool
  pr_thread_rules :: "ThreadRule list"

record AffinityScene =
  as_bg :: string
  as_fg :: string
  as_top :: string

record PrioScene =
  ps_bg :: int
  ps_fg :: int
  ps_top :: int

record TimingConfig =
  event_throttle_ms :: int
  min_schedule_interval_ms :: int
  schedule_cleanup_interval_ms :: int
  cgroup_check_interval_ms :: int
  cpuset_retry_count :: int
  cpuset_retry_interval_ms :: int
  cpuset_group_check_ttl_ms :: int
  process_cache_ttl_ms :: int
  file_cache_ttl_ms :: int
  cgroup_cache_ttl_ms :: int
  monitor_initial_restart_delay_s :: int
  monitor_restart_retry_delay_s :: int
  config_retry_initial_delay_s :: int
  config_retry_max_delay_s :: int

record SchedConfig =
  sc_enable :: bool
  sc_refresh_interval_ms :: int
  sc_highspeed_sched_ms :: int
  sc_top_scan_budget_us :: int
  sc_full_scan_budget_us :: int
  sc_scan_batch_size :: int
  sc_scan_batch_yield_us :: int
  sc_case_insensitive :: bool
  sc_timing :: TimingConfig
  sc_log :: LogConfig
  sc_cpumask :: "(string, int list) umap"
  sc_affinity :: "(string, AffinityScene) umap"
  sc_prio :: "(string, PrioScene) umap"
  sc_rules :: "ProcessRule list"

record Config =
  meta_name :: string
  meta_author :: string
  sched :: SchedConfig
  launcher_package :: string

definition default_log :: LogConfig where
  "default_log = \<lparr>lc_level = ''info'', lc_output = ''/data/adb/ReUperf/ReUperf.log''\<rparr>"

definition default_timing :: TimingConfig where
  "default_timing = \<lparr>event_throttle_ms = 50, min_schedule_interval_ms = 200,
     schedule_cleanup_interval_ms = 5000, cgroup_check_interval_ms = 1000,
     cpuset_retry_count = 3, cpuset_retry_interval_ms = 10, cpuset_group_check_ttl_ms = 1000,
     process_cache_ttl_ms = 100, file_cache_ttl_ms = 100, cgroup_cache_ttl_ms = 100,
     monitor_initial_restart_delay_s = 1, monitor_restart_retry_delay_s = 5,
     config_retry_initial_delay_s = 1, config_retry_max_delay_s = 5\<rparr>"

definition default_sched :: SchedConfig where
  "default_sched = \<lparr>sc_enable = True, sc_refresh_interval_ms = 2000, sc_highspeed_sched_ms = 300,
     sc_top_scan_budget_us = 4000, sc_full_scan_budget_us = 12000, sc_scan_batch_size = 32,
     sc_scan_batch_yield_us = 0, sc_case_insensitive = False, sc_timing = default_timing,
     sc_log = default_log, sc_cpumask = [], sc_affinity = [], sc_prio = [], sc_rules = []\<rparr>"

definition default_config :: Config where
  "default_config = \<lparr>meta_name = [], meta_author = [], sched = default_sched, launcher_package = []\<rparr>"

definition parse_log_level :: "string \<Rightarrow> LogLevel" where
  "parse_log_level level =
     (if level = ''err'' then ERR else if level = ''warn'' then WARN
      else if level = ''info'' then INFO else if level = ''debug'' then DEBUG
      else if level = ''trace'' then TRACE else INFO)"

subsection \<open>Match results\<close>

record MatchResult =
  mr_matched :: bool
  mr_affinity_class :: string
  mr_prio_class :: string
  mr_cpumask_name :: string
  mr_uclamp_max :: "int option"
  mr_cpu_share :: "int option"
  mr_enable_limit :: bool
  mr_effective_state :: ProcessState
  mr_matched_rule_name :: string
  mr_thread_rule_index :: int
  mr_pinned :: bool
  mr_topfore :: bool

text \<open>
  A default-constructed result; its \<open>effective_state\<close> is indeterminate in C++ until the
  matcher assigns it, so it is an argument here.
\<close>

definition new_result :: "ProcessState \<Rightarrow> MatchResult" where
  "new_result st = \<lparr>mr_matched = False, mr_affinity_class = [], mr_prio_class = [],
     mr_cpumask_name = [], mr_uclamp_max = None, mr_cpu_share = None, mr_enable_limit = False,
     mr_effective_state = st, mr_matched_rule_name = [], mr_thread_rule_index = -1,
     mr_pinned = False, mr_topfore = False\<rparr>"

definition has_resolved_affinity :: "MatchResult \<Rightarrow> bool" where
  "has_resolved_affinity r \<longleftrightarrow>
     mr_affinity_class r \<noteq> [] \<and> mr_affinity_class r \<noteq> ''auto'' \<and> mr_cpumask_name r \<noteq> []"

definition should_dispatch_background_process :: "MatchResult \<Rightarrow> bool \<Rightarrow> bool \<Rightarrow> bool" where
  "should_dispatch_background_process r has_baseline kernel_thread \<longleftrightarrow>
     (if kernel_thread \<and> \<not> has_baseline \<and> mr_matched_rule_name r = ''Default rule'' then False
      else mr_matched r \<or> has_baseline)"

definition should_restore_managed_component :: "bool \<Rightarrow> bool \<Rightarrow> bool" where
  "should_restore_managed_component previously currently \<longleftrightarrow> previously \<and> \<not> currently"

definition should_restore_managed_affinity :: "MatchResult option \<Rightarrow> MatchResult \<Rightarrow> bool" where
  "should_restore_managed_affinity previous current \<longleftrightarrow>
     (case previous of None \<Rightarrow> False
      | Some p \<Rightarrow> should_restore_managed_component (has_resolved_affinity p) (has_resolved_affinity current))"

definition should_restore_managed_priority :: "int \<Rightarrow> int \<Rightarrow> bool" where
  "should_restore_managed_priority previous current \<longleftrightarrow>
     should_restore_managed_component (previous \<noteq> 0) (current \<noteq> 0)"

definition should_restore_managed_limit :: "MatchResult option \<Rightarrow> MatchResult \<Rightarrow> bool" where
  "should_restore_managed_limit previous current \<longleftrightarrow>
     (case previous of None \<Rightarrow> False
      | Some p \<Rightarrow> should_restore_managed_component (mr_enable_limit p) (mr_enable_limit current))"

definition is_result_equal :: "MatchResult \<Rightarrow> MatchResult \<Rightarrow> bool" where
  "is_result_equal a b \<longleftrightarrow>
     mr_matched a = mr_matched b \<and> mr_affinity_class a = mr_affinity_class b \<and>
     mr_prio_class a = mr_prio_class b \<and> mr_cpumask_name a = mr_cpumask_name b \<and>
     mr_effective_state a = mr_effective_state b \<and> mr_enable_limit a = mr_enable_limit b \<and>
     mr_uclamp_max a = mr_uclamp_max b \<and> mr_cpu_share a = mr_cpu_share b \<and>
     mr_thread_rule_index a = mr_thread_rule_index b \<and>
     mr_matched_rule_name a = mr_matched_rule_name b \<and> mr_pinned a = mr_pinned b \<and>
     mr_topfore a = mr_topfore b"

lemma is_result_equal_iff [simp]: "is_result_equal a b \<longleftrightarrow> a = b"
  by (cases a; cases b) (auto simp: is_result_equal_def)

subsection \<open>Reading the configuration\<close>

definition scene_mask :: "AffinityScene \<Rightarrow> ProcessState \<Rightarrow> string" where
  "scene_mask sc st = (case st of BG \<Rightarrow> as_bg sc | FG \<Rightarrow> as_fg sc | TOP \<Rightarrow> as_top sc)"

definition scene_prio :: "PrioScene \<Rightarrow> ProcessState \<Rightarrow> int" where
  "scene_prio sc st = (case st of BG \<Rightarrow> ps_bg sc | FG \<Rightarrow> ps_fg sc | TOP \<Rightarrow> ps_top sc)"

definition get_cpumask_name_for_affinity :: "Config \<Rightarrow> string \<Rightarrow> ProcessState \<Rightarrow> string" where
  "get_cpumask_name_for_affinity cfg ac st =
     (if ac = [] \<or> ac = ''auto'' then []
      else case map_of (sc_affinity (sched cfg)) ac of None \<Rightarrow> []
           | Some scene \<Rightarrow> scene_mask scene st)"

definition get_cpus_for_affinity :: "Config \<Rightarrow> string \<Rightarrow> ProcessState \<Rightarrow> int list" where
  "get_cpus_for_affinity cfg ac st =
     (let name = get_cpumask_name_for_affinity cfg ac st
      in if name = [] then []
         else case map_of (sc_cpumask (sched cfg)) name of None \<Rightarrow> [] | Some cpus \<Rightarrow> cpus)"

definition get_prio_value :: "Config \<Rightarrow> string \<Rightarrow> ProcessState \<Rightarrow> int" where
  "get_prio_value cfg pc st =
     (if pc = [] \<or> pc = ''auto'' then 0
      else case map_of (sc_prio (sched cfg)) pc of None \<Rightarrow> 0 | Some scene \<Rightarrow> scene_prio scene st)"

end
