(* ===== verification/File_Utils.thy ===== *)
theory File_Utils
  imports Kernel Cxx_Text Config_Types
begin

section \<open>File and /proc access (utils/file\_utils.hpp)\<close>

text \<open>
  The parsers of \<open>/proc\<close> and cgroup files, the bounded least-recently-used file cache,
  the cgroup path cache, and the reads and writes every other component goes through. The
  two global caches and the world live in the record \<open>env\<close>; \<open>sys\<close> runs a system call on
  the world inside it.
\<close>

subsection \<open>State\<close>

text \<open>
  \<open>file_cache_lru\<close> is the list, oldest first. \<open>file_cache_order\<close> maps a path to its node
  of that list; it has no representation of its own: a path has a node exactly when it
  occurs in the list, and erasing its node is \<open>remove1\<close>.
\<close>

record FileCache =
  fc_entries :: "(string, string \<times> int) umap"
  fc_lru :: "string list"

type_synonym CgroupCache = "(int \<times> string, string \<times> int) umap"

record 'w env =
  world :: 'w
  fcache :: FileCache
  ccache :: CgroupCache
  file_ttl :: int
  cgroup_ttl :: int

definition sys :: "('w, 'a) state \<Rightarrow> ('w env, 'a) state" where
  "sys m = zoom world (\<lambda>w e. e\<lparr>world := w\<rparr>) m"

lemma run_sys [simp]:
  "run_state (sys m) e = (case run_state m (world e) of (a, w) \<Rightarrow> (a, e\<lparr>world := w\<rparr>))"
  by (simp add: sys_def)

lemma keeps_sys [keeps_rules]:
  "(\<And>w e. f (e\<lparr>world := w\<rparr>) = f e) \<Longrightarrow> keeps f (sys m)"
  by (simp add: keeps_def split: prod.splits)

definition set_cache_ttls :: "int \<Rightarrow> int \<Rightarrow> ('w env, unit) state" where
  "set_cache_ttls file_ttl_ms cgroup_ttl_ms =
     modify (\<lambda>e. e\<lparr>file_ttl := file_ttl_ms, cgroup_ttl := cgroup_ttl_ms\<rparr>)"

subsection \<open>Existence and directories\<close>

definition file_exists :: "'w os \<Rightarrow> string \<Rightarrow> ('w env, bool) state" where
  "file_exists os path = do { k \<leftarrow> sys (os_stat os path); State_Monad.return (k \<noteq> NoEntry) }"

definition dir_exists :: "'w os \<Rightarrow> string \<Rightarrow> ('w env, bool) state" where
  "dir_exists os path = do { k \<leftarrow> sys (os_stat os path); State_Monad.return (k = Directory) }"

text \<open>The proper prefixes the loop over \<open>find('/', pos + 1)\<close> visits, in its order.\<close>

definition slash_prefixes :: "string \<Rightarrow> string list" where
  "slash_prefixes path = map (\<lambda>i. take i path) (filter (\<lambda>i. path ! i = CHR ''/'') [1..<length path])"

fun mkdir_prefixes :: "'w os \<Rightarrow> string list \<Rightarrow> ('w env, bool) state" where
  "mkdir_prefixes os [] = State_Monad.return True"
| "mkdir_prefixes os (dir # dirs) = do {
     present \<leftarrow> (if dir \<noteq> [] then dir_exists os dir else State_Monad.return True);
     if present then mkdir_prefixes os dirs
     else do {
       r \<leftarrow> sys (os_mkdir os dir);
       if r = MkdirFailed then State_Monad.return False else mkdir_prefixes os dirs
     }
   }"

definition mkdir_recursive :: "'w os \<Rightarrow> string \<Rightarrow> ('w env, bool) state" where
  "mkdir_recursive os path = do {
     there \<leftarrow> dir_exists os path;
     if there then State_Monad.return True
     else do {
       ok \<leftarrow> mkdir_prefixes os (slash_prefixes path);
       if \<not> ok then State_Monad.return False
       else do {
         there2 \<leftarrow> dir_exists os path;
         if there2 then State_Monad.return True
         else do {
           r \<leftarrow> sys (os_mkdir os path);
           State_Monad.return (r \<noteq> MkdirFailed)
         }
       }
     }
   }"

definition is_dynamic_kernel_path :: "string \<Rightarrow> bool" where
  "is_dynamic_kernel_path path \<longleftrightarrow> str_starts path ''/proc/'' \<or> str_starts path ''/dev/cpuset/''
     \<or> str_starts path ''/dev/cpuctl/''"

subsection \<open>The file cache\<close>

definition kMaxCacheSize :: nat where "kMaxCacheSize = 1000"

definition touch_file_cache_entry :: "string \<Rightarrow> FileCache \<Rightarrow> FileCache" where
  "touch_file_cache_entry path c = c\<lparr>fc_lru := remove1 path (fc_lru c) @ [path]\<rparr>"

definition erase_file_cache_entry :: "string \<Rightarrow> FileCache \<Rightarrow> FileCache" where
  "erase_file_cache_entry path c =
     c\<lparr>fc_entries := AList.delete path (fc_entries c), fc_lru := remove1 path (fc_lru c)\<rparr>"

definition invalidate_file_cache :: "string \<Rightarrow> ('w env, unit) state" where
  "invalidate_file_cache path = modify (\<lambda>e. e\<lparr>fcache := erase_file_cache_entry path (fcache e)\<rparr>)"

text \<open>The two critical sections of \<open>read_file\<close>: the lookup and the insertion.\<close>

definition file_cache_lookup :: "int \<Rightarrow> int \<Rightarrow> string \<Rightarrow> FileCache \<Rightarrow> string option" where
  "file_cache_lookup ttl now path c = (case map_of (fc_entries c) path of None \<Rightarrow> None
     | Some (content, t) \<Rightarrow> if elapsed_ms t now < ttl then Some content else None)"

definition file_cache_insert :: "int \<Rightarrow> string \<Rightarrow> string \<Rightarrow> FileCache \<Rightarrow> FileCache" where
  "file_cache_insert now path content c =
     (let replacing = map_of (fc_entries c) path \<noteq> None;
          c1 = (if \<not> replacing \<and> kMaxCacheSize \<le> length (fc_entries c) \<and> fc_lru c \<noteq> []
                then erase_file_cache_entry (hd (fc_lru c)) c else c)
      in touch_file_cache_entry path (c1\<lparr>fc_entries := AList.update path (content, now) (fc_entries c1)\<rparr>))"

definition read_file :: "'w os \<Rightarrow> string \<Rightarrow> ('w env, string) state" where
  "read_file os path = do {
     now \<leftarrow> sys (os_now os);
     e \<leftarrow> State_Monad.get;
     (case (if \<not> is_dynamic_kernel_path path
            then file_cache_lookup (file_ttl e) now path (fcache e) else None) of
        Some content \<Rightarrow> do {
          modify (\<lambda>e. e\<lparr>fcache := touch_file_cache_entry path (fcache e)\<rparr>);
          State_Monad.return content }
      | None \<Rightarrow> do {
          data \<leftarrow> sys (os_read_all os path);
          (case data of None \<Rightarrow> State_Monad.return []
           | Some raw \<Rightarrow>
               (let content = strip_trailing NL raw
                in if \<not> is_dynamic_kernel_path path
                   then do {
                     modify (\<lambda>e. e\<lparr>fcache := file_cache_insert now path content (fcache e)\<rparr>);
                     State_Monad.return content }
                   else State_Monad.return content)) })
   }"

subsection \<open>Writing\<close>

function write_all :: "'w os \<Rightarrow> int \<Rightarrow> string \<Rightarrow> 'w \<Rightarrow> bool \<times> 'w" where
  "write_all os fd rest w =
     (if rest = [] then (True, w)
      else case run_state (os_write os fd rest) w of (ret, w') \<Rightarrow>
        if ret \<le> 0 then (False, w') else write_all os fd (drop (nat ret) rest) w')"
  by pat_completeness auto
termination
  by (relation "measure (\<lambda>(os, fd, rest, w). length rest)") auto

declare write_all.simps [simp del]

definition write_open_file :: "'w os \<Rightarrow> string \<Rightarrow> string \<Rightarrow> open_mode \<Rightarrow> ('w env, bool) state" where
  "write_open_file os path content mode = do {
     fd \<leftarrow> sys (os_open os path mode);
     if fd < 0 then State_Monad.return False
     else do {
       ok \<leftarrow> sys (State (write_all os fd content));
       sys (os_close os fd);
       if ok then do { invalidate_file_cache path; State_Monad.return True }
       else State_Monad.return False
     }
   }"

definition write_file :: "'w os \<Rightarrow> string \<Rightarrow> string \<Rightarrow> ('w env, bool) state" where
  "write_file os path content = write_open_file os path content CreateTruncate"

definition write_kernel_control_file :: "'w os \<Rightarrow> string \<Rightarrow> string \<Rightarrow> ('w env, bool) state" where
  "write_kernel_control_file os path content = write_open_file os path content ControlFile"

definition write_cgroup_tasks :: "'w os \<Rightarrow> string \<Rightarrow> int \<Rightarrow> ('w env, bool) state" where
  "write_cgroup_tasks os path tid = write_kernel_control_file os (path @ ''/tasks'') (to_string tid)"

subsection \<open>Process and thread identifiers\<close>

definition is_valid_pid :: "int \<Rightarrow> bool" where
  "is_valid_pid pid \<longleftrightarrow> 0 < pid \<and> pid \<le> INT_MAX"

definition is_valid_tid :: "int \<Rightarrow> bool" where
  "is_valid_tid tid \<longleftrightarrow> 0 < tid \<and> tid \<le> INT_MAX"

definition is_all_digits :: "string \<Rightarrow> bool" where
  "is_all_digits s \<longleftrightarrow> c_str s \<noteq> [] \<and> list_all is_digit (c_str s)"

text \<open>A directory entry of \<open>/proc\<close> read as an identifier, as every enumeration does it.\<close>

definition parse_id_entry :: "string \<Rightarrow> int option" where
  "parse_id_entry name =
     (if \<not> is_all_digits name then None
      else case strtol name of None \<Rightarrow> None
        | Some (v, rest, erange) \<Rightarrow> if \<not> erange \<and> rest = [] \<and> is_valid_pid v then Some v else None)"

definition list_pids :: "'w os \<Rightarrow> ('w env, int list) state" where
  "list_pids os = do {
     dir \<leftarrow> sys (os_opendir os ''/proc'');
     State_Monad.return (case dir of None \<Rightarrow> []
       | Some d \<Rightarrow> List.map_filter (\<lambda>en. parse_id_entry (d_name en)) (ds_entries d))
   }"

definition list_tids :: "'w os \<Rightarrow> int \<Rightarrow> ('w env, int list) state" where
  "list_tids os pid =
     (if \<not> is_valid_pid pid then State_Monad.return []
      else do {
        dir \<leftarrow> sys (os_opendir os (''/proc/'' @ to_string pid @ ''/task''));
        State_Monad.return (case dir of None \<Rightarrow> []
          | Some d \<Rightarrow> sort (List.map_filter (\<lambda>en. parse_id_entry (d_name en)) (ds_entries d)))
      })"

definition parse_start_time_from_stat :: "string \<Rightarrow> nat" where
  "parse_start_time_from_stat stat =
     (case after_last (CHR '')'') stat of None \<Rightarrow> 0
      | Some r \<Rightarrow>
          if length r \<le> 1 then 0
          else (let fields = getlines (CHR '' '') (drop 1 r)
                in if length fields \<le> 19 \<or> fields ! 19 = [] then 0
                   else case strtoull (fields ! 19) of None \<Rightarrow> 0
                     | Some (v, rest, erange) \<Rightarrow> if \<not> erange \<and> rest = [] then v else 0))"

definition get_process_start_time :: "'w os \<Rightarrow> int \<Rightarrow> ('w env, nat) state" where
  "get_process_start_time os pid =
     (if \<not> is_valid_pid pid then State_Monad.return 0
      else do {
        s \<leftarrow> read_file os (''/proc/'' @ to_string pid @ ''/stat'');
        State_Monad.return (parse_start_time_from_stat s) })"

definition task_path :: "int \<Rightarrow> int \<Rightarrow> string \<Rightarrow> string" where
  "task_path pid tid file = ''/proc/'' @ to_string pid @ ''/task/'' @ to_string tid @ ''/'' @ file"

definition get_thread_start_time :: "'w os \<Rightarrow> int \<Rightarrow> int \<Rightarrow> ('w env, nat) state" where
  "get_thread_start_time os pid tid =
     (if \<not> is_valid_pid pid \<or> \<not> is_valid_tid tid then State_Monad.return 0
      else do {
        s \<leftarrow> read_file os (task_path pid tid ''stat'');
        State_Monad.return (parse_start_time_from_stat s) })"

fun tgid_matches :: "int \<Rightarrow> string list \<Rightarrow> bool" where
  "tgid_matches pid [] = False"
| "tgid_matches pid (line # ls) =
     (if \<not> str_starts line ''Tgid:'' then tgid_matches pid ls
      else case strtol (drop 5 line) of None \<Rightarrow> False
        | Some (tgid, _, erange) \<Rightarrow> \<not> erange \<and> is_valid_pid tgid \<and> tgid = pid)"

definition is_thread_in_process :: "'w os \<Rightarrow> int \<Rightarrow> int \<Rightarrow> ('w env, bool) state" where
  "is_thread_in_process os pid tid =
     (if \<not> is_valid_pid pid \<or> \<not> is_valid_tid tid then State_Monad.return False
      else do {
        status \<leftarrow> read_file os (task_path pid tid ''status'');
        State_Monad.return (status \<noteq> [] \<and> tgid_matches pid (getlines NL status)) })"

text \<open>
  The identity test the callers write out with three calls joined by \<open>&&\<close>: both start
  times still match and the thread still belongs to the process.
\<close>

definition identity_matches :: "'w os \<Rightarrow> int \<Rightarrow> int \<Rightarrow> nat \<Rightarrow> nat \<Rightarrow> ('w env, bool) state" where
  "identity_matches os pid tid process_start thread_start = do {
     p \<leftarrow> get_process_start_time os pid;
     if p \<noteq> process_start then State_Monad.return False
     else do {
       t \<leftarrow> get_thread_start_time os pid tid;
       if t \<noteq> thread_start then State_Monad.return False
       else is_thread_in_process os pid tid
     }
   }"

subsection \<open>Names\<close>

definition get_process_cmdline :: "'w os \<Rightarrow> int \<Rightarrow> ('w env, string) state" where
  "get_process_cmdline os pid = do {
     cmdline \<leftarrow> read_file os (''/proc/'' @ to_string pid @ ''/cmdline'');
     State_Monad.return (if cmdline \<noteq> [] then takeWhile (\<lambda>c. c \<noteq> NUL) cmdline else cmdline) }"

definition dead_name :: string where "dead_name = ''[dead]''"

definition get_thread_comm :: "'w os \<Rightarrow> int \<Rightarrow> int \<Rightarrow> ('w env, string) state" where
  "get_thread_comm os pid tid = do {
     comm \<leftarrow> read_file os (task_path pid tid ''comm'');
     State_Monad.return (if comm = [] then dead_name else comm) }"

definition parse_process_name_from_status :: "string \<Rightarrow> string" where
  "parse_process_name_from_status status =
     (case str_find status ''Name:'' of None \<Rightarrow> dead_name
      | Some start \<Rightarrow>
          (case split_at NL (dropWhile (\<lambda>c. c = CHR '' '' \<or> c = TAB) (drop (start + 5) status)) of
             None \<Rightarrow> dead_name | Some (name, _) \<Rightarrow> name))"

definition get_process_name_from_status :: "'w os \<Rightarrow> int \<Rightarrow> ('w env, string) state" where
  "get_process_name_from_status os pid = do {
     s \<leftarrow> read_file os (''/proc/'' @ to_string pid @ ''/status'');
     State_Monad.return (parse_process_name_from_status s) }"

definition get_thread_name :: "'w os \<Rightarrow> int \<Rightarrow> int \<Rightarrow> ('w env, string) state" where
  "get_thread_name os pid tid = get_thread_comm os pid tid"

subsection \<open>The file cache is bounded and never holds a kernel file\<close>

definition file_cache_ok :: "FileCache \<Rightarrow> bool" where
  "file_cache_ok c \<longleftrightarrow> umap_ok (fc_entries c) \<and> distinct (fc_lru c) \<and>
     set (fc_lru c) = fst ` set (fc_entries c) \<and> length (fc_entries c) \<le> kMaxCacheSize"

definition no_kernel_file_cached :: "FileCache \<Rightarrow> bool" where
  "no_kernel_file_cached c \<longleftrightarrow> (\<forall>p \<in> fst ` set (fc_entries c). \<not> is_dynamic_kernel_path p)"

definition fcache_inv :: "'w env \<Rightarrow> bool" where
  "fcache_inv e \<longleftrightarrow> file_cache_ok (fcache e) \<and> no_kernel_file_cached (fcache e)"

lemma erase_file_cache_entry_ok:
  assumes "file_cache_ok c"
  shows "file_cache_ok (erase_file_cache_entry path c)"
proof -
  have "length (AList.delete path (fc_entries c)) \<le> length (fc_entries c)"
    by (rule AList.length_delete_le)
  with assms show ?thesis
    by (auto simp: file_cache_ok_def erase_file_cache_entry_def umap_keys_delete)
qed

lemma touch_file_cache_entry_ok:
  "file_cache_ok c \<Longrightarrow> map_of (fc_entries c) path \<noteq> None \<Longrightarrow>
   file_cache_ok (touch_file_cache_entry path c)"
  by (auto simp: file_cache_ok_def touch_file_cache_entry_def map_of_eq_None_iff)

lemma erase_shrinks:
  assumes "file_cache_ok c" "fc_lru c \<noteq> []"
  shows "length (fc_entries (erase_file_cache_entry (hd (fc_lru c)) c)) < length (fc_entries c)"
  using assms hd_in_set [of "fc_lru c"]
  by (simp add: erase_file_cache_entry_def file_cache_ok_def umap_length_delete_mem)

lemma file_cache_insert_ok:
  assumes ok: "file_cache_ok c"
  shows "file_cache_ok (file_cache_insert now path content c)"
proof -
  let ?full = "map_of (fc_entries c) path = None \<and> kMaxCacheSize \<le> length (fc_entries c) \<and> fc_lru c \<noteq> []"
  define c1 where "c1 = (if ?full then erase_file_cache_entry (hd (fc_lru c)) c else c)"
  have ok1: "file_cache_ok c1" using ok erase_file_cache_entry_ok by (simp add: c1_def)
  have room: "map_of (fc_entries c1) path = None \<Longrightarrow> length (fc_entries c1) < kMaxCacheSize"
  proof (cases ?full)
    case True
    with erase_shrinks [OF ok] ok show ?thesis by (simp add: c1_def file_cache_ok_def)
  next
    case False
    assume "map_of (fc_entries c1) path = None"
    moreover have "fc_lru c = [] \<Longrightarrow> fc_entries c = []" using ok by (simp add: file_cache_ok_def)
    ultimately show ?thesis using False by (auto simp: c1_def kMaxCacheSize_def)
  qed
  have len: "length (AList.update path (content, now) (fc_entries c1)) \<le> kMaxCacheSize"
  proof (cases "map_of (fc_entries c1) path = None")
    case True
    with room umap_length_update_le [of path "(content, now)" "fc_entries c1"] show ?thesis by simp
  next
    case False
    then have "path \<in> fst ` set (fc_entries c1)" using umap_mem_iff by metis
    then show ?thesis using ok1 by (simp add: umap_length_update_mem file_cache_ok_def)
  qed
  have "file_cache_insert now path content c =
     touch_file_cache_entry path (c1\<lparr>fc_entries := AList.update path (content, now) (fc_entries c1)\<rparr>)"
    by (simp add: file_cache_insert_def c1_def Let_def)
  then show ?thesis
    using ok1 len by (auto simp: file_cache_ok_def touch_file_cache_entry_def umap_keys_update)
qed

lemma fc_entries_touch [simp]: "fc_entries (touch_file_cache_entry path c) = fc_entries c"
  by (simp add: touch_file_cache_entry_def)

lemma fc_entries_erase [simp]:
  "fc_entries (erase_file_cache_entry path c) = AList.delete path (fc_entries c)"
  by (simp add: erase_file_cache_entry_def)

lemma fc_entries_insert:
  "map_of (fc_entries (file_cache_insert now path content c)) path = Some (content, now)"
  "path' \<noteq> path \<Longrightarrow> map_of (fc_entries (file_cache_insert now path content c)) path' = Some x \<Longrightarrow>
     map_of (fc_entries c) path' = Some x"
  "fst ` set (fc_entries (file_cache_insert now path content c)) \<subseteq> insert path (fst ` set (fc_entries c))"
  by (auto simp: file_cache_insert_def Let_def umap_keys_update umap_keys_delete split: if_splits)

lemma file_cache_lookup_SomeD:
  "file_cache_lookup ttl now path c = Some content \<Longrightarrow>
     \<exists>t. map_of (fc_entries c) path = Some (content, t) \<and> elapsed_ms t now < ttl"
  by (auto simp: file_cache_lookup_def split: option.splits if_splits)

interpretation file_cache: ttl_cache "\<lambda>c. map_of (fc_entries c)" "file_cache_lookup ttl"
  file_cache_insert erase_file_cache_entry file_cache_ok "\<lambda>now t. elapsed_ms t now < ttl" for ttl
  by unfold_locales
    (auto simp: fc_entries_insert(1) dest: fc_entries_insert(2) file_cache_lookup_SomeD
      intro: file_cache_insert_ok erase_file_cache_entry_ok split: if_splits)

lemma no_kernel_file_cached_insert:
  "no_kernel_file_cached c \<Longrightarrow> \<not> is_dynamic_kernel_path path \<Longrightarrow>
   no_kernel_file_cached (file_cache_insert now path content c)"
  using fc_entries_insert(3) [of now path content c]
  by (fastforce simp: no_kernel_file_cached_def)

lemma no_kernel_file_cached_touch [simp]:
  "no_kernel_file_cached (touch_file_cache_entry path c) = no_kernel_file_cached c"
  by (simp add: no_kernel_file_cached_def)

lemma fcache_inv_sys [hoare_rules]: "inv_kept fcache_inv (sys m)"
  by (auto simp: inv_kept_def hoare_def fcache_inv_def split: prod.splits)

lemma read_file_fcache_inv [hoare_rules]: "inv_kept fcache_inv (read_file os path)"
proof (rule inv_keptI)
  fix e c e'
  assume inv: "fcache_inv e" and run: "run_state (read_file os path) e = (c, e')"
  obtain now w where now: "run_state (os_now os) (world e) = (now, w)" by fastforce
  obtain data w2 where data: "run_state (os_read_all os path) w = (data, w2)" by fastforce
  show "fcache_inv e'"
  proof (cases "\<not> is_dynamic_kernel_path path \<and>
      file_cache_lookup (file_ttl e) now path (fcache e) \<noteq> None")
    case True
    then obtain t where "map_of (fc_entries (fcache e)) path = Some t"
      by (auto simp: file_cache_lookup_def split: option.splits)
    with True run now inv show ?thesis
      by (auto simp: read_file_def fcache_inv_def intro!: touch_file_cache_entry_ok)
  next
    case False
    with run now data inv show ?thesis
      by (auto simp: read_file_def fcache_inv_def Let_def file_cache_insert_ok
          no_kernel_file_cached_insert split: option.splits if_splits)
  qed
qed

lemma invalidate_fcache_inv [hoare_rules]: "inv_kept fcache_inv (invalidate_file_cache path)"
  unfolding invalidate_file_cache_def
  by (rule inv_kept_modify)
    (auto simp: fcache_inv_def erase_file_cache_entry_ok no_kernel_file_cached_def
      AList.delete_eq)

lemma write_open_file_fcache_inv [hoare_rules]: "inv_kept fcache_inv (write_open_file os path content mode)"
  unfolding write_open_file_def by (intro hoare_rules)

subsection \<open>Reading a kernel file is never served from a cache\<close>

lemma read_file_dynamic:
  assumes "is_dynamic_kernel_path path"
  shows "run_state (read_file os path) e =
     (case run_state (os_now os) (world e) of (_, w) \<Rightarrow>
      case run_state (os_read_all os path) w of (data, w') \<Rightarrow>
        (case data of None \<Rightarrow> [] | Some raw \<Rightarrow> strip_trailing NL raw, e\<lparr>world := w'\<rparr>))"
  using assms by (simp add: read_file_def split: prod.splits option.splits)

lemma dynamic_paths [simp]:
  "is_dynamic_kernel_path (''/proc/'' @ s)"
  "is_dynamic_kernel_path (task_path pid tid file)"
  "is_dynamic_kernel_path (''/dev/cpuset/'' @ s)"
  "is_dynamic_kernel_path (''/dev/cpuctl/'' @ s)"
  by (simp_all add: is_dynamic_kernel_path_def str_starts_iff task_path_def)

subsection \<open>The start time of a thread\<close>

text \<open>
  The kernel prints \<open>pid (comm) field3 field4 ...\<close>, and \<open>comm\<close> is chosen by the process:
  it may hold spaces and parentheses. Whatever it holds, the parser reads field 22.
\<close>

lemma getlines_join:
  "list_all (\<lambda>f. d \<notin> set f \<and> f \<noteq> []) fs \<Longrightarrow> getlines d (concat (map (\<lambda>f. f @ [d]) fs) @ r) = fs @ getlines d r"
  by (induction fs) (simp_all add: getlines_append)

lemma parse_start_time_any_comm:
  assumes fields: "length fs = 19" "list_all (\<lambda>f. CHR '' '' \<notin> set f \<and> CHR '')'' \<notin> set f \<and> f \<noteq> []) fs"
    and tail: "CHR '')'' \<notin> set rest" "rest = [] \<or> hd rest = CHR '' ''"
    and start: "int start < UINT64_MOD"
  shows "parse_start_time_from_stat
     (pid @ '' ('' @ comm @ '') '' @ concat (map (\<lambda>f. f @ '' '') fs) @ show_nat start @ rest) = start"
proof -
  let ?suffix = "concat (map (\<lambda>f. f @ '' '') fs) @ show_nat start @ rest"
  have digits: "CHR '' '' \<notin> set (show_nat start)" "CHR '')'' \<notin> set (show_nat start)"
    using show_nat_digits [of start] by auto
  have paren: "CHR '')'' \<notin> set (CHR '' '' # ?suffix)"
    using fields tail digits by (auto simp: list_all_iff)
  have "after_last (CHR '')'') ((pid @ '' ('' @ comm) @ CHR '')'' # (CHR '' '' # ?suffix)) = Some (CHR '' '' # ?suffix)"
    by (rule after_last_append [OF paren])
  then have last: "after_last (CHR '')'') (pid @ '' ('' @ comm @ '') '' @ ?suffix) = Some (CHR '' '' # ?suffix)"
    by simp
  have head: "getlines (CHR '' '') (show_nat start @ rest) = show_nat start # drop 1 (getlines (CHR '' '') (show_nat start @ rest))"
  proof (cases rest)
    case Nil
    with digits show ?thesis by (simp add: getlines_single)
  next
    case (Cons c cs)
    with tail digits show ?thesis by (simp add: getlines_append)
  qed
  have "list_all (\<lambda>f. CHR '' '' \<notin> set f \<and> f \<noteq> []) fs" using fields by (simp add: list_all_iff)
  then have split: "getlines (CHR '' '') ?suffix = fs @ show_nat start # drop 1 (getlines (CHR '' '') (show_nat start @ rest))"
    using head getlines_join by metis
  have "length ?suffix > 0" by simp
  with last split fields strtoull_show_nat [OF start] show ?thesis
    by (simp add: parse_start_time_from_stat_def nth_append)
qed

subsection \<open>Read-only operations leave the effect log alone\<close>

definition effects :: "('w \<times> effect list) env \<Rightarrow> effect list" where
  "effects e = snd (world e)"

lemma keeps_effects_sys [keeps_rules]: "keeps effects (sys (quiet m))"
  by (auto simp: keeps_def effects_def quiet_def split: prod.splits)

lemma keeps_effects_modify [keeps_rules]:
  "(\<And>e. world (g e) = world e) \<Longrightarrow> keeps effects (modify g)"
  by (simp add: keeps_def effects_def)

lemma keeps_effects_read_file [keeps_rules]: "keeps effects (read_file (traced os) path)"
  unfolding read_file_def traced_quiet_calls
  by (intro keeps_rules) (simp_all add: effects_def)

lemma keeps_effects_exists [keeps_rules]:
  "keeps effects (file_exists (traced os) path)" "keeps effects (dir_exists (traced os) path)"
  unfolding file_exists_def dir_exists_def traced_quiet_calls by (intro keeps_rules)+

lemma keeps_effects_identity [keeps_rules]:
  "keeps effects (get_process_start_time (traced os) pid)"
  "keeps effects (get_thread_start_time (traced os) pid tid)"
  "keeps effects (is_thread_in_process (traced os) pid tid)"
  "keeps effects (identity_matches (traced os) pid tid ps ts)"
  unfolding get_process_start_time_def get_thread_start_time_def is_thread_in_process_def
    identity_matches_def
  by (intro keeps_rules)+

subsection \<open>What the writes emit\<close>

lemma emits_sys_logged [emits_rules]: "P e \<Longrightarrow> emits effects P (sys (logged e m))"
  by (auto simp: emits_def effects_def logged_def split: prod.splits)

lemma emits_write_all:
  "\<exists>es. snd (snd (write_all (traced os) fd s w)) = snd w @ es \<and>
     list_all (\<lambda>e. \<exists>r. e = EWrite fd r \<and> suffix r s) es"
proof (induction s arbitrary: w rule: length_induct)
  case (1 s)
  show ?case
  proof (cases "s = []")
    case True
    then show ?thesis by (simp add: write_all.simps)
  next
    case False
    obtain ret w1 where wr: "run_state (os_write os fd s) (fst w) = (ret, w1)" by (meson surj_pair)
    have step: "run_state (os_write (traced os) fd s) w = (ret, (w1, snd w @ [EWrite fd s]))"
      by (simp add: logged_def wr)
    show ?thesis
    proof (cases "ret \<le> 0")
      case True
      with False step show ?thesis by (subst write_all.simps) (auto simp del: traced_logged_calls)
    next
      case more: False
      have less: "length (drop (nat ret) s) < length s" using False more by simp
      obtain es where es: "snd (snd (write_all (traced os) fd (drop (nat ret) s) (w1, snd w @ [EWrite fd s])))
          = (snd w @ [EWrite fd s]) @ es"
        "list_all (\<lambda>e. \<exists>r. e = EWrite fd r \<and> suffix r (drop (nat ret) s)) es"
        using 1 [rule_format, OF less, of "(w1, snd w @ [EWrite fd s])"] by auto
      have "list_all (\<lambda>e. \<exists>r. e = EWrite fd r \<and> suffix r s) (EWrite fd s # es)"
        using es(2) suffix_drop [of "nat ret" s]
        by (auto simp: list_all_iff intro: suffix_order.trans)
      moreover have "snd (snd (write_all (traced os) fd s w)) = snd w @ (EWrite fd s # es)"
        using False more step es(1) by (subst write_all.simps) (simp del: traced_logged_calls)
      ultimately show ?thesis by blast
    qed
  qed
qed

lemma emits_write_open_file:
  assumes "P (EOpenWrite path mode)" "\<And>fd r. suffix r content \<Longrightarrow> P (EWrite fd r)"
  shows "emits effects P (write_open_file (traced os) path content mode)"
proof -
  have loop: "emits effects P (sys (State (write_all (traced os) fd content)))" for fd
    unfolding emits_def
  proof
    fix e :: "('a \<times> effect list) env"
    obtain es where "snd (snd (write_all (traced os) fd content (world e))) = snd (world e) @ es"
      "list_all (\<lambda>e. \<exists>r. e = EWrite fd r \<and> suffix r content) es"
      using emits_write_all by blast
    moreover from this(2) have "list_all P es" using assms(2) by (auto simp: list_all_iff)
    ultimately show "\<exists>es. effects (snd (run_state (sys (State (write_all (traced os) fd content))) e)) =
        effects e @ es \<and> list_all P es"
      by (auto simp: effects_def split: prod.splits)
  qed
  have close: "emits effects P (sys (os_close (traced os) fd))" for fd
    by (simp add: emits_keeps keeps_effects_sys)
  have inval: "emits effects P (invalidate_file_cache path)"
    by (simp add: invalidate_file_cache_def emits_modify effects_def)
  show ?thesis
    unfolding write_open_file_def traced_logged_calls
    by (intro emits_rules assms(1) loop close inval)
qed

end
