(* ===== verification/Cpu_Mask.thy ===== *)
theory Cpu_Mask
  imports File_Utils
begin

section \<open>CPU masks (utils/cpu\_mask.hpp)\<close>

text \<open>
  A \<open>cpu_set_t\<close> is a word of \<open>CPU_SETSIZE\<close> = 1024 bits (the value on every 64-bit ABI):
  \<open>CPU_ZERO\<close> is 0, \<open>CPU_SET\<close> is \<open>set_bit\<close>, \<open>CPU_ISSET\<close> is \<open>bit\<close> and \<open>CPU_EQUAL\<close> is equality.
\<close>

definition CPU_SETSIZE :: nat where "CPU_SETSIZE = 1024"

subsection \<open>Sets and vectors\<close>

definition from_vector :: "int list \<Rightarrow> cpu_set_t" where
  "from_vector cpus =
     fold (\<lambda>cpu s. if 0 \<le> cpu \<and> cpu < int CPU_SETSIZE then set_bit (nat cpu) s else s) cpus 0"

definition to_vector :: "cpu_set_t \<Rightarrow> int list" where
  "to_vector s = map int (filter (bit s) [0..<CPU_SETSIZE])"

subsection \<open>The list format of the cpuset files\<close>

text \<open>
  The loop of \<open>to_string\<close> after its first element: \<open>prev\<close> is \<open>sorted[i - 1]\<close> and the list
  is \<open>sorted[i..]\<close>. A number that continues a run is printed only where the run ends.
\<close>

fun format_tail :: "int \<Rightarrow> int list \<Rightarrow> string" where
  "format_tail prev [] = []"
| "format_tail prev (x # xs) =
     (if x = prev + 1
      then (if xs \<noteq> [] \<and> hd xs = x + 1 then format_tail x xs
            else ''-'' @ to_string x @ format_tail x xs)
      else '','' @ to_string x @ format_tail x xs)"

definition cpus_to_string :: "int list \<Rightarrow> string" where
  "cpus_to_string cpus = (case sort cpus of [] \<Rightarrow> [] | x # xs \<Rightarrow> to_string x @ format_tail x xs)"

definition cpu_set_to_string :: "cpu_set_t \<Rightarrow> string" where
  "cpu_set_to_string s = cpus_to_string (to_vector s)"

text \<open>
  Reading the value of a \<open>Cpus_allowed_list\<close> line. One step handles the text up to the
  next comma; \<open>None\<close> stands for the paths that return an empty vector (a number out of
  range, or an exception of \<open>std::stoi\<close>).
\<close>

definition parse_cpu_item :: "string \<Rightarrow> int list option" where
  "parse_cpu_item item =
     (case split_at (CHR ''-'') item of
        Some (a, b) \<Rightarrow>
          if a \<noteq> [] then
            (case (stoi a, stoi b) of
               (Some lo, Some hi) \<Rightarrow>
                 if lo < 0 \<or> hi < lo \<or> int CPU_SETSIZE \<le> hi then None else Some [lo..hi]
             | _ \<Rightarrow> None)
          else (case stoi item of None \<Rightarrow> None
                | Some c \<Rightarrow> if c < 0 \<or> int CPU_SETSIZE \<le> c then None else Some [c])
      | None \<Rightarrow> (case stoi item of None \<Rightarrow> None
                | Some c \<Rightarrow> if c < 0 \<or> int CPU_SETSIZE \<le> c then None else Some [c]))"

definition skip_blanks :: "string \<Rightarrow> string" where
  "skip_blanks s = dropWhile (\<lambda>c. c = CHR '' '' \<or> c = TAB) s"

function parse_cpu_list :: "string \<Rightarrow> int list option" where
  "parse_cpu_list value =
     (let s = skip_blanks value
      in if s = [] then Some []
         else (case split_at (CHR '','') s of
                 None \<Rightarrow> parse_cpu_item s
               | Some (item, rest) \<Rightarrow>
                   (case parse_cpu_item item of None \<Rightarrow> None
                    | Some cpus \<Rightarrow> map_option (\<lambda>more. cpus @ more) (parse_cpu_list rest))))"
  by pat_completeness auto
termination
proof (relation "measure length", goal_cases)
  case (2 v s p item rest cpus)
  then have "s = item @ CHR '','' # rest" using split_at_SomeD by metis
  then have "length rest < length s" by simp
  also have "length s \<le> length v" using 2 by (simp add: skip_blanks_def length_dropWhile_le)
  finally show ?case by simp
qed simp

declare parse_cpu_list.simps [simp del]

fun find_cpus_allowed :: "string list \<Rightarrow> int list" where
  "find_cpus_allowed [] = []"
| "find_cpus_allowed (line # ls) =
     (if str_starts line ''Cpus_allowed_list'' then
        (case split_at (CHR '':'') line of None \<Rightarrow> find_cpus_allowed ls
         | Some (_, value) \<Rightarrow> (case parse_cpu_list value of None \<Rightarrow> [] | Some cpus \<Rightarrow> cpus))
      else find_cpus_allowed ls)"

subsection \<open>Affinity of a thread\<close>

definition set_affinity_set :: "'w os \<Rightarrow> int \<Rightarrow> cpu_set_t \<Rightarrow> ('w env, bool) state" where
  "set_affinity_set os tid s = sys (os_sched_setaffinity os tid s)"

definition set_affinity_cpus :: "'w os \<Rightarrow> int \<Rightarrow> int list \<Rightarrow> ('w env, bool) state" where
  "set_affinity_cpus os tid cpus =
     (if cpus = [] then State_Monad.return True else set_affinity_set os tid (from_vector cpus))"

definition get_affinity_from_status :: "'w os \<Rightarrow> int \<Rightarrow> ('w env, int list) state" where
  "get_affinity_from_status os tid = do {
     r \<leftarrow> sys (os_sched_getaffinity os tid);
     (case r of Some s \<Rightarrow> State_Monad.return (to_vector s)
      | None \<Rightarrow> do {
          content \<leftarrow> read_file os (''/proc/'' @ to_string tid @ ''/status'');
          State_Monad.return (if content = [] then [] else find_cpus_allowed (getlines NL content)) })
   }"

definition is_affinity_changed :: "'w os \<Rightarrow> int \<Rightarrow> int list \<Rightarrow> ('w env, bool) state" where
  "is_affinity_changed os tid expected =
     (if expected = [] then State_Monad.return True
      else do {
        r \<leftarrow> sys (os_sched_getaffinity os tid);
        (case r of Some current \<Rightarrow> State_Monad.return (current \<noteq> from_vector expected)
         | None \<Rightarrow> do {
             fallback \<leftarrow> get_affinity_from_status os tid;
             State_Monad.return (if fallback = [] then True
               else from_vector fallback \<noteq> from_vector expected) })
      })"

subsection \<open>The CPUs of the device\<close>

text \<open>
  \<open>fstatat\<close> on a directory entry of unknown type is a \<open>stat\<close> of the joined path here.
\<close>

definition parse_cpu_entry :: "string \<Rightarrow> int option" where
  "parse_cpu_entry name =
     (case strtol (drop 3 name) of None \<Rightarrow> None
      | Some (v, rest, erange) \<Rightarrow>
          if \<not> erange \<and> rest = [] \<and> 0 \<le> v \<and> v < int CPU_SETSIZE then Some v else None)"

fun collect_cpus :: "'w os \<Rightarrow> dirent list \<Rightarrow> ('w env, int list) state" where
  "collect_cpus os [] = State_Monad.return []"
| "collect_cpus os (en # ens) =
     (let name = c_str (d_name en)
      in if length name < 4 \<or> \<not> str_starts name ''cpu'' \<or> \<not> list_all is_digit (drop 3 name)
         then collect_cpus os ens
         else do {
           is_dir \<leftarrow> (case d_type en of DT_DIR \<Rightarrow> State_Monad.return True
                     | DT_OTHER \<Rightarrow> State_Monad.return False
                     | DT_UNKNOWN \<Rightarrow> dir_exists os (''/sys/devices/system/cpu/'' @ name));
           rest \<leftarrow> collect_cpus os ens;
           State_Monad.return (if is_dir then (case parse_cpu_entry name of None \<Rightarrow> rest | Some c \<Rightarrow> c # rest)
                               else rest)
         })"

definition detect_all_cpus :: "'w os \<Rightarrow> ('w env, int list) state" where
  "detect_all_cpus os = do {
     dir \<leftarrow> sys (os_opendir os ''/sys/devices/system/cpu'');
     (case dir of None \<Rightarrow> State_Monad.return []
      | Some d \<Rightarrow> do {
          cpus \<leftarrow> collect_cpus os (ds_entries d);
          State_Monad.return (sort cpus) })
   }"

definition get_all_cpus_string :: "'w os \<Rightarrow> ('w env, string) state" where
  "get_all_cpus_string os = do {
     cpus \<leftarrow> detect_all_cpus os;
     if cpus = [] then do {
       r \<leftarrow> sys (os_sched_getaffinity os 0);
       State_Monad.return (cpus_to_string (case r of None \<Rightarrow> [] | Some s \<Rightarrow> to_vector s))
     }
     else State_Monad.return (cpus_to_string cpus)
   }"

subsection \<open>Sets and vectors agree\<close>

definition cpu_in_range :: "int \<Rightarrow> bool" where
  "cpu_in_range c \<longleftrightarrow> 0 \<le> c \<and> c < int CPU_SETSIZE"

lemma bit_set_cpu:
  fixes w :: cpu_set_t
  assumes "n < CPU_SETSIZE"
  shows "bit (set_bit n w) i \<longleftrightarrow> bit w i \<or> i = n"
  using assms by (auto simp: bit_set_bit_iff CPU_SETSIZE_def)

lemma bit_from_vector_aux:
  "bit (fold (\<lambda>cpu s. if 0 \<le> cpu \<and> cpu < int CPU_SETSIZE then set_bit (nat cpu) s else s) cpus (w::cpu_set_t)) i
     \<longleftrightarrow> bit w i \<or> (i < CPU_SETSIZE \<and> int i \<in> set cpus)"
proof (induction cpus arbitrary: w)
  case (Cons c cpus)
  show ?case
  proof (cases "0 \<le> c \<and> c < int CPU_SETSIZE")
    case True
    then have n: "nat c < CPU_SETSIZE" by linarith
    from True have eq: "i = nat c \<longleftrightarrow> int i = c" by linarith
    with n have mem: "int i = c \<Longrightarrow> i < CPU_SETSIZE" by simp
    show ?thesis
      unfolding fold_Cons comp_apply Cons.IH if_P [OF True] bit_set_cpu [OF n] eq list.set insert_iff
      using mem by blast
  next
    case False
    then have "int i = c \<Longrightarrow> \<not> i < CPU_SETSIZE" by linarith
    then show ?thesis
      unfolding fold_Cons comp_apply Cons.IH if_not_P [OF False] list.set insert_iff by blast
  qed
qed simp

lemma bit_from_vector: "bit (from_vector cpus) i \<longleftrightarrow> i < CPU_SETSIZE \<and> int i \<in> set cpus"
  unfolding from_vector_def bit_from_vector_aux by simp

lemma set_to_vector: "set (to_vector s) = {c. cpu_in_range c \<and> bit s (nat c)}"
  by (auto simp: to_vector_def cpu_in_range_def image_iff) (metis nat_0_le nat_int nat_less_iff)

lemma sorted_map_int: "sorted (map int ns) \<longleftrightarrow> sorted ns"
  by (simp add: sorted_wrt_map)

lemma to_vector_sorted_distinct: "sorted (to_vector s)" "distinct (to_vector s)"
  by (simp_all add: to_vector_def sorted_map_int distinct_map inj_on_def sorted_wrt_filter)

lemma to_vector_from_vector:
  "to_vector (from_vector cpus) = sorted_list_of_set {c \<in> set cpus. cpu_in_range c}"
proof -
  have "set (to_vector (from_vector cpus)) = {c \<in> set cpus. cpu_in_range c}"
    by (auto simp: set_to_vector bit_from_vector cpu_in_range_def)
  then show ?thesis
    by (metis to_vector_sorted_distinct sorted_list_of_set.idem_if_sorted_distinct)
qed

lemma from_vector_to_vector: "from_vector (to_vector s) = s"
proof (rule bit_word_eqI)
  fix n
  assume "n < LENGTH(1024)"
  then show "bit (from_vector (to_vector s)) n = bit s n"
    by (simp add: bit_from_vector set_to_vector cpu_in_range_def CPU_SETSIZE_def)
qed

lemma from_vector_eq_iff:
  "from_vector a = from_vector b \<longleftrightarrow> {c \<in> set a. cpu_in_range c} = {c \<in> set b. cpu_in_range c}"
proof
  assume "from_vector a = from_vector b"
  then have "to_vector (from_vector a) = to_vector (from_vector b)" by simp
  then have "set (to_vector (from_vector a)) = set (to_vector (from_vector b))" by simp
  then show "{c \<in> set a. cpu_in_range c} = {c \<in> set b. cpu_in_range c}"
    by (simp add: to_vector_from_vector)
next
  assume "{c \<in> set a. cpu_in_range c} = {c \<in> set b. cpu_in_range c}"
  then have "to_vector (from_vector a) = to_vector (from_vector b)"
    by (simp add: to_vector_from_vector)
  then show "from_vector a = from_vector b" by (metis from_vector_to_vector)
qed

subsection \<open>Printed masks read back\<close>

text \<open>A list of CPUs as the configuration parser leaves it: ascending, without duplicates, in range.\<close>

definition cpu_list_ok :: "int list \<Rightarrow> bool" where
  "cpu_list_ok cpus \<longleftrightarrow> sorted_wrt (<) cpus \<and> list_all cpu_in_range cpus"

lemma to_string_no_sep:
  assumes "0 \<le> i"
  shows "CHR '','' \<notin> set (to_string i)" "CHR ''-'' \<notin> set (to_string i)"
  using show_nat_digits [of "nat i"] assms by (auto simp: to_string_nonneg)

lemma skip_blanks_to_string: "0 \<le> i \<Longrightarrow> skip_blanks (to_string i @ t) = to_string i @ t"
proof -
  assume i: "0 \<le> i"
  obtain d ds where "show_nat (nat i) = d # ds" by (cases "show_nat (nat i)") auto
  with show_nat_digits [of "nat i"] i show ?thesis
    by (auto simp: skip_blanks_def to_string_nonneg)
qed

lemma stoi_cpu: "cpu_in_range c \<Longrightarrow> stoi (to_string c) = Some c"
  using stoi_show_nat [of "[]" "nat c"]
  by (simp add: cpu_in_range_def CPU_SETSIZE_def to_string_nonneg no_digit_head_def INT_MAX_def)

lemma parse_cpu_item_single: "cpu_in_range c \<Longrightarrow> parse_cpu_item (to_string c) = Some [c]"
  using stoi_cpu [of c] to_string_no_sep(2) [of c]
  by (simp add: parse_cpu_item_def split_at_None cpu_in_range_def)

lemma parse_cpu_item_range:
  assumes "cpu_in_range a" "cpu_in_range b" "a \<le> b"
  shows "parse_cpu_item (to_string a @ CHR ''-'' # to_string b) = Some [a..b]"
  using assms stoi_cpu [of a] stoi_cpu [of b] to_string_no_sep(2) [of a]
  by (simp add: parse_cpu_item_def split_at_append cpu_in_range_def)

lemma parse_cpu_list_last:
  assumes "skip_blanks item = item" "item \<noteq> []" "CHR '','' \<notin> set item"
  shows "parse_cpu_list item = parse_cpu_item item"
  using assms by (subst parse_cpu_list.simps) (simp add: split_at_None)

lemma parse_cpu_list_more:
  assumes "skip_blanks (item @ CHR '','' # rest) = item @ CHR '','' # rest"
    "CHR '','' \<notin> set item" "parse_cpu_item item = Some cpus"
  shows "parse_cpu_list (item @ CHR '','' # rest) = map_option (\<lambda>more. cpus @ more) (parse_cpu_list rest)"
  using assms by (subst parse_cpu_list.simps) (simp add: split_at_append)

lemma upto_snoc_int: "a \<le> x \<Longrightarrow> [a..x] = [a..x - 1] @ [x]" for a x :: int
  by (rule upto_rec2)

lemma parse_format_tail:
  "list_all cpu_in_range (lo # prev # xs) \<Longrightarrow> lo \<le> prev \<Longrightarrow> sorted_wrt (<) (prev # xs) \<Longrightarrow>
   lo = prev \<or> (xs \<noteq> [] \<and> hd xs = prev + 1) \<Longrightarrow>
   parse_cpu_list (to_string lo @ format_tail prev xs) = Some ([lo..prev] @ xs)"
proof (induction "length xs" arbitrary: lo prev xs rule: less_induct)
  case less
  have lo0: "0 \<le> lo" using less.prems by (simp add: cpu_in_range_def)
  note sep = to_string_no_sep(1) [OF lo0]
  show ?case
  proof (cases xs)
    case Nil
    with less.prems have "lo = prev" by simp
    with Nil less.prems sep show ?thesis
      using skip_blanks_to_string [OF lo0, of "[]"]
      by (simp add: parse_cpu_list_last parse_cpu_item_single)
  next
    case xs: (Cons x xs')
    have ranges: "cpu_in_range lo" "cpu_in_range x" "prev < x" using less.prems xs by auto
    have x0: "0 \<le> x" using ranges by (simp add: cpu_in_range_def)
    show ?thesis
    proof (cases "x = prev + 1")
      case run: True
      have split: "[lo..x] = [lo..prev] @ [x]" using upto_snoc_int [of lo x] run less.prems by simp
      show ?thesis
      proof (cases "xs' \<noteq> [] \<and> hd xs' = x + 1")
        case True
        have "parse_cpu_list (to_string lo @ format_tail x xs') = Some ([lo..x] @ xs')"
          by (rule less.hyps) (use less.prems xs ranges True in auto)
        with True run xs split show ?thesis by simp
      next
        case stop: False
        let ?item = "to_string lo @ CHR ''-'' # to_string x"
        have item: "parse_cpu_item ?item = Some [lo..x]"
          using parse_cpu_item_range ranges less.prems by simp
        have comma: "CHR '','' \<notin> set ?item" using sep to_string_no_sep(1) [OF x0] by simp
        show ?thesis
        proof (cases xs')
          case Nil
          with stop run xs item comma split show ?thesis
            using skip_blanks_to_string [OF lo0, of "CHR ''-'' # to_string x"]
            by (simp add: parse_cpu_list_last)
        next
          case (Cons y ys)
          have tail: "format_tail x xs' = CHR '','' # to_string y @ format_tail y ys"
            using stop Cons by simp
          have rest: "parse_cpu_list (to_string y @ format_tail y ys) = Some ([y..y] @ ys)"
            by (rule less.hyps) (use less.prems xs Cons in auto)
          have "parse_cpu_list (?item @ CHR '','' # (to_string y @ format_tail y ys)) = Some ([lo..x] @ y # ys)"
            using parse_cpu_list_more [OF _ comma item] rest
              skip_blanks_to_string [OF lo0, of "CHR ''-'' # to_string x @ CHR '','' # to_string y @ format_tail y ys"]
            by simp
          with run stop xs Cons tail split show ?thesis by simp
        qed
      qed
    next
      case gap: False
      with less.prems xs have lo: "lo = prev" by auto
      have rest: "parse_cpu_list (to_string x @ format_tail x xs') = Some ([x..x] @ xs')"
        by (rule less.hyps) (use less.prems xs in auto)
      have "parse_cpu_list (to_string lo @ CHR '','' # (to_string x @ format_tail x xs')) = Some ([lo] @ x # xs')"
        using parse_cpu_list_more [OF _ sep parse_cpu_item_single [OF ranges(1)]] rest
          skip_blanks_to_string [OF lo0] by simp
      with gap xs lo show ?thesis by simp
    qed
  qed
qed

lemma parse_cpu_list_cpus_to_string:
  assumes "cpu_list_ok cpus" "cpus \<noteq> []"
  shows "parse_cpu_list (cpus_to_string cpus) = Some cpus"
proof -
  have "sort cpus = cpus" using assms by (simp add: cpu_list_ok_def strict_sorted_iff sorted_sort_id)
  with assms show ?thesis
    using parse_format_tail [of "hd cpus" "hd cpus" "tl cpus"]
    by (cases cpus) (simp_all add: cpus_to_string_def cpu_list_ok_def)
qed

lemma parse_cpu_item_in_range: "parse_cpu_item s = Some cpus \<Longrightarrow> list_all cpu_in_range cpus"
  by (auto simp: parse_cpu_item_def cpu_in_range_def list_all_iff split: option.splits if_splits)

lemma parse_cpu_list_in_range: "parse_cpu_list s = Some cpus \<Longrightarrow> list_all cpu_in_range cpus"
proof (induction s arbitrary: cpus rule: parse_cpu_list.induct)
  case (1 v)
  let ?s = "skip_blanks v"
  show ?case
  proof (cases "?s = []")
    case True
    with "1.prems" show ?thesis by (subst (asm) parse_cpu_list.simps) simp
  next
    case ne: False
    show ?thesis
    proof (cases "split_at (CHR '','') ?s")
      case None
      with ne "1.prems" show ?thesis
        by (subst (asm) parse_cpu_list.simps) (simp add: parse_cpu_item_in_range)
    next
      case (Some p)
      then obtain item rest where p: "split_at (CHR '','') ?s = Some (item, rest)" by (cases p) simp
      with ne "1.prems" obtain now more where item: "parse_cpu_item item = Some now"
        and rest: "parse_cpu_list rest = Some more" and cpus: "cpus = now @ more"
        by (subst (asm) parse_cpu_list.simps) (auto split: option.splits)
      from "1.IH" [OF refl ne p refl item rest] parse_cpu_item_in_range [OF item]
      show ?thesis by (simp add: cpus)
    qed
  qed
qed

end
