(* ===== verification/Cgroup_State.thy ===== *)
theory Cgroup_State
  imports File_Utils
begin

section \<open>Cgroup paths and process states (utils/file\_utils.hpp)\<close>

text \<open>
  Reading \<open>/proc/<pid>/cgroup\<close>: the path of a controller, with the bounded time-to-live
  cache in front of it, the uncached paths of a thread, and the classification of
  paths as Android process states.
\<close>

subsection \<open>Lines of a cgroup file\<close>

definition parse_cgroup_line :: "string \<Rightarrow> (string list \<times> string) option" where
  "parse_cgroup_line line = (case split_at (CHR '':'') line of None \<Rightarrow> None
     | Some (_, rest) \<Rightarrow> (case split_at (CHR '':'') rest of None \<Rightarrow> None
         | Some (controllers, path) \<Rightarrow> Some (getlines (CHR '','') controllers, path)))"

fun find_controller_path :: "string \<Rightarrow> string list \<Rightarrow> string" where
  "find_controller_path controller [] = []"
| "find_controller_path controller (line # ls) =
     (case parse_cgroup_line line of None \<Rightarrow> find_controller_path controller ls
      | Some (cs, path) \<Rightarrow>
          if controller \<in> set cs \<and> path \<noteq> [] then path else find_controller_path controller ls)"

definition kMaxCgroupCacheSize :: nat where "kMaxCgroupCacheSize = 1000"

definition cgroup_cache_lookup :: "int \<Rightarrow> int \<Rightarrow> int \<times> string \<Rightarrow> CgroupCache \<Rightarrow> string option" where
  "cgroup_cache_lookup ttl now key c = (case map_of c key of None \<Rightarrow> None
     | Some (path, t) \<Rightarrow> if elapsed_ms t now < ttl then Some path else None)"

definition cgroup_cache_insert :: "int \<Rightarrow> int \<Rightarrow> int \<times> string \<Rightarrow> string \<Rightarrow> CgroupCache \<Rightarrow> CgroupCache" where
  "cgroup_cache_insert ttl now key path c =
     (let c1 = (if kMaxCgroupCacheSize \<le> length c
                then umap_erase_if (\<lambda>_ (_, t). ttl \<le> elapsed_ms t now) c else c);
          c2 = (if kMaxCgroupCacheSize \<le> length c1 then tl c1 else c1)
      in AList.update key (path, now) c2)"

definition get_cgroup_path_from_file :: "'w os \<Rightarrow> string \<Rightarrow> int \<Rightarrow> string \<Rightarrow> ('w env, string) state" where
  "get_cgroup_path_from_file os cgroup_file cache_pid controller = do {
     now \<leftarrow> sys (os_now os);
     e \<leftarrow> State_Monad.get;
     (case cgroup_cache_lookup (cgroup_ttl e) now (cache_pid, controller) (ccache e) of
        Some path \<Rightarrow> State_Monad.return path
      | None \<Rightarrow> do {
          cgroups \<leftarrow> read_file os cgroup_file;
          let result = find_controller_path controller (getlines NL cgroups);
          modify (\<lambda>e. e\<lparr>ccache := cgroup_cache_insert (cgroup_ttl e) now (cache_pid, controller) result (ccache e)\<rparr>);
          State_Monad.return result })
   }"

definition get_cgroup_path :: "'w os \<Rightarrow> int \<Rightarrow> string \<Rightarrow> ('w env, string) state" where
  "get_cgroup_path os pid controller =
     get_cgroup_path_from_file os (''/proc/'' @ to_string pid @ ''/cgroup'') (pid mod 4294967296) controller"

definition get_thread_cgroup_path :: "'w os \<Rightarrow> int \<Rightarrow> int \<Rightarrow> string \<Rightarrow> ('w env, string) state" where
  "get_thread_cgroup_path os pid tid controller =
     get_cgroup_path_from_file os (task_path pid tid ''cgroup'')
       ((pid mod 4294967296) * 4294967296 + tid mod 4294967296) controller"

record ThreadCgroupPaths =
  tp_cpuset :: string
  tp_cpuctl :: string
  tp_readable :: bool

definition no_cgroup_paths :: ThreadCgroupPaths where
  "no_cgroup_paths = \<lparr>tp_cpuset = [], tp_cpuctl = [], tp_readable = False\<rparr>"

fun assign_controllers :: "string list \<Rightarrow> string \<Rightarrow> ThreadCgroupPaths \<Rightarrow> ThreadCgroupPaths" where
  "assign_controllers [] path p = p"
| "assign_controllers (c # cs) path p = assign_controllers cs path
     (if c = ''cpuset'' then p\<lparr>tp_cpuset := path\<rparr>
      else if c = ''cpu'' \<or> c = ''cpuctl'' then p\<lparr>tp_cpuctl := path\<rparr> else p)"

fun assign_cgroup_lines :: "string list \<Rightarrow> ThreadCgroupPaths \<Rightarrow> ThreadCgroupPaths" where
  "assign_cgroup_lines [] p = p"
| "assign_cgroup_lines (line # ls) p =
     (case parse_cgroup_line line of None \<Rightarrow> assign_cgroup_lines ls p
      | Some (cs, path) \<Rightarrow> assign_cgroup_lines ls (assign_controllers cs path p))"

definition get_thread_cgroup_paths_uncached :: "'w os \<Rightarrow> int \<Rightarrow> int \<Rightarrow> ('w env, ThreadCgroupPaths) state" where
  "get_thread_cgroup_paths_uncached os pid tid =
     (if \<not> is_valid_pid pid \<or> \<not> is_valid_tid tid then State_Monad.return no_cgroup_paths
      else do {
        cgroups \<leftarrow> read_file os (task_path pid tid ''cgroup'');
        State_Monad.return (if cgroups = [] then no_cgroup_paths
          else assign_cgroup_lines (getlines NL cgroups) (no_cgroup_paths\<lparr>tp_readable := True\<rparr>)) })"

text \<open>
  \<open>invalidate_process_caches\<close> recovers the process from the cache key: a process key has
  its high 32 bits zero, a thread key has the process there. \<open>static_cast<int>\<close> keeps the
  low 32 bits, two's complement.
\<close>

definition cast_int :: "int \<Rightarrow> int" where
  "cast_int n = sint (word_of_int n :: 32 word)"

definition cached_pid_of_key :: "int \<Rightarrow> int" where
  "cached_pid_of_key key =
     (if cast_int (key div 4294967296) = 0 then cast_int key else cast_int (key div 4294967296))"

definition invalidate_process_caches :: "int \<Rightarrow> ('w env, unit) state" where
  "invalidate_process_caches pid =
     (if \<not> is_valid_pid pid then State_Monad.return ()
      else modify (\<lambda>e. e\<lparr>ccache := umap_erase_if (\<lambda>key _. cached_pid_of_key (fst key) = pid) (ccache e)\<rparr>))"

subsection \<open>Process states\<close>

datatype CgroupState = CTOP | CFG | CBG | COTHER

definition cgroup_path_to_state :: "string \<Rightarrow> CgroupState" where
  "cgroup_path_to_state path =
     (if str_contains path ''top-app'' then CTOP
      else if str_contains path ''foreground'' then CFG
      else if str_contains path ''background'' \<or> str_contains path ''system-background'' then CBG
      else COTHER)"

definition cgroup_paths_to_state :: "string \<Rightarrow> string \<Rightarrow> CgroupState" where
  "cgroup_paths_to_state cpu_path cpuset_path =
     (let cpu_state = cgroup_path_to_state cpu_path
      in if cpu_state \<noteq> COTHER then cpu_state else cgroup_path_to_state cpuset_path)"

record CgroupStateInfo =
  ci_state :: CgroupState
  ci_reuperf_owned :: bool

definition is_reuperf_cpuset_path :: "string \<Rightarrow> bool" where
  "is_reuperf_cpuset_path p \<longleftrightarrow> str_starts p ''/top-app/ReUperf_'' \<or> str_starts p ''/ReUperf_''"

definition cgroup_paths_to_state_info :: "string \<Rightarrow> string \<Rightarrow> CgroupStateInfo" where
  "cgroup_paths_to_state_info cpu_path cpuset_path =
     (let owned = (str_starts cpu_path ''/ReUperf/'' \<or> is_reuperf_cpuset_path cpuset_path);
          cpu_state = cgroup_path_to_state cpu_path
      in if cpu_state \<noteq> COTHER then \<lparr>ci_state = cpu_state, ci_reuperf_owned = owned\<rparr>
         else if owned then \<lparr>ci_state = COTHER, ci_reuperf_owned = True\<rparr>
         else \<lparr>ci_state = cgroup_path_to_state cpuset_path, ci_reuperf_owned = False\<rparr>)"

definition get_cgroup_state_info :: "'w os \<Rightarrow> int \<Rightarrow> ('w env, CgroupStateInfo) state" where
  "get_cgroup_state_info os pid = do {
     cpu \<leftarrow> get_cgroup_path os pid ''cpu'';
     cpuset \<leftarrow> get_cgroup_path os pid ''cpuset'';
     State_Monad.return (cgroup_paths_to_state_info cpu cpuset) }"

definition get_cgroup_state :: "'w os \<Rightarrow> int \<Rightarrow> ('w env, CgroupState) state" where
  "get_cgroup_state os pid = do {
     i \<leftarrow> get_cgroup_state_info os pid;
     State_Monad.return (ci_state i) }"

subsection \<open>The path cache\<close>

definition cgroup_cache_ok :: "CgroupCache \<Rightarrow> bool" where
  "cgroup_cache_ok c \<longleftrightarrow> umap_ok c \<and> length c \<le> kMaxCgroupCacheSize"

definition cgroup_cache_room :: "int \<Rightarrow> int \<Rightarrow> CgroupCache \<Rightarrow> CgroupCache" where
  "cgroup_cache_room ttl now c =
     (let c1 = (if kMaxCgroupCacheSize \<le> length c
                then umap_erase_if (\<lambda>_ (_, t). ttl \<le> elapsed_ms t now) c else c)
      in if kMaxCgroupCacheSize \<le> length c1 then tl c1 else c1)"

lemma cgroup_cache_insert_room:
  "cgroup_cache_insert ttl now key path c = AList.update key (path, now) (cgroup_cache_room ttl now c)"
  by (simp add: cgroup_cache_insert_def cgroup_cache_room_def Let_def)

lemma cgroup_cache_room_ok:
  assumes "cgroup_cache_ok c"
  shows "umap_ok (cgroup_cache_room ttl now c)" "length (cgroup_cache_room ttl now c) < kMaxCgroupCacheSize"
proof -
  have tl: "umap_ok m \<Longrightarrow> umap_ok (tl m)" for m :: CgroupCache
    by (cases m) (simp_all add: umap_ok_def)
  have "length (umap_erase_if P c) \<le> length c" for P by (simp add: umap_erase_if_def)
  with assms tl show "umap_ok (cgroup_cache_room ttl now c)"
    by (simp add: cgroup_cache_room_def cgroup_cache_ok_def Let_def)
  from \<open>\<And>P. length (umap_erase_if P c) \<le> length c\<close> [of "\<lambda>_ (_, t). ttl \<le> elapsed_ms t now"] assms
  show "length (cgroup_cache_room ttl now c) < kMaxCgroupCacheSize"
    by (auto simp: cgroup_cache_room_def cgroup_cache_ok_def Let_def kMaxCgroupCacheSize_def)
qed

lemma cgroup_cache_room_sub:
  assumes "cgroup_cache_ok c" "map_of (cgroup_cache_room ttl now c) key = Some x"
  shows "map_of c key = Some x"
proof -
  have "(key, x) \<in> set (cgroup_cache_room ttl now c)" using assms(2) by (rule map_of_SomeD)
  moreover have "set (cgroup_cache_room ttl now c) \<subseteq> set c"
  proof -
    have "set (tl m) \<subseteq> set m" for m :: CgroupCache by (cases m) auto
    then show ?thesis
      by (fastforce simp: cgroup_cache_room_def Let_def umap_erase_if_def split: if_splits)
  qed
  ultimately show ?thesis using assms(1) by (auto simp: cgroup_cache_ok_def umap_in_set_iff)
qed

lemma cgroup_cache_insert_ok: "cgroup_cache_ok c \<Longrightarrow> cgroup_cache_ok (cgroup_cache_insert ttl now key path c)"
  using cgroup_cache_room_ok [of c ttl now] umap_length_update_le [of key "(path, now)" "cgroup_cache_room ttl now c"]
  by (simp add: cgroup_cache_ok_def cgroup_cache_insert_room)

lemmas cgroup_cache_room_update = cgroup_cache_insert_ok [unfolded cgroup_cache_insert_room]

lemma cgroup_cache_erase_ok: "cgroup_cache_ok c \<Longrightarrow> cgroup_cache_ok (umap_erase_if P c)"
  by (auto simp: cgroup_cache_ok_def) (simp add: umap_erase_if_def le_trans [OF length_filter_le])

interpretation cgroup_cache: ttl_cache "\<lambda>c. map_of c" "cgroup_cache_lookup ttl"
  "\<lambda>t k v. cgroup_cache_insert ttl t k v" "AList.delete" cgroup_cache_ok
  "\<lambda>now t. elapsed_ms t now < ttl" for ttl
proof unfold_locales
  fix c :: CgroupCache and k t v
  assume "cgroup_cache_ok c"
  then show "cgroup_cache_ok (AList.delete k c)"
    using AList.length_delete_le [of k c] by (simp add: cgroup_cache_ok_def)
qed (auto simp: cgroup_cache_lookup_def cgroup_cache_insert_room cgroup_cache_room_update
      dest: cgroup_cache_room_sub split: option.splits if_splits)

definition ccache_inv :: "'w env \<Rightarrow> bool" where
  "ccache_inv e \<longleftrightarrow> cgroup_cache_ok (ccache e)"

lemma keeps_ccache_read_file [keeps_rules]: "keeps ccache (read_file os path)"
  unfolding read_file_def by (intro keeps_rules; simp)

lemma ccache_inv_path [hoare_rules]: "inv_kept ccache_inv (get_cgroup_path_from_file os file pid controller)"
proof -
  have quiet: "keeps ccache m \<Longrightarrow> inv_kept ccache_inv m" for m :: "('a env, 'b) state"
    unfolding ccache_inv_def by (rule keeps_inv_kept)
  have read: "inv_kept ccache_inv (read_file os path)" for path
    unfolding ccache_inv_def by (rule keeps_inv_kept [OF keeps_ccache_read_file])
  have now: "inv_kept ccache_inv (sys (os_now os))"
    unfolding ccache_inv_def by (rule keeps_inv_kept) (simp add: keeps_sys)
  show ?thesis
    unfolding get_cgroup_path_from_file_def
    by (intro hoare_rules now read) (simp add: ccache_inv_def cgroup_cache_insert_ok)
qed

lemma ccache_inv_invalidate [hoare_rules]: "inv_kept ccache_inv (invalidate_process_caches pid)"
  unfolding invalidate_process_caches_def
  by (intro hoare_rules) (simp add: ccache_inv_def cgroup_cache_erase_ok)

subsection \<open>Invalidating a process drops all of its entries and no other's\<close>

definition process_key :: "int \<Rightarrow> int" where
  "process_key pid = pid mod 4294967296"

definition thread_key :: "int \<Rightarrow> int \<Rightarrow> int" where
  "thread_key pid tid = (pid mod 4294967296) * 4294967296 + tid mod 4294967296"

lemma cast_int_small: "0 \<le> n \<Longrightarrow> n \<le> INT_MAX \<Longrightarrow> cast_int n = n"
  by (simp add: cast_int_def INT_MAX_def sint_sbintrunc' signed_take_bit_int_eq_self)

lemma cached_pid_process: "is_valid_pid pid \<Longrightarrow> cached_pid_of_key (process_key pid) = pid"
proof -
  assume "is_valid_pid pid"
  then have "process_key pid = pid" "pid div 4294967296 = 0" "0 \<le> pid" "pid \<le> INT_MAX"
    by (auto simp: process_key_def is_valid_pid_def INT_MAX_def)
  then show ?thesis by (simp add: cached_pid_of_key_def cast_int_small)
qed

lemma cached_pid_thread:
  assumes "is_valid_pid pid"
  shows "cached_pid_of_key (thread_key pid tid) = pid"
proof -
  have "pid mod 4294967296 = pid" "0 < pid" "pid \<le> INT_MAX" "0 \<le> pid"
    using assms by (auto simp: is_valid_pid_def INT_MAX_def)
  then have "thread_key pid tid div 4294967296 = pid" by (simp add: thread_key_def)
  with \<open>0 < pid\<close> \<open>pid \<le> INT_MAX\<close> show ?thesis by (simp add: cached_pid_of_key_def cast_int_small)
qed

lemma invalidate_process_lookup:
  assumes "is_valid_pid pid" "cgroup_cache_ok (ccache e)" "is_valid_pid p"
    and "run_state (invalidate_process_caches pid) e = ((), e')"
  shows "map_of (ccache e') (process_key p, controller) =
      (if p = pid then None else map_of (ccache e) (process_key p, controller))"
    "map_of (ccache e') (thread_key p tid, controller) =
      (if p = pid then None else map_of (ccache e) (thread_key p tid, controller))"
proof -
  have "ccache e' = umap_erase_if (\<lambda>key _. cached_pid_of_key (fst key) = pid) (ccache e)"
    using assms(1,4) by (auto simp: invalidate_process_caches_def)
  with assms(2,3) show "map_of (ccache e') (process_key p, controller) =
      (if p = pid then None else map_of (ccache e) (process_key p, controller))"
    "map_of (ccache e') (thread_key p tid, controller) =
      (if p = pid then None else map_of (ccache e) (thread_key p tid, controller))"
    by (auto simp: umap_lookup_erase_if cgroup_cache_ok_def cached_pid_process cached_pid_thread
        split: option.splits)
qed

subsection \<open>Classification\<close>

lemma own_cpuset_never_top:
  "is_reuperf_cpuset_path cpuset \<Longrightarrow> cgroup_path_to_state cpu = COTHER \<Longrightarrow>
   cgroup_paths_to_state_info cpu cpuset = \<lparr>ci_state = COTHER, ci_reuperf_owned = True\<rparr>"
  by (simp add: cgroup_paths_to_state_info_def)

lemma own_cpu_group_leaks_state:
  "cgroup_paths_to_state_info ''/ReUperf/top-app/A1'' cpuset = \<lparr>ci_state = CTOP, ci_reuperf_owned = True\<rparr>"
proof -
  have "cgroup_path_to_state ''/ReUperf/top-app/A1'' = CTOP" "str_starts ''/ReUperf/top-app/A1'' ''/ReUperf/''"
    by code_simp+
  then show ?thesis by (simp add: cgroup_paths_to_state_info_def)
qed

end
