(* ===== verification/Thread_Cache.thy ===== *)
theory Thread_Cache
  imports Config_Types
begin

section \<open>The thread cache (core/thread\_cache.hpp)\<close>

text \<open>
  What the scheduler knows of every thread it has seen: the identity of the thread (its
  start time and its process's), the last match result, the result that was applied,
  which scheduling dimensions are managed, and the baseline to restore. The class is a
  map from \<open>(pid, tid)\<close>; every method is one function on the map (each runs under the
  cache's mutex). Main results: a captured baseline component is never overwritten
  (\<open>baselines.captures_keep\<close>), and a managed dimension always has its baseline
  (\<open>tcache_inv\<close>, kept by every operation the dispatcher uses).
\<close>

subsection \<open>Data\<close>

record ThreadBaseline =
  bl_affinity :: "int list"
  bl_has_affinity :: bool
  bl_policy :: int
  bl_priority :: int
  bl_nice :: int
  bl_has_scheduler :: bool
  bl_cpuset_path :: string
  bl_has_cpuset_path :: bool
  bl_cpuctl_path :: string
  bl_has_cpuctl_path :: bool

definition new_baseline :: ThreadBaseline where
  "new_baseline = \<lparr>bl_affinity = [], bl_has_affinity = False, bl_policy = -1, bl_priority = 0,
     bl_nice = 0, bl_has_scheduler = False, bl_cpuset_path = [], bl_has_cpuset_path = False,
     bl_cpuctl_path = [], bl_has_cpuctl_path = False\<rparr>"

record StoredThreadBaseline =
  sb_pid :: int
  sb_tid :: int
  sb_process_start_time :: nat
  sb_thread_start_time :: nat
  sb_baseline :: ThreadBaseline

record ManagedComponents =
  mc_affinity :: bool
  mc_priority :: bool
  mc_cpuctl :: bool

definition no_components :: ManagedComponents where
  "no_components = \<lparr>mc_affinity = False, mc_priority = False, mc_cpuctl = False\<rparr>"

record ThreadCacheEntry =
  te_pid :: int
  te_tid :: int
  te_process_start_time :: nat
  te_thread_start_time :: nat
  te_thread_name :: string
  te_cmdline :: string
  te_actual_state :: ProcessState
  te_result :: MatchResult
  te_applied_result :: "MatchResult option"
  te_managed :: ManagedComponents
  te_cpuset_base :: string
  te_cpuctl_base :: string
  te_baseline :: "ThreadBaseline option"

type_synonym ThreadCache = "(int \<times> int, ThreadCacheEntry) umap"

subsection \<open>Methods\<close>

definition cache_lookup ::
  "int \<Rightarrow> int \<Rightarrow> nat \<Rightarrow> nat \<Rightarrow> string \<Rightarrow> string \<Rightarrow> ProcessState \<Rightarrow> ThreadCache \<Rightarrow> ThreadCacheEntry option" where
  "cache_lookup pid tid ps ts name cmdline st c =
     (case map_of c (pid, tid) of None \<Rightarrow> None
      | Some e \<Rightarrow>
          if te_process_start_time e \<noteq> ps \<or> te_thread_start_time e \<noteq> ts then None
          else if te_thread_name e = name \<and> te_cmdline e = cmdline \<and> te_actual_state e = st
          then Some e else None)"

definition cache_update ::
  "int \<Rightarrow> int \<Rightarrow> nat \<Rightarrow> nat \<Rightarrow> string \<Rightarrow> string \<Rightarrow> ProcessState \<Rightarrow> MatchResult \<Rightarrow> string \<Rightarrow> string
     \<Rightarrow> ThreadCache \<Rightarrow> ThreadCache" where
  "cache_update pid tid ps ts name cmdline st result cpuset_base cpuctl_base c =
     (let fresh = \<lparr>te_pid = pid, te_tid = tid, te_process_start_time = ps, te_thread_start_time = ts,
            te_thread_name = name, te_cmdline = cmdline, te_actual_state = st, te_result = result,
            te_applied_result = None, te_managed = no_components, te_cpuset_base = cpuset_base,
            te_cpuctl_base = cpuctl_base, te_baseline = None\<rparr>
      in case map_of c (pid, tid) of
           None \<Rightarrow> AList.update (pid, tid) fresh c
         | Some e \<Rightarrow>
             if te_process_start_time e = ps \<and> te_thread_start_time e = ts
             then AList.update (pid, tid) (e\<lparr>te_thread_name := name, te_cmdline := cmdline,
                    te_actual_state := st, te_result := result, te_cpuset_base := cpuset_base,
                    te_cpuctl_base := cpuctl_base\<rparr>) c
             else AList.update (pid, tid) fresh c)"

text \<open>The shape of the setters: \<open>if (it != cache_.end()) ...\<close>.\<close>

definition on_entry ::
  "int \<Rightarrow> int \<Rightarrow> (ThreadCacheEntry \<Rightarrow> ThreadCacheEntry) \<Rightarrow> ThreadCache \<Rightarrow> ThreadCache" where
  "on_entry pid tid f c = (case map_of c (pid, tid) of None \<Rightarrow> c
     | Some e \<Rightarrow> AList.update (pid, tid) (f e) c)"

definition get_applied_result :: "int \<Rightarrow> int \<Rightarrow> ThreadCache \<Rightarrow> MatchResult option" where
  "get_applied_result pid tid c =
     (case map_of c (pid, tid) of None \<Rightarrow> None | Some e \<Rightarrow> te_applied_result e)"

definition update_applied_result :: "int \<Rightarrow> int \<Rightarrow> MatchResult \<Rightarrow> ThreadCache \<Rightarrow> ThreadCache" where
  "update_applied_result pid tid r = on_entry pid tid (\<lambda>e. e\<lparr>te_applied_result := Some r\<rparr>)"

definition clear_applied_result :: "int \<Rightarrow> int \<Rightarrow> ThreadCache \<Rightarrow> ThreadCache" where
  "clear_applied_result pid tid = on_entry pid tid (\<lambda>e. e\<lparr>te_applied_result := None\<rparr>)"

definition get_managed_components :: "int \<Rightarrow> int \<Rightarrow> ThreadCache \<Rightarrow> ManagedComponents" where
  "get_managed_components pid tid c =
     (case map_of c (pid, tid) of None \<Rightarrow> no_components | Some e \<Rightarrow> te_managed e)"

definition set_managed_components :: "int \<Rightarrow> int \<Rightarrow> ManagedComponents \<Rightarrow> ThreadCache \<Rightarrow> ThreadCache" where
  "set_managed_components pid tid m = on_entry pid tid (\<lambda>e. e\<lparr>te_managed := m\<rparr>)"

definition clear_managed_components :: "int \<Rightarrow> int \<Rightarrow> ThreadCache \<Rightarrow> ThreadCache" where
  "clear_managed_components pid tid = set_managed_components pid tid no_components"

definition merge_baseline :: "ThreadBaseline \<Rightarrow> ThreadBaseline \<Rightarrow> ThreadBaseline" where
  "merge_baseline existing b =
     (let b1 = (if \<not> bl_has_affinity existing \<and> bl_has_affinity b
                then existing\<lparr>bl_affinity := bl_affinity b, bl_has_affinity := True\<rparr> else existing);
          b2 = (if \<not> bl_has_scheduler b1 \<and> bl_has_scheduler b
                then b1\<lparr>bl_policy := bl_policy b, bl_priority := bl_priority b, bl_nice := bl_nice b,
                        bl_has_scheduler := True\<rparr> else b1);
          b3 = (if \<not> bl_has_cpuset_path b2 \<and> bl_has_cpuset_path b
                then b2\<lparr>bl_cpuset_path := bl_cpuset_path b, bl_has_cpuset_path := True\<rparr> else b2)
      in if \<not> bl_has_cpuctl_path b3 \<and> bl_has_cpuctl_path b
         then b3\<lparr>bl_cpuctl_path := bl_cpuctl_path b, bl_has_cpuctl_path := True\<rparr> else b3)"

definition set_baseline :: "int \<Rightarrow> int \<Rightarrow> ThreadBaseline \<Rightarrow> ThreadCache \<Rightarrow> ThreadCache" where
  "set_baseline pid tid b = on_entry pid tid (\<lambda>e. e\<lparr>te_baseline :=
     Some (case te_baseline e of None \<Rightarrow> b | Some existing \<Rightarrow> merge_baseline existing b)\<rparr>)"

definition get_baseline :: "int \<Rightarrow> int \<Rightarrow> ThreadCache \<Rightarrow> ThreadBaseline option" where
  "get_baseline pid tid c =
     (case map_of c (pid, tid) of None \<Rightarrow> None | Some e \<Rightarrow> te_baseline e)"

definition clear_baseline :: "int \<Rightarrow> int \<Rightarrow> ThreadCache \<Rightarrow> ThreadCache" where
  "clear_baseline pid tid = on_entry pid tid (\<lambda>e. e\<lparr>te_baseline := None\<rparr>)"

definition get_pids_with_baselines :: "ThreadCache \<Rightarrow> int set" where
  "get_pids_with_baselines c = set (map (te_pid \<circ> snd) (filter (\<lambda>(_, e). te_baseline e \<noteq> None) c))"

definition has_baseline_for_pid :: "int \<Rightarrow> ThreadCache \<Rightarrow> bool" where
  "has_baseline_for_pid pid c \<longleftrightarrow> list_ex (\<lambda>(_, e). te_pid e = pid \<and> te_baseline e \<noteq> None) c"

definition stored_baseline :: "ThreadCacheEntry \<Rightarrow> StoredThreadBaseline option" where
  "stored_baseline e = map_option (\<lambda>b. \<lparr>sb_pid = te_pid e, sb_tid = te_tid e,
     sb_process_start_time = te_process_start_time e,
     sb_thread_start_time = te_thread_start_time e, sb_baseline = b\<rparr>) (te_baseline e)"

definition get_all_baselines :: "ThreadCache \<Rightarrow> StoredThreadBaseline list" where
  "get_all_baselines c = List.map_filter (\<lambda>(_, e). stored_baseline e) c"

definition identity_snapshot :: "ThreadCache \<Rightarrow> (int \<times> int, nat \<times> nat) umap" where
  "identity_snapshot c = map (\<lambda>(k, e). (k, te_process_start_time e, te_thread_start_time e)) c"

definition retain_live_threads ::
  "(int, nat) umap \<Rightarrow> (int \<times> int, nat) umap \<Rightarrow> (int \<times> int, nat \<times> nat) umap \<Rightarrow> ThreadCache \<Rightarrow> ThreadCache" where
  "retain_live_threads live_processes live_threads scan_start =
     umap_erase_if (\<lambda>key e.
       if map_of scan_start key \<noteq> Some (te_process_start_time e, te_thread_start_time e) then False
       else if map_of live_processes (te_pid e) \<noteq> Some (te_process_start_time e) then True
       else case map_of live_threads key of
              Some start \<Rightarrow> start \<noteq> te_thread_start_time e
            | None \<Rightarrow> te_baseline e = None)"

definition clear_scheduling_state_preserving_baselines :: "ThreadCache \<Rightarrow> ThreadCache" where
  "clear_scheduling_state_preserving_baselines c =
     map (\<lambda>(k, e). (k, e\<lparr>te_thread_name := [], te_cmdline := [], te_applied_result := None,
                        te_managed := no_components\<rparr>))
         (umap_erase_if (\<lambda>_ e. te_baseline e = None) c)"

definition erase_thread_if_identity :: "int \<Rightarrow> int \<Rightarrow> nat \<Rightarrow> nat \<Rightarrow> ThreadCache \<Rightarrow> ThreadCache" where
  "erase_thread_if_identity pid tid ps ts c =
     (case map_of c (pid, tid) of None \<Rightarrow> c
      | Some e \<Rightarrow> if te_process_start_time e = ps \<and> te_thread_start_time e = ts
                  then AList.delete (pid, tid) c else c)"

definition reset_for_pid :: "int \<Rightarrow> ThreadCache \<Rightarrow> ThreadCache" where
  "reset_for_pid pid = umap_erase_if (\<lambda>key _. fst key = pid)"

definition clear_cache :: "ThreadCache \<Rightarrow> ThreadCache" where
  "clear_cache c = []"

subsection \<open>Lookups after an operation\<close>

lemma map_of_on_entry:
  "map_of (on_entry pid tid f c) k =
     (if k = (pid, tid) then map_option f (map_of c k) else map_of c k)"
  by (auto simp: on_entry_def split: option.splits)

lemma umap_ok_on_entry [simp]: "umap_ok c \<Longrightarrow> umap_ok (on_entry pid tid f c)"
  by (simp add: on_entry_def split: option.splits)

lemma map_of_map_snd: "map_of (map (\<lambda>(k, e). (k, g e)) c) k = map_option g (map_of c k)"
  by (induction c) auto

lemma map_of_identity_snapshot:
  "map_of (identity_snapshot c) k =
     map_option (\<lambda>e. (te_process_start_time e, te_thread_start_time e)) (map_of c k)"
  by (simp add: identity_snapshot_def map_of_map_snd)

lemma get_baseline_set:
  "get_baseline p t (set_baseline pid tid b c) =
     (if (p, t) = (pid, tid) \<and> map_of c (pid, tid) \<noteq> None
      then Some (case get_baseline p t c of None \<Rightarrow> b | Some e \<Rightarrow> merge_baseline e b)
      else get_baseline p t c)"
  by (auto simp: get_baseline_def set_baseline_def map_of_on_entry split: option.splits)

lemma get_baseline_present: "get_baseline pid tid c = Some b \<Longrightarrow> map_of c (pid, tid) \<noteq> None"
  by (auto simp: get_baseline_def split: option.splits)

subsection \<open>A captured component is never overwritten\<close>

text \<open>\<open>baseline_le a b\<close>: every component captured in \<open>a\<close> is captured in \<open>b\<close> with the same value.\<close>

definition baseline_le :: "ThreadBaseline \<Rightarrow> ThreadBaseline \<Rightarrow> bool" where
  "baseline_le a b \<longleftrightarrow>
     (bl_has_affinity a \<longrightarrow> bl_has_affinity b \<and> bl_affinity b = bl_affinity a) \<and>
     (bl_has_scheduler a \<longrightarrow> bl_has_scheduler b \<and> bl_policy b = bl_policy a \<and>
        bl_priority b = bl_priority a \<and> bl_nice b = bl_nice a) \<and>
     (bl_has_cpuset_path a \<longrightarrow> bl_has_cpuset_path b \<and> bl_cpuset_path b = bl_cpuset_path a) \<and>
     (bl_has_cpuctl_path a \<longrightarrow> bl_has_cpuctl_path b \<and> bl_cpuctl_path b = bl_cpuctl_path a)"

lemma baseline_le_refl [simp]: "baseline_le a a"
  by (simp add: baseline_le_def)

lemma baseline_le_trans: "baseline_le a b \<Longrightarrow> baseline_le b c \<Longrightarrow> baseline_le a c"
  by (auto simp: baseline_le_def)

lemma merge_baseline_le: "baseline_le a (merge_baseline a b)"
  by (simp add: baseline_le_def merge_baseline_def Let_def)

lemma merge_baseline_has [simp]:
  "bl_has_affinity (merge_baseline a b) = (bl_has_affinity a \<or> bl_has_affinity b)"
  "bl_has_scheduler (merge_baseline a b) = (bl_has_scheduler a \<or> bl_has_scheduler b)"
  "bl_has_cpuset_path (merge_baseline a b) = (bl_has_cpuset_path a \<or> bl_has_cpuset_path b)"
  "bl_has_cpuctl_path (merge_baseline a b) = (bl_has_cpuctl_path a \<or> bl_has_cpuctl_path b)"
  by (auto simp: merge_baseline_def Let_def)

text \<open>What a client that captures repeatedly relies on: a store never loses what it holds.\<close>

locale capture_store =
  fixes get :: "'c \<Rightarrow> 'k \<Rightarrow> 'b option"
    and put :: "'k \<Rightarrow> 'b \<Rightarrow> 'c \<Rightarrow> 'c"
    and le :: "'b \<Rightarrow> 'b \<Rightarrow> bool"
  assumes le_refl: "le a a"
    and le_trans: "le a b \<Longrightarrow> le b d \<Longrightarrow> le a d"
    and put_keeps: "get c k = Some b \<Longrightarrow> \<exists>b'. get (put k' x c) k = Some b' \<and> le b b'"
begin

lemma captures_keep:
  "get c k = Some b \<Longrightarrow> \<exists>b'. get (fold (\<lambda>(k', x). put k' x) xs c) k = Some b' \<and> le b b'"
proof (induction xs arbitrary: c b)
  case Nil
  then show ?case using le_refl by auto
next
  case (Cons p xs)
  obtain k' x where p: "p = (k', x)" by (cases p)
  obtain b1 where "get (put k' x c) k = Some b1" "le b b1" using put_keeps [OF Cons.prems] by blast
  with Cons.IH show ?case by (fastforce simp: p intro: le_trans)
qed

end

interpretation baselines: capture_store
  "\<lambda>c k. get_baseline (fst k) (snd k) c" "\<lambda>k. set_baseline (fst k) (snd k)" baseline_le
  by unfold_locales
    (auto simp: get_baseline_set merge_baseline_le dest: get_baseline_present
      intro: baseline_le_trans)

subsection \<open>A managed dimension has its baseline\<close>

definition covers :: "ManagedComponents \<Rightarrow> ThreadBaseline option \<Rightarrow> bool" where
  "covers m b \<longleftrightarrow>
     (mc_affinity m \<longrightarrow> (case b of None \<Rightarrow> False | Some x \<Rightarrow> bl_has_affinity x \<and> bl_has_cpuset_path x)) \<and>
     (mc_priority m \<longrightarrow> (case b of None \<Rightarrow> False | Some x \<Rightarrow> bl_has_scheduler x)) \<and>
     (mc_cpuctl m \<longrightarrow> (case b of None \<Rightarrow> False | Some x \<Rightarrow> bl_has_cpuctl_path x))"

definition entry_ok :: "int \<times> int \<Rightarrow> ThreadCacheEntry \<Rightarrow> bool" where
  "entry_ok k e \<longleftrightarrow> k = (te_pid e, te_tid e) \<and> covers (te_managed e) (te_baseline e)"

definition tcache_inv :: "ThreadCache \<Rightarrow> bool" where
  "tcache_inv c \<longleftrightarrow> umap_ok c \<and> (\<forall>k e. map_of c k = Some e \<longrightarrow> entry_ok k e)"

lemma covers_none [simp]: "covers no_components b"
  by (simp add: covers_def no_components_def)

lemma covers_merge: "covers m (Some b) \<Longrightarrow> covers m (Some (merge_baseline b x))"
  by (auto simp: covers_def)

lemma covers_None_iff: "covers m None \<Longrightarrow> covers m b"
  by (auto simp: covers_def)

lemma tcache_inv_Nil [simp]: "tcache_inv []"
  by (simp add: tcache_inv_def)

lemma tcache_invD: "tcache_inv c \<Longrightarrow> map_of c k = Some e \<Longrightarrow> entry_ok k e"
  unfolding tcache_inv_def by blast

lemma tcache_inv_update:
  "tcache_inv c \<Longrightarrow> entry_ok k e \<Longrightarrow> tcache_inv (AList.update k e c)"
  by (simp add: tcache_inv_def)

lemma tcache_inv_delete: "tcache_inv c \<Longrightarrow> tcache_inv (AList.delete k c)"
  by (auto simp: tcache_inv_def)

lemma tcache_inv_erase_if: "tcache_inv c \<Longrightarrow> tcache_inv (umap_erase_if P c)"
  by (auto simp: tcache_inv_def umap_lookup_erase_if split: option.splits if_splits)

lemma tcache_inv_on_entry:
  "tcache_inv c \<Longrightarrow> (\<And>e. map_of c (pid, tid) = Some e \<Longrightarrow> entry_ok (pid, tid) e \<Longrightarrow> entry_ok (pid, tid) (f e))
   \<Longrightarrow> tcache_inv (on_entry pid tid f c)"
  by (auto simp: on_entry_def split: option.splits intro!: tcache_inv_update dest: tcache_invD)

lemma entry_ok_simps [simp]:
  "entry_ok k (e\<lparr>te_applied_result := a\<rparr>) = entry_ok k e"
  "entry_ok k (e\<lparr>te_thread_name := n, te_cmdline := l, te_actual_state := st, te_result := r,
     te_cpuset_base := b1, te_cpuctl_base := b2\<rparr>) = entry_ok k e"
  by (simp_all add: entry_ok_def)

lemma tcache_inv_cache_update: "tcache_inv c \<Longrightarrow> tcache_inv (cache_update pid tid ps ts n l st r b1 b2 c)"
  by (auto simp: cache_update_def Let_def split: option.splits intro!: tcache_inv_update
      dest: tcache_invD) (simp_all add: entry_ok_def)

lemma tcache_inv_applied:
  "tcache_inv c \<Longrightarrow> tcache_inv (update_applied_result pid tid r c)"
  "tcache_inv c \<Longrightarrow> tcache_inv (clear_applied_result pid tid c)"
  by (simp_all add: update_applied_result_def clear_applied_result_def tcache_inv_on_entry)

lemma tcache_inv_set_managed:
  "tcache_inv c \<Longrightarrow> covers m (get_baseline pid tid c) \<Longrightarrow> tcache_inv (set_managed_components pid tid m c)"
  unfolding set_managed_components_def
  by (rule tcache_inv_on_entry) (auto simp: entry_ok_def get_baseline_def)

lemma tcache_inv_clear_managed: "tcache_inv c \<Longrightarrow> tcache_inv (clear_managed_components pid tid c)"
  by (simp add: clear_managed_components_def tcache_inv_set_managed)

lemma tcache_inv_set_baseline: "tcache_inv c \<Longrightarrow> tcache_inv (set_baseline pid tid b c)"
  unfolding set_baseline_def
  by (rule tcache_inv_on_entry)
    (auto simp: entry_ok_def covers_merge split: option.splits intro: covers_None_iff)

text \<open>Clearing a baseline is safe together with clearing what it covers, as the dispatcher does.\<close>

lemma tcache_inv_forget:
  "tcache_inv c \<Longrightarrow> tcache_inv (clear_managed_components pid tid
     (clear_applied_result pid tid (clear_baseline pid tid c)))"
proof -
  assume inv: "tcache_inv c"
  have "clear_managed_components pid tid (clear_applied_result pid tid (clear_baseline pid tid c)) =
    on_entry pid tid (\<lambda>e. e\<lparr>te_baseline := None, te_applied_result := None, te_managed := no_components\<rparr>) c"
    by (simp add: clear_managed_components_def set_managed_components_def clear_applied_result_def
        clear_baseline_def on_entry_def split: option.splits)
  with inv show ?thesis by (auto simp: entry_ok_def intro!: tcache_inv_on_entry)
qed

lemma tcache_inv_erase: "tcache_inv c \<Longrightarrow> tcache_inv (erase_thread_if_identity pid tid ps ts c)"
  by (simp add: erase_thread_if_identity_def tcache_inv_delete split: option.splits)

lemma tcache_inv_reset: "tcache_inv c \<Longrightarrow> tcache_inv (reset_for_pid pid c)"
  by (simp add: reset_for_pid_def tcache_inv_erase_if)

lemma tcache_inv_retain: "tcache_inv c \<Longrightarrow> tcache_inv (retain_live_threads lp lt ss c)"
  by (simp add: retain_live_threads_def tcache_inv_erase_if)

lemma umap_ok_map_snd [simp]: "umap_ok (map (\<lambda>(k, e). (k, g e)) c) = umap_ok c"
  by (simp add: umap_ok_def comp_def case_prod_unfold)

lemma tcache_inv_clear_scheduling:
  "tcache_inv c \<Longrightarrow> tcache_inv (clear_scheduling_state_preserving_baselines c)"
  unfolding clear_scheduling_state_preserving_baselines_def
  using tcache_inv_erase_if [of c "\<lambda>_ e. te_baseline e = None"]
  by (auto simp: tcache_inv_def map_of_map_snd entry_ok_def)

lemmas tcache_inv_rules = tcache_inv_cache_update tcache_inv_applied tcache_inv_clear_managed
  tcache_inv_set_baseline tcache_inv_forget tcache_inv_erase tcache_inv_reset tcache_inv_retain
  tcache_inv_clear_scheduling

subsection \<open>What survives a full scan and a reload\<close>

lemma retain_live_threads_lookup:
  assumes "umap_ok c"
  shows "map_of (retain_live_threads lp lt ss c) k =
    (case map_of c k of None \<Rightarrow> None | Some e \<Rightarrow>
       if map_of ss k = Some (te_process_start_time e, te_thread_start_time e) \<and>
          (map_of lp (te_pid e) \<noteq> Some (te_process_start_time e) \<or>
           (case map_of lt k of Some s \<Rightarrow> s \<noteq> te_thread_start_time e | None \<Rightarrow> te_baseline e = None))
       then None else Some e)"
  using assms by (auto simp: retain_live_threads_def umap_lookup_erase_if split: option.splits)

lemma clear_scheduling_lookup:
  "umap_ok c \<Longrightarrow> get_baseline p t (clear_scheduling_state_preserving_baselines c) = get_baseline p t c"
  by (simp add: get_baseline_def clear_scheduling_state_preserving_baselines_def map_of_map_snd
      umap_lookup_erase_if split: option.splits)

lemma clear_scheduling_no_hit:
  "umap_ok c \<Longrightarrow> get_applied_result p t (clear_scheduling_state_preserving_baselines c) = None"
  by (simp add: get_applied_result_def clear_scheduling_state_preserving_baselines_def map_of_map_snd
      umap_lookup_erase_if split: option.splits)

lemma get_all_baselines_iff:
  assumes "tcache_inv c"
  shows "sb \<in> set (get_all_baselines c) \<longleftrightarrow>
    (\<exists>e b. map_of c (te_pid e, te_tid e) = Some e \<and> te_baseline e = Some b \<and> stored_baseline e = Some sb)"
proof
  assume "sb \<in> set (get_all_baselines c)"
  then obtain k e where mem: "(k, e) \<in> set c" and sb: "stored_baseline e = Some sb"
    by (auto simp: get_all_baselines_def map_filter_def)
  from mem assms have look: "map_of c k = Some e" by (simp add: tcache_inv_def umap_in_set_iff)
  then have "k = (te_pid e, te_tid e)" using tcache_invD [OF assms] by (simp add: entry_ok_def)
  with look sb show "\<exists>e b. map_of c (te_pid e, te_tid e) = Some e \<and> te_baseline e = Some b
      \<and> stored_baseline e = Some sb"
    by (auto simp: stored_baseline_def)
next
  assume "\<exists>e b. map_of c (te_pid e, te_tid e) = Some e \<and> te_baseline e = Some b
      \<and> stored_baseline e = Some sb"
  then show "sb \<in> set (get_all_baselines c)"
    by (force simp: get_all_baselines_def map_filter_def dest: map_of_SomeD)
qed

lemma get_all_baselines_Nil_iff:
  "get_all_baselines c = [] \<longleftrightarrow> (\<forall>(k, e) \<in> set c. te_baseline e = None)"
  by (auto simp: get_all_baselines_def map_filter_def filter_empty_conv stored_baseline_def)

end
