(* ===== verification/Thread_Matcher.thy ===== *)
theory Thread_Matcher
  imports File_Utils
begin

section \<open>The thread matcher (core/thread\_matcher.hpp)\<close>

text \<open>
  Compilation of the configured rules, the first-match search over process and thread
  rules, and the sixteen-bucket result cache in front of it. The regular expressions of
  \<open>std::regex\<close> are user data: the engine is the parameter \<open>rx\<close>, a compiler that may reject
  a pattern and a search that may throw, and nothing is assumed of it. \<open>std::hash\<close> is the
  parameter \<open>hash\<close>. Main results: for queries whose names hold no \<open>#\<close> the cached matcher
  answers what a fresh match would (\<open>match_all_fresh\<close>), and the cache stays bounded.
\<close>

record 'r regex_lib =
  rx_compile :: "string \<Rightarrow> bool \<Rightarrow> 'r option"
  rx_search :: "string \<Rightarrow> 'r \<Rightarrow> bool option"

subsection \<open>Rules\<close>

record 'r CompiledThreadRule =
  ct_rule :: ThreadRule
  ct_pattern :: "'r option"
  ct_source_rule_index :: nat
  ct_is_main_thread_rule :: bool

record 'r CompiledProcessRule =
  cp_rule :: ProcessRule
  cp_pattern :: 'r
  cp_thread_rules :: "'r CompiledThreadRule list"

record 'r matcher =
  mt_config :: Config
  mt_rules :: "'r CompiledProcessRule list"

record RegexPattern =
  rp_pattern :: string
  rp_case_insensitive :: bool

definition kMaxRegexLength :: nat where "kMaxRegexLength = 500"

definition parse_regex_pattern :: "string \<Rightarrow> RegexPattern" where
  "parse_regex_pattern pattern =
     (if take 4 pattern = ''(?i)'' then \<lparr>rp_pattern = drop 4 pattern, rp_case_insensitive = True\<rparr>
      else \<lparr>rp_pattern = pattern, rp_case_insensitive = False\<rparr>)"

definition kMetacharacters :: string where
  "kMetacharacters = [CHR 0x5C] @ ''^$.|?*+()[]{} ''"

text \<open>\<open>strchr\<close> also finds the terminating NUL of the list.\<close>

definition is_metachar :: "char \<Rightarrow> bool" where
  "is_metachar c \<longleftrightarrow> c \<noteq> CHR '' '' \<and> (c \<in> set kMetacharacters \<or> c = NUL)"

definition escape_regex_literal :: "string \<Rightarrow> string" where
  "escape_regex_literal value =
     concat (map (\<lambda>c. if is_metachar c then [CHR 0x5C, c] else [c]) value)"

definition expand_process_regex :: "string \<Rightarrow> string \<Rightarrow> string" where
  "expand_process_regex regex_str launcher =
     (if regex_str = ''/HOME_PACKAGE/'' then ''^'' @ escape_regex_literal launcher @ ''$'' else regex_str)"

definition expand_thread_regex :: "string \<Rightarrow> string \<Rightarrow> string" where
  "expand_thread_regex keyword process_name =
     (if keyword = ''/MAIN_THREAD/'' then process_name else keyword)"

definition compile_thread_rule ::
  "'r regex_lib \<Rightarrow> bool \<Rightarrow> nat \<times> ThreadRule \<Rightarrow> 'r CompiledThreadRule option" where
  "compile_thread_rule rx icase = (\<lambda>(i, tr).
     let re = parse_regex_pattern (tr_keyword tr)
     in if rp_pattern re = ''/MAIN_THREAD/''
        then Some \<lparr>ct_rule = tr, ct_pattern = rx_compile rx ''^$'' False, ct_source_rule_index = i,
               ct_is_main_thread_rule = True\<rparr>
        else (let tk = expand_thread_regex (rp_pattern re) []
              in if kMaxRegexLength < length tk then None
                 else case rx_compile rx tk (icase \<or> rp_case_insensitive re) of None \<Rightarrow> None
                   | Some p \<Rightarrow> Some \<lparr>ct_rule = tr, ct_pattern = Some p, ct_source_rule_index = i,
                                 ct_is_main_thread_rule = False\<rparr>))"

definition compile_process_rule ::
  "'r regex_lib \<Rightarrow> bool \<Rightarrow> string \<Rightarrow> ProcessRule \<Rightarrow> 'r CompiledProcessRule option" where
  "compile_process_rule rx icase launcher rule =
     (let re = parse_regex_pattern (pr_regex_str rule);
          expanded = expand_process_regex (rp_pattern re) launcher
      in if kMaxRegexLength < length expanded then None
         else case rx_compile rx expanded (icase \<or> rp_case_insensitive re) of None \<Rightarrow> None
           | Some p \<Rightarrow> Some \<lparr>cp_rule = rule, cp_pattern = p,
               cp_thread_rules = List.map_filter (compile_thread_rule rx icase)
                 (List.enumerate 0 (pr_thread_rules rule))\<rparr>)"

definition make_matcher :: "'r regex_lib \<Rightarrow> Config \<Rightarrow> 'r matcher" where
  "make_matcher rx cfg = \<lparr>mt_config = cfg,
     mt_rules = List.map_filter
       (compile_process_rule rx (sc_case_insensitive (sched cfg)) (launcher_package cfg))
       (sc_rules (sched cfg))\<rparr>"

subsection \<open>Matching without the cache\<close>

definition process_rule_matches ::
  "'r regex_lib \<Rightarrow> string \<Rightarrow> string \<Rightarrow> 'r CompiledProcessRule \<Rightarrow> bool" where
  "process_rule_matches rx proc_name cmdline cr =
     (case (if cmdline \<noteq> [] then rx_search rx cmdline (cp_pattern cr) else Some False) of
        None \<Rightarrow> False
      | Some cmdline_matched \<Rightarrow> (case rx_search rx proc_name (cp_pattern cr) of
          None \<Rightarrow> False
        | Some process_name_matched \<Rightarrow> cmdline_matched \<or> process_name_matched))"

definition thread_rule_matches ::
  "'r regex_lib \<Rightarrow> string \<Rightarrow> bool \<Rightarrow> 'r CompiledThreadRule \<Rightarrow> bool" where
  "thread_rule_matches rx thread_name is_main_thread ctr =
     (if ct_is_main_thread_rule ctr then is_main_thread
      else case ct_pattern ctr of None \<Rightarrow> False
        | Some p \<Rightarrow> (case rx_search rx thread_name p of None \<Rightarrow> False | Some b \<Rightarrow> b))"

definition effective_state_for :: "ProcessRule \<Rightarrow> ProcessState \<Rightarrow> ProcessState" where
  "effective_state_for rule actual =
     (if pr_pinned rule then TOP
      else if pr_topfore rule \<and> actual = FG then TOP else actual)"

definition assign_thread_rule :: "'r CompiledThreadRule \<Rightarrow> MatchResult \<Rightarrow> MatchResult" where
  "assign_thread_rule ctr r = r\<lparr>
     mr_affinity_class := tr_affinity_class (ct_rule ctr),
     mr_prio_class := tr_prio_class (ct_rule ctr),
     mr_uclamp_max := tr_uclamp_max (ct_rule ctr),
     mr_cpu_share := tr_cpu_share (ct_rule ctr),
     mr_enable_limit := tr_enable_limit (ct_rule ctr),
     mr_thread_rule_index := int (ct_source_rule_index ctr)\<rparr>"

definition match_uncached ::
  "'r regex_lib \<Rightarrow> 'r matcher \<Rightarrow> string \<Rightarrow> string \<Rightarrow> ProcessState \<Rightarrow> string \<Rightarrow> bool \<Rightarrow> MatchResult" where
  "match_uncached rx m proc_name thread_name actual_state cmdline is_main_thread =
     (case List.find (process_rule_matches rx proc_name cmdline) (mt_rules m) of
        None \<Rightarrow> new_result actual_state
      | Some cr \<Rightarrow>
          (let rule = cp_rule cr;
               r0 = (new_result actual_state)\<lparr>mr_matched := True,
                      mr_matched_rule_name := pr_name rule,
                      mr_effective_state := effective_state_for rule actual_state,
                      mr_pinned := pr_pinned rule, mr_topfore := pr_topfore rule\<rparr>;
               r1 = (case List.find (thread_rule_matches rx thread_name is_main_thread)
                            (cp_thread_rules cr) of
                       None \<Rightarrow> r0 | Some ctr \<Rightarrow> assign_thread_rule ctr r0)
           in r1\<lparr>mr_cpumask_name := get_cpumask_name_for_affinity (mt_config m)
                   (mr_affinity_class r1) (mr_effective_state r1)\<rparr>))"

subsection \<open>The result cache\<close>

record CachedResult =
  pe_matched_rule_name :: string
  pe_affinity_class :: string
  pe_prio_class :: string
  pe_cpumask_name :: string
  pe_uclamp_max :: "int option"
  pe_cpu_share :: "int option"
  pe_enable_limit :: bool
  pe_effective_state :: ProcessState
  pe_thread_rule_index :: int
  pe_pinned :: bool
  pe_topfore :: bool

record ProcessCacheEntry = CachedResult +
  pe_timestamp :: int

type_synonym ProcessCache = "(string, ProcessCacheEntry) umap list"

definition kMaxProcessCacheEntriesPerBucket :: nat where "kMaxProcessCacheEntriesPerBucket = 256"

definition kCacheBuckets :: nat where "kCacheBuckets = 16"

definition empty_process_cache :: ProcessCache where
  "empty_process_cache = replicate kCacheBuckets []"

definition state_code :: "ProcessState \<Rightarrow> int" where
  "state_code st = (case st of BG \<Rightarrow> 0 | FG \<Rightarrow> 1 | TOP \<Rightarrow> 2)"

definition match_cache_key :: "string \<Rightarrow> string \<Rightarrow> string \<Rightarrow> ProcessState \<Rightarrow> bool \<Rightarrow> string" where
  "match_cache_key proc_name thread_name cmdline st is_main_thread =
     proc_name @ ''#|#'' @ thread_name @ ''#|#'' @ cmdline @ ''#|#'' @ to_string (state_code st)
       @ ''#|#'' @ to_string (if is_main_thread then 1 else 0)"

definition get_cache_bucket :: "(string \<Rightarrow> nat) \<Rightarrow> string \<Rightarrow> nat" where
  "get_cache_bucket hash key = hash key mod kCacheBuckets"

definition cached_result_of :: "MatchResult \<Rightarrow> CachedResult" where
  "cached_result_of r = \<lparr>pe_matched_rule_name = mr_matched_rule_name r,
     pe_affinity_class = mr_affinity_class r, pe_prio_class = mr_prio_class r,
     pe_cpumask_name = mr_cpumask_name r, pe_uclamp_max = mr_uclamp_max r,
     pe_cpu_share = mr_cpu_share r, pe_enable_limit = mr_enable_limit r,
     pe_effective_state = mr_effective_state r, pe_thread_rule_index = mr_thread_rule_index r,
     pe_pinned = mr_pinned r, pe_topfore = mr_topfore r\<rparr>"

definition result_of_cached :: "CachedResult \<Rightarrow> MatchResult" where
  "result_of_cached e = \<lparr>mr_matched = True, mr_affinity_class = pe_affinity_class e,
     mr_prio_class = pe_prio_class e, mr_cpumask_name = pe_cpumask_name e,
     mr_uclamp_max = pe_uclamp_max e, mr_cpu_share = pe_cpu_share e,
     mr_enable_limit = pe_enable_limit e, mr_effective_state = pe_effective_state e,
     mr_matched_rule_name = pe_matched_rule_name e, mr_thread_rule_index = pe_thread_rule_index e,
     mr_pinned = pe_pinned e, mr_topfore = pe_topfore e\<rparr>"

definition on_bucket ::
  "(string \<Rightarrow> nat) \<Rightarrow> string \<Rightarrow> ((string, ProcessCacheEntry) umap \<Rightarrow> (string, ProcessCacheEntry) umap)
     \<Rightarrow> ProcessCache \<Rightarrow> ProcessCache" where
  "on_bucket hash key f c = c[get_cache_bucket hash key := f (c ! get_cache_bucket hash key)]"

definition cached_entry :: "(string \<Rightarrow> nat) \<Rightarrow> ProcessCache \<Rightarrow> string \<Rightarrow> ProcessCacheEntry option" where
  "cached_entry hash c key = map_of (c ! get_cache_bucket hash key) key"

definition erase_process_result :: "(string \<Rightarrow> nat) \<Rightarrow> string \<Rightarrow> ProcessCache \<Rightarrow> ProcessCache" where
  "erase_process_result hash key = on_bucket hash key (AList.delete key)"

definition bucket_insert ::
  "int \<Rightarrow> int \<Rightarrow> string \<Rightarrow> ProcessCacheEntry \<Rightarrow> (string, ProcessCacheEntry) umap
     \<Rightarrow> (string, ProcessCacheEntry) umap" where
  "bucket_insert ttl now key entry b =
     (let b1 = umap_erase_if (\<lambda>_ e. ttl \<le> elapsed_ms (pe_timestamp e) now) b;
          b2 = (if map_of b1 key = None \<and> kMaxProcessCacheEntriesPerBucket \<le> length b1 \<and> b1 \<noteq> []
                then AList.delete (fst (arg_min_list (\<lambda>p. pe_timestamp (snd p)) b1)) b1 else b1)
      in AList.update key entry b2)"

definition cache_process_result ::
  "(string \<Rightarrow> nat) \<Rightarrow> int \<Rightarrow> int \<Rightarrow> string \<Rightarrow> ProcessCacheEntry \<Rightarrow> ProcessCache \<Rightarrow> ProcessCache" where
  "cache_process_result hash ttl now key entry =
     on_bucket hash key (bucket_insert ttl now key entry)"

definition live_result ::
  "(string \<Rightarrow> nat) \<Rightarrow> int \<Rightarrow> int \<Rightarrow> string \<Rightarrow> ProcessCache \<Rightarrow> ProcessCacheEntry option" where
  "live_result hash ttl now key c = (case cached_entry hash c key of None \<Rightarrow> None
     | Some e \<Rightarrow> if elapsed_ms (pe_timestamp e) now < ttl then Some e else None)"

subsection \<open>Matching\<close>

type_synonym 'w match_st = "'w env \<times> ProcessCache"

definition match_now :: "'w os \<Rightarrow> ('w match_st, int) state" where
  "match_now os = zoom fst (\<lambda>e s. (e, snd s)) (sys (os_now os))"

definition process_ttl :: "'r matcher \<Rightarrow> int" where
  "process_ttl m = process_cache_ttl_ms (sc_timing (sched (mt_config m)))"

definition get_cached_process_result ::
  "'w os \<Rightarrow> (string \<Rightarrow> nat) \<Rightarrow> 'r matcher \<Rightarrow> string \<Rightarrow> ('w match_st, ProcessCacheEntry option) state" where
  "get_cached_process_result os hash m key = do {
     c \<leftarrow> gets snd;
     (case cached_entry hash c key of
        None \<Rightarrow> State_Monad.return None
      | Some e \<Rightarrow> do {
          now \<leftarrow> match_now os;
          (case live_result hash (process_ttl m) now key c of
             Some r \<Rightarrow> State_Monad.return (Some r)
           | None \<Rightarrow> do {
               modify (apsnd (erase_process_result hash key));
               State_Monad.return None }) })
   }"

definition match_impl ::
  "'w os \<Rightarrow> (string \<Rightarrow> nat) \<Rightarrow> 'r regex_lib \<Rightarrow> 'r matcher \<Rightarrow> string \<Rightarrow> string \<Rightarrow> ProcessState \<Rightarrow> string
     \<Rightarrow> bool \<Rightarrow> ('w match_st, MatchResult) state" where
  "match_impl os hash rx m proc_name thread_name actual_state cmdline is_main_thread =
     (let key = match_cache_key proc_name thread_name cmdline actual_state is_main_thread
      in if proc_name = dead_name
         then do {
           modify (apsnd (erase_process_result hash key));
           State_Monad.return (new_result actual_state) }
         else do {
           cached \<leftarrow> get_cached_process_result os hash m key;
           (case cached of
              Some e \<Rightarrow> State_Monad.return (result_of_cached (CachedResult.truncate e))
            | None \<Rightarrow>
                (let r = match_uncached rx m proc_name thread_name actual_state cmdline is_main_thread
                 in if mr_matched r \<and> mr_matched_rule_name r \<noteq> []
                    then do {
                      timestamp \<leftarrow> match_now os;
                      now \<leftarrow> match_now os;
                      modify (apsnd (cache_process_result hash (process_ttl m) now key
                        (CachedResult.extend (cached_result_of r) \<lparr>pe_timestamp = timestamp\<rparr>)));
                      State_Monad.return r }
                    else State_Monad.return r)) })"

definition match_thread ::
  "'w os \<Rightarrow> (string \<Rightarrow> nat) \<Rightarrow> 'r regex_lib \<Rightarrow> 'r matcher \<Rightarrow> string \<Rightarrow> string \<Rightarrow> ProcessState \<Rightarrow> int \<Rightarrow> int
     \<Rightarrow> string \<Rightarrow> ('w match_st, MatchResult) state" where
  "match_thread os hash rx m proc_name thread_name actual_state pid tid cmdline =
     match_impl os hash rx m proc_name thread_name actual_state cmdline (tid = pid)"

definition match_process_only ::
  "'w os \<Rightarrow> (string \<Rightarrow> nat) \<Rightarrow> 'r regex_lib \<Rightarrow> 'r matcher \<Rightarrow> string \<Rightarrow> string \<Rightarrow> ProcessState \<Rightarrow> int
     \<Rightarrow> string \<Rightarrow> ('w match_st, MatchResult) state" where
  "match_process_only os hash rx m proc_name thread_name actual_state pid cmdline =
     match_impl os hash rx m proc_name thread_name actual_state cmdline True"

subsection \<open>The cache is bounded and answers with recent results\<close>

definition bucket_ok :: "(string, ProcessCacheEntry) umap \<Rightarrow> bool" where
  "bucket_ok b \<longleftrightarrow> umap_ok b \<and> length b \<le> kMaxProcessCacheEntriesPerBucket"

definition pcache_ok :: "ProcessCache \<Rightarrow> bool" where
  "pcache_ok c \<longleftrightarrow> length c = kCacheBuckets \<and> list_all bucket_ok c"

lemma bucket_less [simp]: "get_cache_bucket hash key < kCacheBuckets"
  by (simp add: get_cache_bucket_def kCacheBuckets_def)

lemma empty_process_cache_ok [simp]: "pcache_ok empty_process_cache"
  by (simp add: pcache_ok_def empty_process_cache_def bucket_ok_def list_all_iff)

lemma cached_entry_empty [simp]: "cached_entry hash empty_process_cache key = None"
  by (simp add: cached_entry_def empty_process_cache_def get_cache_bucket_def kCacheBuckets_def)

lemma bucket_of_ok: "pcache_ok c \<Longrightarrow> bucket_ok (c ! get_cache_bucket hash key)"
  by (simp add: pcache_ok_def list_all_length)

lemma on_bucket_ok:
  assumes "pcache_ok c" "\<And>b. bucket_ok b \<Longrightarrow> bucket_ok (f b)"
  shows "pcache_ok (on_bucket hash key f c)"
proof -
  have "bucket_ok (f (c ! get_cache_bucket hash key))"
    using bucket_of_ok [OF assms(1)] assms(2) by blast
  with assms(1) show ?thesis
    by (auto simp: pcache_ok_def on_bucket_def list_all_iff dest: set_update_subset_insert [THEN subsetD])
qed

lemma cached_entry_on_bucket:
  assumes "pcache_ok c"
  shows "cached_entry hash (on_bucket hash key f c) k =
    (if get_cache_bucket hash k = get_cache_bucket hash key
     then map_of (f (c ! get_cache_bucket hash k)) k else cached_entry hash c k)"
  using assms by (auto simp: cached_entry_def on_bucket_def pcache_ok_def)

lemma bucket_delete_ok: "bucket_ok b \<Longrightarrow> bucket_ok (AList.delete key b)"
  using AList.length_delete_le [of key b] by (simp add: bucket_ok_def)

lemma bucket_insert_ok:
  assumes "bucket_ok b"
  shows "bucket_ok (bucket_insert ttl now key e b)"
proof -
  define b1 where "b1 = umap_erase_if (\<lambda>_ e. ttl \<le> elapsed_ms (pe_timestamp e) now) b"
  define old where "old = fst (arg_min_list (\<lambda>p. pe_timestamp (snd p)) b1)"
  let ?full = "map_of b1 key = None \<and> kMaxProcessCacheEntriesPerBucket \<le> length b1 \<and> b1 \<noteq> []"
  define b2 where "b2 = (if ?full then AList.delete old b1 else b1)"
  have "length b1 \<le> length b" by (simp add: b1_def umap_erase_if_def)
  then have ok1: "bucket_ok b1" using assms by (simp add: b1_def bucket_ok_def)
  then have ok2: "bucket_ok b2" by (simp add: b2_def bucket_delete_ok)
  have room: "length b2 < kMaxProcessCacheEntriesPerBucket" if "map_of b2 key = None"
  proof (cases ?full)
    case True
    then have "old \<in> fst ` set b1" by (simp add: old_def arg_min_list_in)
    then have "length (AList.delete old b1) < length b1" by (rule umap_length_delete_mem)
    with True ok1 show ?thesis by (simp add: b2_def bucket_ok_def)
  next
    case False
    with that show ?thesis by (auto simp: b2_def kMaxProcessCacheEntriesPerBucket_def)
  qed
  have "length (AList.update key e b2) \<le> kMaxProcessCacheEntriesPerBucket"
  proof (cases "map_of b2 key = None")
    case True
    with room umap_length_update_le [of key e b2] show ?thesis by simp
  next
    case False
    then show ?thesis using ok2 by (simp add: umap_length_update_mem umap_mem_iff bucket_ok_def)
  qed
  with ok2 have "bucket_ok (AList.update key e b2)" by (simp add: bucket_ok_def)
  then show ?thesis unfolding bucket_insert_def Let_def b2_def old_def b1_def .
qed

lemma bucket_insert_lookup: "map_of (bucket_insert ttl now key e b) key = Some e"
  by (simp add: bucket_insert_def Let_def)

lemma bucket_insert_other:
  assumes "umap_ok b" "k \<noteq> key" "map_of (bucket_insert ttl now key e b) k = Some x"
  shows "map_of b k = Some x"
  using assms
  by (auto simp: bucket_insert_def Let_def umap_lookup_erase_if split: if_splits option.splits)

lemma cache_process_result_ok: "pcache_ok c \<Longrightarrow> pcache_ok (cache_process_result hash ttl now key e c)"
  unfolding cache_process_result_def by (rule on_bucket_ok) (simp_all add: bucket_insert_ok)

lemma erase_process_result_ok: "pcache_ok c \<Longrightarrow> pcache_ok (erase_process_result hash key c)"
  unfolding erase_process_result_def by (rule on_bucket_ok) (simp_all add: bucket_delete_ok)

lemma cached_entry_cache:
  "pcache_ok c \<Longrightarrow> cached_entry hash (cache_process_result hash ttl now key e c) key = Some e"
  by (simp add: cache_process_result_def cached_entry_on_bucket bucket_insert_lookup)

lemma cached_entry_cache_other:
  "pcache_ok c \<Longrightarrow> k \<noteq> key \<Longrightarrow> cached_entry hash (cache_process_result hash ttl now key e c) k = Some x
   \<Longrightarrow> cached_entry hash c k = Some x"
  by (simp add: cache_process_result_def cached_entry_on_bucket split: if_splits)
    (metis bucket_insert_other bucket_of_ok bucket_ok_def cached_entry_def)

lemma cached_entry_erase:
  "pcache_ok c \<Longrightarrow> cached_entry hash (erase_process_result hash key c) k =
     (if k = key then None else cached_entry hash c k)"
  by (simp add: erase_process_result_def cached_entry_on_bucket) (simp add: cached_entry_def)

lemma entry_parts [simp]:
  "CachedResult.truncate (CachedResult.extend r \<lparr>pe_timestamp = t\<rparr>) = r"
  "pe_timestamp (CachedResult.extend r \<lparr>pe_timestamp = t\<rparr>) = t"
  by (simp_all add: CachedResult.defs)

interpretation match_cache: ttl_cache
  "\<lambda>c k. map_option (\<lambda>e. (CachedResult.truncate e, pe_timestamp e)) (cached_entry hash c k)"
  "\<lambda>now k c. map_option CachedResult.truncate (live_result hash ttl now k c)"
  "\<lambda>t k v. cache_process_result hash ttl now0 k (CachedResult.extend v \<lparr>pe_timestamp = t\<rparr>)"
  "erase_process_result hash" pcache_ok "\<lambda>now t. elapsed_ms t now < ttl" for hash ttl now0
  by unfold_locales
    (auto simp: cached_entry_cache cached_entry_erase live_result_def cache_process_result_ok
      erase_process_result_ok dest: cached_entry_cache_other split: option.splits if_splits)

subsection \<open>A cached answer is the answer of a fresh match\<close>

definition match_fresh ::
  "'r regex_lib \<Rightarrow> 'r matcher \<Rightarrow> string \<Rightarrow> string \<Rightarrow> ProcessState \<Rightarrow> string \<Rightarrow> bool \<Rightarrow> MatchResult" where
  "match_fresh rx m proc_name thread_name st cmdline main =
     (if proc_name = dead_name then new_result st
      else match_uncached rx m proc_name thread_name st cmdline main)"

definition plain_names :: "string \<Rightarrow> string \<Rightarrow> string \<Rightarrow> bool" where
  "plain_names p t c \<longleftrightarrow> CHR ''#'' \<notin> set p \<and> CHR ''#'' \<notin> set t \<and> CHR ''#'' \<notin> set c"

lemma hash_split:
  "CHR ''#'' \<notin> set a \<Longrightarrow> CHR ''#'' \<notin> set b \<Longrightarrow> a @ CHR ''#'' # x = b @ CHR ''#'' # y \<longleftrightarrow> a = b \<and> x = y"
proof (induction a arbitrary: b)
  case Nil
  then show ?case by (cases b) auto
next
  case (Cons c a)
  then show ?case by (cases b) auto
qed

lemma to_string_state_code: "CHR ''#'' \<notin> set (to_string (state_code st))"
proof -
  have "\<not> is_digit (CHR ''#'')" by (simp add: is_digit_def)
  then have "CHR ''#'' \<notin> set (show_nat n)" for n using show_nat_digits by blast
  then show ?thesis by (cases st) (simp_all add: state_code_def to_string_def)
qed

lemma state_code_inject [simp]: "state_code a = state_code b \<longleftrightarrow> a = b"
  by (cases a; cases b) (simp_all add: state_code_def)

lemma match_cache_key_inject:
  assumes "plain_names p t c" "plain_names p' t' c'"
    "match_cache_key p t c st main = match_cache_key p' t' c' st' main'"
  shows "p = p' \<and> t = t' \<and> c = c' \<and> st = st' \<and> main = main'"
  using assms to_string_state_code [of st] to_string_state_code [of st']
  by (auto simp: match_cache_key_def plain_names_def hash_split to_string_inject split: if_splits)

lemma cached_result_inverse: "mr_matched r \<Longrightarrow> result_of_cached (cached_result_of r) = r"
  by (simp add: result_of_cached_def cached_result_of_def)

definition pcache_sound ::
  "'r regex_lib \<Rightarrow> 'r matcher \<Rightarrow> (string \<Rightarrow> nat) \<Rightarrow> ProcessCache \<Rightarrow> bool" where
  "pcache_sound rx m hash c \<longleftrightarrow> pcache_ok c \<and>
     (\<forall>key e. cached_entry hash c key = Some e \<longrightarrow>
        (\<exists>p t st l main. plain_names p t l \<and> key = match_cache_key p t l st main \<and>
           result_of_cached (CachedResult.truncate e) = match_fresh rx m p t st l main))"

lemma pcache_sound_empty [simp]: "pcache_sound rx m hash empty_process_cache"
  by (simp add: pcache_sound_def)

lemma pcache_sound_erase: "pcache_sound rx m hash c \<Longrightarrow> pcache_sound rx m hash (erase_process_result hash key c)"
  by (auto simp: pcache_sound_def erase_process_result_ok cached_entry_erase)

lemma pcache_sound_cache:
  assumes "pcache_sound rx m hash c" "plain_names p t l" "key = match_cache_key p t l st main"
    "mr_matched r" "r = match_fresh rx m p t st l main"
  shows "pcache_sound rx m hash (cache_process_result hash ttl now key
           (CachedResult.extend (cached_result_of r) \<lparr>pe_timestamp = ts\<rparr>) c)"
proof -
  let ?e = "CachedResult.extend (cached_result_of r) \<lparr>pe_timestamp = ts\<rparr>"
  have ok: "pcache_ok c" using assms(1) by (simp add: pcache_sound_def)
  have new: "result_of_cached (CachedResult.truncate ?e) = match_fresh rx m p t st l main"
    using assms(4,5) by (simp add: cached_result_inverse)
  show ?thesis unfolding pcache_sound_def
  proof (intro conjI allI impI)
    fix k e
    assume look: "cached_entry hash (cache_process_result hash ttl now key ?e c) k = Some e"
    show "\<exists>p t st l main. plain_names p t l \<and> k = match_cache_key p t l st main \<and>
        result_of_cached (CachedResult.truncate e) = match_fresh rx m p t st l main"
    proof (cases "k = key")
      case True
      with look have "e = ?e" by (simp add: cached_entry_cache [OF ok])
      with True new assms(2,3) show ?thesis by blast
    next
      case False
      have "cached_entry hash c k = Some e" by (rule cached_entry_cache_other [OF ok False look])
      with assms(1) show ?thesis unfolding pcache_sound_def by blast
    qed
  qed (simp add: ok cache_process_result_ok)
qed

lemma pcache_sound_hit:
  assumes "pcache_sound rx m hash c" "plain_names p t l"
    "cached_entry hash c (match_cache_key p t l st main) = Some e"
  shows "result_of_cached (CachedResult.truncate e) = match_fresh rx m p t st l main"
proof -
  obtain p' t' st' l' main' where q: "plain_names p' t' l'"
      "match_cache_key p t l st main = match_cache_key p' t' l' st' main'"
      "result_of_cached (CachedResult.truncate e) = match_fresh rx m p' t' st' l' main'"
    using assms(1,3) unfolding pcache_sound_def by blast
  with match_cache_key_inject [OF assms(2) q(1,2)] show ?thesis by simp
qed

lemma cached_result_run:
  assumes sound: "pcache_sound rx m hash (snd s)" and plain: "plain_names p t l"
    and run: "run_state (get_cached_process_result os hash m (match_cache_key p t l st main)) s = (o1, s1)"
  shows "pcache_sound rx m hash (snd s1)"
    and "o1 = Some e \<Longrightarrow> result_of_cached (CachedResult.truncate e) = match_fresh rx m p t st l main"
proof -
  let ?key = "match_cache_key p t l st main"
  obtain now w where now: "run_state (os_now os) (world (fst s)) = (now, w)" by (meson surj_pair)
  have "(o1, s1) = (case cached_entry hash (snd s) ?key of None \<Rightarrow> (None, s)
      | Some e \<Rightarrow> (case live_result hash (process_ttl m) now ?key (snd s) of
          Some r \<Rightarrow> (Some r, ((fst s)\<lparr>world := w\<rparr>, snd s))
        | None \<Rightarrow> (None, ((fst s)\<lparr>world := w\<rparr>, erase_process_result hash ?key (snd s)))))"
    unfolding run [symmetric]
    by (simp add: get_cached_process_result_def match_now_def now split: option.split)
  then have "(snd s1 = snd s \<or> snd s1 = erase_process_result hash ?key (snd s)) \<and>
      (\<forall>e. o1 = Some e \<longrightarrow> cached_entry hash (snd s) ?key = Some e)"
    by (cases "cached_entry hash (snd s) ?key") (auto simp: live_result_def split: if_splits)
  then show "pcache_sound rx m hash (snd s1)"
    "o1 = Some e \<Longrightarrow> result_of_cached (CachedResult.truncate e) = match_fresh rx m p t st l main"
    using sound pcache_sound_erase pcache_sound_hit [OF sound plain] by metis+
qed

lemma match_impl_run:
  assumes sound: "pcache_sound rx m hash (snd s)" and plain: "plain_names p t l"
    and run: "run_state (match_impl os hash rx m p t st l main) s = (r, s')"
  shows "r = match_fresh rx m p t st l main \<and> pcache_sound rx m hash (snd s')"
proof (cases "p = dead_name")
  case True
  with run sound show ?thesis
    by (auto simp: match_impl_def match_fresh_def pcache_sound_erase)
next
  case False
  let ?key = "match_cache_key p t l st main"
  have fresh: "match_fresh rx m p t st l main = match_uncached rx m p t st l main"
    using False by (simp add: match_fresh_def)
  obtain o1 s1 where look: "run_state (get_cached_process_result os hash m ?key) s = (o1, s1)"
    by (meson surj_pair)
  note hit = cached_result_run [OF sound plain look]
  show ?thesis
  proof (cases o1)
    case (Some e)
    with run look False hit fresh show ?thesis by (simp add: match_impl_def Let_def)
  next
    case None
    define r0 where "r0 = match_uncached rx m p t st l main"
    have store: "mr_matched r0 \<Longrightarrow> pcache_sound rx m hash (cache_process_result hash ttl now ?key
        (CachedResult.extend (cached_result_of r0) \<lparr>pe_timestamp = ts\<rparr>) (snd s1))" for ttl now ts
      by (rule pcache_sound_cache [OF hit(1) plain refl]) (simp_all add: r0_def fresh)
    from run look False None hit(1) store show ?thesis unfolding fresh r0_def [symmetric]
      by (auto simp: match_impl_def Let_def match_now_def r0_def [symmetric]
          split: if_splits prod.splits)
  qed
qed

text \<open>A sequence of queries, and its answers when nothing is cached.\<close>

type_synonym query = "string \<times> string \<times> ProcessState \<times> string \<times> bool"

fun match_all ::
  "'w os \<Rightarrow> (string \<Rightarrow> nat) \<Rightarrow> 'r regex_lib \<Rightarrow> 'r matcher \<Rightarrow> query list \<Rightarrow> ('w match_st, MatchResult list) state" where
  "match_all os hash rx m [] = State_Monad.return []"
| "match_all os hash rx m ((p, t, st, l, main) # qs) = do {
     r \<leftarrow> match_impl os hash rx m p t st l main;
     rs \<leftarrow> match_all os hash rx m qs;
     State_Monad.return (r # rs) }"

definition plain_query :: "query \<Rightarrow> bool" where
  "plain_query q = (case q of (p, t, st, l, main) \<Rightarrow> plain_names p t l)"

definition fresh_answer :: "'r regex_lib \<Rightarrow> 'r matcher \<Rightarrow> query \<Rightarrow> MatchResult" where
  "fresh_answer rx m q = (case q of (p, t, st, l, main) \<Rightarrow> match_fresh rx m p t st l main)"

lemma match_all_fresh:
  assumes "pcache_sound rx m hash (snd s)" "list_all plain_query qs"
  shows "fst (run_state (match_all os hash rx m qs) s) = map (fresh_answer rx m) qs"
  using assms
proof (induction qs arbitrary: s)
  case (Cons q qs)
  obtain p t st l main where q: "q = (p, t, st, l, main)" by (metis surj_pair)
  obtain r s1 where run: "run_state (match_impl os hash rx m p t st l main) s = (r, s1)" by (metis surj_pair)
  have "plain_names p t l" using Cons.prems(2) by (simp add: q plain_query_def)
  from match_impl_run [OF Cons.prems(1) this run] Cons.IH [of s1] Cons.prems(2)
  show ?case by (simp add: q run fresh_answer_def case_prod_unfold)
qed simp

subsection \<open>First match\<close>

lemma find_first:
  "List.find P xs = Some x \<longleftrightarrow> (\<exists>i < length xs. x = xs ! i \<and> P x \<and> (\<forall>j < i. \<not> P (xs ! j)))"
  by (auto simp: find_Some_iff)

lemma match_uncached_state:
  "mr_effective_state (match_uncached rx m p t st l main) = TOP \<or>
   mr_effective_state (match_uncached rx m p t st l main) = st"
  by (auto simp: match_uncached_def new_result_def assign_thread_rule_def effective_state_for_def Let_def
      split: option.splits)

lemma match_uncached_mask:
  "mr_cpumask_name (match_uncached rx m p t st l main) =
     get_cpumask_name_for_affinity (mt_config m)
       (mr_affinity_class (match_uncached rx m p t st l main))
       (mr_effective_state (match_uncached rx m p t st l main))"
  by (simp add: match_uncached_def new_result_def get_cpumask_name_for_affinity_def Let_def
      split: option.splits)

subsection \<open>A literal escaped for the engine reads back as itself\<close>

fun unescape :: "string \<Rightarrow> string" where
  "unescape [] = []"
| "unescape [c] = [c]"
| "unescape (c # d # s) = (if c = CHR 0x5C then d # unescape s else c # unescape (d # s))"

lemma unescape_plain: "c \<noteq> CHR 0x5C \<Longrightarrow> unescape (c # s) = c # unescape s"
  by (cases s) simp_all

lemma is_metachar_backslash: "is_metachar (CHR 0x5C)"
  by (simp add: is_metachar_def kMetacharacters_def)

lemma unescape_escape: "unescape (escape_regex_literal s) = s"
proof (induction s)
  case (Cons c s)
  show ?case
  proof (cases "is_metachar c")
    case True
    with Cons show ?thesis by (simp add: escape_regex_literal_def)
  next
    case False
    then have "c \<noteq> CHR 0x5C" using is_metachar_backslash by blast
    with False Cons show ?thesis by (simp add: escape_regex_literal_def unescape_plain)
  qed
qed (simp add: escape_regex_literal_def)

subsection \<open>Keys with separators collide\<close>

text \<open>
  Without \<open>plain_names\<close> two different queries can share a key: a thread may call itself by a name
  that holds the separator.
\<close>

lemma match_cache_key_collides:
  "match_cache_key ''app'' ''x#|#y'' ''z'' st main = match_cache_key ''app'' ''x'' ''y#|#z'' st main"
  by (simp add: match_cache_key_def)

end
