(* ===== verification/Task_Queue.thy ===== *)
theory Task_Queue
  imports Config_Types "HOL-Library.Word"
begin

section \<open>The dispatch queue of the scan worker (core/scan\_worker.hpp)\<close>

text \<open>
  Tasks wait in a queue of keys with a map from each key to its newest task. A key that is
  already waiting keeps its place and only its task is replaced. The producers (the
  scanner), the worker and \<open>stop\<close> interleave under the queue's mutex, one critical section
  at a time: \<open>queue_step\<close> is that step relation. Main results: the two containers agree and
  are bounded in every reachable state (\<open>reachable_queue_ok\<close>), and the pair refines a
  queue of distinct keys with their newest tasks (\<open>enqueue_abs\<close>, \<open>take_abs\<close>).
\<close>

record DispatchTask =
  dt_pid :: int
  dt_tid :: int
  dt_process_start_time :: nat
  dt_thread_start_time :: nat
  dt_thread_name :: string
  dt_state :: ProcessState
  dt_cpuset_base :: string
  dt_proc_name :: string
  dt_cmdline :: string

type_synonym TaskKey = "int \<times> int \<times> nat \<times> nat"

definition task_key :: "DispatchTask \<Rightarrow> TaskKey" where
  "task_key t = (dt_pid t, dt_tid t, dt_process_start_time t, dt_thread_start_time t)"

text \<open>The hash of a key, from \<open>std::hash\<close> of its numbers; the wrap-around is that of \<open>size_t\<close>.\<close>

unbundle bit_operations_syntax

definition hash_combine :: "64 word \<Rightarrow> 64 word \<Rightarrow> 64 word" where
  "hash_combine h x = h XOR (x + 0x9e3779b9 + push_bit 6 h + drop_bit 2 h)"

definition task_key_hash :: "(int \<Rightarrow> 64 word) \<Rightarrow> (nat \<Rightarrow> 64 word) \<Rightarrow> TaskKey \<Rightarrow> nat" where
  "task_key_hash hash_int hash_u64 key = (case key of (pid, tid, process_start, thread_start) \<Rightarrow>
     unat (hash_combine (hash_combine (hash_combine (hash_int pid) (hash_int tid)) (hash_u64 process_start))
       (hash_u64 thread_start)))"

record WorkerQueue =
  wq_running :: bool
  wq_queue :: "TaskKey list"
  wq_pending :: "(TaskKey, DispatchTask) umap"

datatype EnqueueResult = Queued | Updated | QueueFull | Stopped

definition kMaxQueuedTasks :: nat where "kMaxQueuedTasks = 4096"

definition enqueue :: "DispatchTask \<Rightarrow> WorkerQueue \<Rightarrow> EnqueueResult \<times> WorkerQueue" where
  "enqueue task q =
     (let key = task_key task
      in if \<not> wq_running q then (Stopped, q)
         else if map_of (wq_pending q) key \<noteq> None
         then (Updated, q\<lparr>wq_pending := AList.update key task (wq_pending q)\<rparr>)
         else if kMaxQueuedTasks \<le> length (wq_queue q) then (QueueFull, q)
         else (Queued, q\<lparr>wq_queue := wq_queue q @ [key],
                         wq_pending := AList.update key task (wq_pending q)\<rparr>))"

definition start_worker :: "WorkerQueue \<Rightarrow> WorkerQueue" where
  "start_worker q = q\<lparr>wq_running := True\<rparr>"

definition stop_worker :: "WorkerQueue \<Rightarrow> WorkerQueue" where
  "stop_worker q = q\<lparr>wq_running := False, wq_queue := [], wq_pending := []\<rparr>"

text \<open>
  The critical section of one iteration of \<open>worker_loop\<close>, once the wait is over: leave the
  loop, go round again, or process a task.
\<close>

datatype iteration = LeaveLoop | GoRound | Process DispatchTask

definition worker_take :: "WorkerQueue \<Rightarrow> iteration \<times> WorkerQueue" where
  "worker_take q =
     (if \<not> wq_running q \<and> wq_queue q = [] then (LeaveLoop, q)
      else case wq_queue q of
        [] \<Rightarrow> (GoRound, q)
      | key # rest \<Rightarrow>
          (case map_of (wq_pending q) key of
             None \<Rightarrow> (GoRound, q\<lparr>wq_queue := rest\<rparr>)
           | Some task \<Rightarrow> (Process task,
               q\<lparr>wq_queue := rest, wq_pending := AList.delete key (wq_pending q)\<rparr>)))"

subsection \<open>Interleavings\<close>

definition empty_queue :: WorkerQueue where
  "empty_queue = \<lparr>wq_running = False, wq_queue = [], wq_pending = []\<rparr>"

inductive queue_step :: "WorkerQueue \<Rightarrow> WorkerQueue \<Rightarrow> bool" where
  step_start: "queue_step q (start_worker q)"
| step_enqueue: "queue_step q (snd (enqueue task q))"
| step_take: "queue_step q (snd (worker_take q))"
| step_halt: "queue_step q (q\<lparr>wq_running := False\<rparr>)"
| step_stop: "queue_step q (stop_worker q)"

inductive queue_reachable :: "WorkerQueue \<Rightarrow> bool" where
  queue_init: "queue_reachable empty_queue"
| queue_next: "queue_reachable q \<Longrightarrow> queue_step q q' \<Longrightarrow> queue_reachable q'"

inductive_cases queue_stepE: "queue_step q q'"

definition queue_ok :: "WorkerQueue \<Rightarrow> bool" where
  "queue_ok q \<longleftrightarrow> umap_ok (wq_pending q) \<and> distinct (wq_queue q) \<and>
     set (wq_queue q) = fst ` set (wq_pending q) \<and> length (wq_queue q) \<le> kMaxQueuedTasks \<and>
     (\<forall>(k, t) \<in> set (wq_pending q). k = task_key t)"

lemma pending_iff: "queue_ok q \<Longrightarrow> map_of (wq_pending q) k \<noteq> None \<longleftrightarrow> k \<in> set (wq_queue q)"
  by (simp add: queue_ok_def map_of_eq_None_iff)

lemma set_update_subset: "set (AList.update k v m) \<subseteq> insert (k, v) (set m)"
  by (induction m) auto

lemma enqueue_ok:
  assumes "queue_ok q"
  shows "queue_ok (snd (enqueue task q))"
proof -
  have mem: "map_of (wq_pending q) (task_key task) \<noteq> None \<longleftrightarrow> task_key task \<in> set (wq_queue q)"
    by (rule pending_iff [OF assms])
  have tasks: "\<forall>(k, t) \<in> set (AList.update (task_key task) task (wq_pending q)). k = task_key t"
    using set_update_subset [of "task_key task" task "wq_pending q"] assms
    by (auto simp: queue_ok_def)
  show ?thesis
  proof (cases "task_key task \<in> set (wq_queue q)")
    case True
    with assms have "insert (task_key task) (fst ` set (wq_pending q)) = fst ` set (wq_pending q)"
      by (simp add: queue_ok_def insert_absorb)
    with True mem tasks assms show ?thesis
      by (simp add: enqueue_def Let_def queue_ok_def umap_keys_update)
  next
    case False
    with mem have "map_of (wq_pending q) (task_key task) = None" by simp
    with False tasks assms show ?thesis
      by (auto simp: enqueue_def Let_def queue_ok_def umap_keys_update)
  qed
qed

lemma worker_take_ok:
  assumes "queue_ok q"
  shows "queue_ok (snd (worker_take q))"
proof (cases "wq_queue q")
  case Nil
  with assms show ?thesis by (simp add: worker_take_def)
next
  case (Cons key rest)
  with pending_iff [OF assms, of key] obtain task where task: "map_of (wq_pending q) key = Some task"
    by auto
  have "\<forall>(k, t) \<in> set (AList.delete key (wq_pending q)). k = task_key t"
    using assms by (auto simp: queue_ok_def AList.delete_eq)
  with Cons task assms show ?thesis
    by (auto simp: worker_take_def queue_ok_def umap_keys_delete)
qed

lemma queue_step_ok: "queue_step q q' \<Longrightarrow> queue_ok q \<Longrightarrow> queue_ok q'"
  by (erule queue_stepE) (simp_all add: enqueue_ok worker_take_ok, simp_all add: queue_ok_def start_worker_def stop_worker_def)

lemma reachable_queue_ok: "queue_reachable q \<Longrightarrow> queue_ok q"
proof (induction rule: queue_reachable.induct)
  case queue_init
  then show ?case by (simp add: queue_ok_def empty_queue_def)
next
  case (queue_next q q')
  then show ?case by (simp add: queue_step_ok)
qed

subsection \<open>Refinement: a queue of distinct keys with their newest tasks\<close>

definition abs_queue :: "WorkerQueue \<Rightarrow> (TaskKey \<times> DispatchTask) list" where
  "abs_queue q = map (\<lambda>k. (k, the (map_of (wq_pending q) k))) (wq_queue q)"

lemma update_map_keys:
  "distinct ks \<Longrightarrow> AList.update k v (map (\<lambda>k'. (k', f k')) ks) =
     (if k \<in> set ks then map (\<lambda>k'. (k', (f(k := v)) k')) ks else map (\<lambda>k'. (k', f k')) ks @ [(k, v)])"
  by (induction ks) auto

lemma abs_queue_update:
  assumes "queue_ok q"
  shows "AList.update k t (abs_queue q) =
    (if k \<in> set (wq_queue q)
     then map (\<lambda>k'. (k', the (map_of (AList.update k t (wq_pending q)) k'))) (wq_queue q)
     else abs_queue q @ [(k, t)])"
  using assms unfolding abs_queue_def queue_ok_def
  by (subst update_map_keys) auto

lemma enqueue_abs:
  assumes "queue_ok q"
  shows "abs_queue (snd (enqueue task q)) =
    (case fst (enqueue task q) of
       Queued \<Rightarrow> abs_queue q @ [(task_key task, task)]
     | Updated \<Rightarrow> AList.update (task_key task) task (abs_queue q)
     | QueueFull \<Rightarrow> abs_queue q | Stopped \<Rightarrow> abs_queue q)"
proof -
  note mem = pending_iff [OF assms, of "task_key task"]
  have "abs_queue (q\<lparr>wq_pending := AList.update (task_key task) task (wq_pending q)\<rparr>)
      = AList.update (task_key task) task (abs_queue q)" if "task_key task \<in> set (wq_queue q)"
    using that by (simp only: abs_queue_update [OF assms] if_True) (simp add: abs_queue_def)
  moreover have "abs_queue (q\<lparr>wq_queue := wq_queue q @ [task_key task],
        wq_pending := AList.update (task_key task) task (wq_pending q)\<rparr>) = abs_queue q @ [(task_key task, task)]"
    if "task_key task \<notin> set (wq_queue q)"
    using that by (auto simp: abs_queue_def)
  ultimately show ?thesis using mem by (auto simp: enqueue_def Let_def)
qed

lemma take_abs:
  assumes "queue_ok q" "abs_queue q = (k, task) # rest"
  shows "fst (worker_take q) = Process task \<and> abs_queue (snd (worker_take q)) = rest"
proof -
  obtain ks where q: "wq_queue q = k # ks" using assms(2) by (cases "wq_queue q") (auto simp: abs_queue_def)
  with pending_iff [OF assms(1), of k] assms(2) have "map_of (wq_pending q) k = Some task"
    by (auto simp: abs_queue_def)
  moreover have "k \<notin> set ks" using assms(1) q by (simp add: queue_ok_def)
  ultimately show ?thesis using assms(2) q by (auto simp: worker_take_def abs_queue_def)
qed

text \<open>
  The contract between the scanner and the worker: an accepted task joins the contents or
  replaces the waiting task of its key in place, and the worker gets the contents in
  order. So what is offered is delivered once per key, in the order the keys first came,
  with the newest task of each (\<open>delivered\<close>).
\<close>

locale coalescing_queue =
  fixes contents :: "'q \<Rightarrow> ('k \<times> 't) list"
    and put :: "'t \<Rightarrow> 'q \<Rightarrow> bool \<times> 'q"
    and get :: "'q \<Rightarrow> 't option \<times> 'q"
    and key :: "'t \<Rightarrow> 'k"
    and ok :: "'q \<Rightarrow> bool"
  assumes put_accepted: "ok q \<Longrightarrow> put t q = (True, q') \<Longrightarrow>
      contents q' = AList.update (key t) t (contents q) \<and> ok q'"
    and put_rejected: "ok q \<Longrightarrow> put t q = (False, q') \<Longrightarrow> contents q' = contents q \<and> ok q'"
    and get_first: "ok q \<Longrightarrow> contents q = (k, t) # r \<Longrightarrow>
      fst (get q) = Some t \<and> contents (snd (get q)) = r \<and> ok (snd (get q))"
begin

fun offer :: "'t list \<Rightarrow> 'q \<Rightarrow> 't list \<times> 'q" where
  "offer [] q = ([], q)"
| "offer (t # ts) q = (case put t q of (b, q1) \<Rightarrow>
     (case offer ts q1 of (acc, q2) \<Rightarrow> (if b then t # acc else acc, q2)))"

fun drain :: "nat \<Rightarrow> 'q \<Rightarrow> 't list" where
  "drain 0 q = []"
| "drain (Suc n) q = (case get q of (None, q1) \<Rightarrow> [] | (Some t, q1) \<Rightarrow> t # drain n q1)"

lemma offer_contents:
  "ok q \<Longrightarrow> offer ts q = (acc, q') \<Longrightarrow>
   ok q' \<and> contents q' = fold (\<lambda>t. AList.update (key t) t) acc (contents q)"
proof (induction ts arbitrary: q acc q')
  case (Cons t ts)
  obtain b q1 where put: "put t q = (b, q1)" by (meson surj_pair)
  obtain acc1 q2 where rest: "offer ts q1 = (acc1, q2)" by (meson surj_pair)
  show ?case
  proof (cases b)
    case True
    with put_accepted [OF Cons.prems(1)] put
    have "ok q1" "contents q1 = AList.update (key t) t (contents q)" by auto
    with Cons.IH [OF _ rest] Cons.prems(2) put rest True show ?thesis by auto
  next
    case False
    with put_rejected [OF Cons.prems(1)] put have "ok q1" "contents q1 = contents q" by auto
    with Cons.IH [OF _ rest] Cons.prems(2) put rest False show ?thesis by auto
  qed
qed simp

lemma drain_contents: "ok q \<Longrightarrow> drain (length (contents q)) q = map snd (contents q)"
proof (induction "contents q" arbitrary: q)
  case (Cons p r)
  obtain k t where p: "p = (k, t)" by (cases p)
  from get_first [OF Cons.prems, of k t r] Cons.hyps(2) p
  have first: "fst (get q) = Some t" "contents (snd (get q)) = r" "ok (snd (get q))" by auto
  obtain q1 where get: "get q = (Some t, q1)" using first(1) by (metis prod.collapse)
  with first have "drain (length (contents q1)) q1 = map snd (contents q1)" "contents q1 = r"
    using Cons.hyps(1) [of q1] by auto
  with get p Cons.hyps(2) [symmetric] show ?case by simp
qed simp

lemma delivered:
  assumes "ok q" "contents q = []" "offer ts q = (acc, q')"
  shows "drain (length (contents q')) q' = map snd (fold (\<lambda>t. AList.update (key t) t) acc [])"
  using offer_contents [OF assms(1,3)] drain_contents [of q'] assms(2) by simp

end

definition accepted :: "EnqueueResult \<Rightarrow> bool" where
  "accepted r \<longleftrightarrow> r = Queued \<or> r = Updated"

definition offer_task :: "DispatchTask \<Rightarrow> WorkerQueue \<Rightarrow> bool \<times> WorkerQueue" where
  "offer_task t q = (accepted (fst (enqueue t q)), snd (enqueue t q))"

definition next_task :: "WorkerQueue \<Rightarrow> DispatchTask option \<times> WorkerQueue" where
  "next_task q = (case worker_take q of (Process t, q') \<Rightarrow> (Some t, q') | (_, q') \<Rightarrow> (None, q'))"

lemma enqueue_accepted:
  assumes "queue_ok q" "accepted (fst (enqueue task q))"
  shows "abs_queue (snd (enqueue task q)) = AList.update (task_key task) task (abs_queue q)"
proof (cases "fst (enqueue task q)")
  case Queued
  then have "task_key task \<notin> set (wq_queue q)"
    using pending_iff [OF assms(1), of "task_key task"] by (auto simp: enqueue_def Let_def split: if_splits)
  with enqueue_abs [OF assms(1), of task] Queued show ?thesis by (simp add: abs_queue_update [OF assms(1)])
qed (use assms enqueue_abs [OF assms(1), of task] in \<open>simp_all add: accepted_def\<close>)

lemma enqueue_rejected:
  assumes "queue_ok q" "\<not> accepted (fst (enqueue task q))"
  shows "abs_queue (snd (enqueue task q)) = abs_queue q"
  using enqueue_abs [OF assms(1), of task] assms(2)
  by (cases "fst (enqueue task q)") (simp_all add: accepted_def)

lemma next_task_first:
  assumes "queue_ok q" "abs_queue q = (k, t) # r"
  shows "fst (next_task q) = Some t \<and> abs_queue (snd (next_task q)) = r \<and> queue_ok (snd (next_task q))"
proof -
  obtain i q' where take: "worker_take q = (i, q')" by (meson surj_pair)
  with take_abs [OF assms] worker_take_ok [OF assms(1)] show ?thesis by (simp add: next_task_def)
qed

interpretation dispatch: coalescing_queue abs_queue offer_task next_task task_key queue_ok
  by unfold_locales
    (auto simp: offer_task_def enqueue_accepted enqueue_rejected enqueue_ok next_task_first)

text \<open>The same runs over the model's own operations.\<close>

fun offer_all :: "DispatchTask list \<Rightarrow> WorkerQueue \<Rightarrow> DispatchTask list \<times> WorkerQueue" where
  "offer_all [] q = ([], q)"
| "offer_all (t # ts) q =
     (case offer_all ts (snd (enqueue t q)) of
        (acc, q2) \<Rightarrow> (if accepted (fst (enqueue t q)) then t # acc else acc, q2))"

fun drain_all :: "nat \<Rightarrow> WorkerQueue \<Rightarrow> DispatchTask list" where
  "drain_all 0 q = []"
| "drain_all (Suc n) q = (case worker_take q of
       (Process t, q1) \<Rightarrow> t # drain_all n q1
     | _ \<Rightarrow> [])"

lemma offer_all_eq: "offer_all ts q = dispatch.offer ts q"
  by (induction ts arbitrary: q) (simp_all add: offer_task_def split: prod.splits)

lemma drain_all_eq: "drain_all n q = dispatch.drain n q"
  by (induction n arbitrary: q) (auto simp: next_task_def split: prod.splits iteration.splits option.splits)

lemma abs_queue_length [simp]: "length (abs_queue q) = length (wq_queue q)"
  by (simp add: abs_queue_def)

lemma started_queue_ok: "queue_ok (start_worker empty_queue)" "abs_queue (start_worker empty_queue) = []"
  by (simp_all add: queue_ok_def start_worker_def empty_queue_def abs_queue_def)

end
