(* ===== verification/Runtime.thy ===== *)
theory Runtime
  imports Cpu_Mask Cgroup_State Thread_Cache Thread_Matcher Task_Queue
begin

section \<open>The state the dispatcher works on\<close>

text \<open>
  \<open>rt\<close> puts the state of the components side by side: the environment of the file layer
  (world, file cache, cgroup cache), the cpuset setter's group checks, the matcher's result
  cache, the thread cache and the scan worker's schedule maps. An operation of a component
  runs on its own part through \<open>in_env\<close>, \<open>in_matcher\<close> or \<open>on_cache\<close>. One worker's task is
  modelled as one uninterrupted run over this state; everything outside the process is the
  arbitrary kernel. \<open>concerns tid\<close> is the set of effects that touch only thread \<open>tid\<close>.
\<close>

record ScheduleTimes =
  last_schedule_time :: "(TaskKey, int) umap"
  last_schedule_state :: "(TaskKey, ProcessState) umap"
  next_cgroup_check_time :: "(TaskKey, int) umap"
  schedule_counter :: nat
  cgroup_check_counter :: nat

record 'w rt =
  rt_env :: "'w env"
  group_checks :: "(string, bool \<times> int) umap"
  process_cache :: ProcessCache
  tcache :: ThreadCache
  schedule :: ScheduleTimes

definition in_env :: "('w env, 'a) state \<Rightarrow> ('w rt, 'a) state" where
  "in_env m = zoom rt_env (\<lambda>e s. s\<lparr>rt_env := e\<rparr>) m"

definition in_matcher :: "('w match_st, 'a) state \<Rightarrow> ('w rt, 'a) state" where
  "in_matcher m = zoom (\<lambda>s. (rt_env s, process_cache s))
     (\<lambda>(e, c) s. s\<lparr>rt_env := e, process_cache := c\<rparr>) m"

definition on_cache :: "(ThreadCache \<Rightarrow> ThreadCache) \<Rightarrow> ('w rt, unit) state" where
  "on_cache f = modify (\<lambda>s. s\<lparr>tcache := f (tcache s)\<rparr>)"

subsection \<open>Frames\<close>

lemma keeps_tcache_in_env [keeps_rules]: "keeps tcache (in_env m)"
  unfolding in_env_def by (rule keeps_zoom) simp

lemma keeps_schedule_in_env [keeps_rules]: "keeps schedule (in_env m)"
  unfolding in_env_def by (rule keeps_zoom) simp

lemma keeps_groups_in_env [keeps_rules]: "keeps group_checks (in_env m)"
  unfolding in_env_def by (rule keeps_zoom) simp

lemma keeps_tcache_in_matcher [keeps_rules]: "keeps tcache (in_matcher m)"
  unfolding in_matcher_def by (rule keeps_zoom) (simp add: case_prod_unfold)

lemma keeps_schedule_in_matcher [keeps_rules]: "keeps schedule (in_matcher m)"
  unfolding in_matcher_def by (rule keeps_zoom) (simp add: case_prod_unfold)

lemma run_in_env [simp]:
  "run_state (in_env m) s = (case run_state m (rt_env s) of (a, e) \<Rightarrow> (a, s\<lparr>rt_env := e\<rparr>))"
  by (simp add: in_env_def)

lemma run_on_cache [simp]: "run_state (on_cache f) s = ((), s\<lparr>tcache := f (tcache s)\<rparr>)"
  by (simp add: on_cache_def)

subsection \<open>Effects\<close>

definition rt_effects :: "('w \<times> effect list) rt \<Rightarrow> effect list" where
  "rt_effects s = effects (rt_env s)"

definition concerns :: "int \<Rightarrow> effect \<Rightarrow> bool" where
  "concerns tid e = (case e of
       EOpenWrite path mode \<Rightarrow> mode = ControlFile \<and> suffix ''/tasks'' path
     | EWrite fd s \<Rightarrow> suffix s (to_string tid)
     | EMkdir path \<Rightarrow> False
     | ESetAffinity t m \<Rightarrow> t = tid
     | ESetScheduler t policy prio \<Rightarrow> t = tid
     | ESetPriority t nice \<Rightarrow> t = tid)"

lemma concerns_simps [simp]:
  "concerns tid (EOpenWrite path mode) = (mode = ControlFile \<and> suffix ''/tasks'' path)"
  "concerns tid (EWrite fd s) = suffix s (to_string tid)"
  "concerns tid (EMkdir path) = False"
  "concerns tid (ESetAffinity t m) = (t = tid)"
  "concerns tid (ESetScheduler t policy prio) = (t = tid)"
  "concerns tid (ESetPriority t nice) = (t = tid)"
  by (simp_all add: concerns_def)

lemma emits_in_env [emits_rules]: "emits effects P m \<Longrightarrow> emits rt_effects P (in_env m)"
  unfolding in_env_def by (rule emits_zoom) (simp_all add: rt_effects_def)

lemma keeps_effects_in_env [keeps_rules]: "keeps effects m \<Longrightarrow> keeps rt_effects (in_env m)"
  by (simp add: keeps_def in_env_def rt_effects_def split: prod.splits) (metis snd_conv)

lemma emits_on_cache [emits_rules]: "emits rt_effects P (on_cache f)"
  unfolding on_cache_def by (rule emits_modify) (simp add: rt_effects_def)

lemma emits_quiet [emits_rules]:
  "emits effects P (read_file (traced os) path)"
  "emits effects P (file_exists (traced os) path)"
  "emits effects P (dir_exists (traced os) path)"
  "emits effects P (get_process_start_time (traced os) pid)"
  "emits effects P (get_thread_start_time (traced os) pid tid)"
  "emits effects P (is_thread_in_process (traced os) pid tid)"
  "emits effects P (identity_matches (traced os) pid tid ps ts)"
  "emits effects P (sys (quiet m))"
  by (rule emits_keeps, rule keeps_rules)+

lemma emits_cpu_queries [emits_rules]:
  "emits effects P (get_affinity_from_status (traced os) tid)"
  "emits effects P (is_affinity_changed (traced os) tid cpus)"
  "emits effects P (get_thread_cgroup_paths_uncached (traced os) pid tid)"
  unfolding get_affinity_from_status_def is_affinity_changed_def get_thread_cgroup_paths_uncached_def
    traced_quiet_calls
  by (intro emits_rules)+

lemma emits_set_affinity [emits_rules]:
  "emits effects (concerns tid) (set_affinity_set (traced os) tid m)"
  "emits effects (concerns tid) (set_affinity_cpus (traced os) tid cpus)"
  unfolding set_affinity_cpus_def set_affinity_set_def traced_logged_calls
  by (intro emits_rules; simp)+

lemma emits_write_tasks [emits_rules]:
  "emits effects (concerns tid) (write_kernel_control_file (traced os) (path @ ''/tasks'') (to_string tid))"
  "emits effects (concerns tid) (write_cgroup_tasks (traced os) path tid)"
  unfolding write_cgroup_tasks_def write_kernel_control_file_def
  by (rule emits_write_open_file; simp add: suffix_def)+

lemma keeps_matcher [keeps_rules]: "keeps (\<lambda>s. effects (fst s)) (match_impl (traced os) hash rx m p t st l main)"
proof -
  have now: "keeps (\<lambda>s. effects (fst s)) (match_now (traced os))"
    by (simp add: keeps_def match_now_def effects_def quiet_def split: prod.splits)
  have modify: "keeps (\<lambda>s. effects (fst s)) (modify (apsnd f))" for f
    by (simp add: keeps_def)
  have cached: "keeps (\<lambda>s. effects (fst s)) (get_cached_process_result (traced os) hash m key)" for key
    unfolding get_cached_process_result_def by (intro keeps_rules now modify)
  show ?thesis
    unfolding match_impl_def by (intro keeps_rules now modify cached)
qed

lemma keeps_effects_in_matcher:
  assumes "keeps (\<lambda>s. effects (fst s)) m"
  shows "keeps rt_effects (in_matcher m)"
proof (rule keepsI)
  fix s a s'
  assume run: "run_state (in_matcher m) s = (a, s')"
  obtain b e c where m: "run_state m (rt_env s, process_cache s) = (b, (e, c))" by (metis surj_pair)
  from keepsD [OF assms m] run m show "rt_effects s' = rt_effects s"
    by (auto simp: in_matcher_def rt_effects_def)
qed

lemma emits_in_matcher [emits_rules]:
  "emits rt_effects P (in_matcher (match_impl (traced os) hash rx m p t st l main))"
  by (intro emits_keeps keeps_effects_in_matcher keeps_matcher)

end
