(* ===== verification/Cgroup_Init.thy ===== *)
theory Cgroup_Init
  imports Cpu_Mask
begin

section \<open>Preparing the cgroups (core/cgroup\_init.hpp)\<close>

text \<open>
  Before threads are moved, \<open>init\<close> creates a cpuset group per configured mask and a cpuctl
  group per limited rule, and sets their control files. All writes go through a
  \<open>ControlFileTransaction\<close> that remembers what a file held before, so that a failure puts the old
  values back. The transaction and the file access are the record \<open>ct_st\<close>. Main results, on a
  kernel whose control files keep what is written (\<open>control_law\<close>): a failed initialisation whose
  rollback succeeds leaves every control file of the groups in use as it was
  (\<open>prepare_rolled_back\<close>), and a successful one has set every mask (\<open>prepare_sets_masks\<close>).
\<close>

subsection \<open>The transaction\<close>

record ControlFileTransaction =
  tx_finalized :: bool
  tx_original_values :: "(string, string) umap"
  tx_write_order :: "string list"

definition new_transaction :: ControlFileTransaction where
  "new_transaction = \<lparr>tx_finalized = False, tx_original_values = [], tx_write_order = []\<rparr>"

record 'w ct_st =
  ct_env :: "'w env"
  ct_tx :: ControlFileTransaction

definition ct_file :: "('w env, 'a) state \<Rightarrow> ('w ct_st, 'a) state" where
  "ct_file m = zoom ct_env (\<lambda>e s. s\<lparr>ct_env := e\<rparr>) m"

definition record_original :: "string \<Rightarrow> string \<Rightarrow> ControlFileTransaction \<Rightarrow> ControlFileTransaction" where
  "record_original path original t = t\<lparr>tx_original_values := AList.update path original (tx_original_values t),
     tx_write_order := tx_write_order t @ [path]\<rparr>"

definition snapshot_file :: "'w os \<Rightarrow> string \<Rightarrow> ('w ct_st, bool) state" where
  "snapshot_file os path = do {
     known \<leftarrow> gets (\<lambda>s. map_of (tx_original_values (ct_tx s)) path);
     if known \<noteq> None then State_Monad.return True
     else do {
       original \<leftarrow> ct_file (read_file os path);
       if original = [] then State_Monad.return False
       else do {
         modify (\<lambda>s. s\<lparr>ct_tx := record_original path original (ct_tx s)\<rparr>);
         State_Monad.return True } } }"

definition tx_write :: "'w os \<Rightarrow> string \<Rightarrow> string \<Rightarrow> bool \<Rightarrow> ('w ct_st, bool) state" where
  "tx_write os path value rollback_required = do {
     ready \<leftarrow> (if rollback_required then snapshot_file os path else State_Monad.return True);
     if ready then ct_file (write_kernel_control_file os path value) else State_Monad.return False }"

fun rollback_files :: "'w os \<Rightarrow> (string, string) umap \<Rightarrow> string list \<Rightarrow> ('w ct_st, bool) state" where
  "rollback_files os originals [] = State_Monad.return True"
| "rollback_files os originals (path # paths) = (case map_of originals path of
     None \<Rightarrow> rollback_files os originals paths
   | Some original \<Rightarrow> do {
       ok \<leftarrow> ct_file (write_kernel_control_file os path original);
       rest \<leftarrow> rollback_files os originals paths;
       State_Monad.return (ok \<and> rest) })"

definition rollback :: "'w os \<Rightarrow> ('w ct_st, bool) state" where
  "rollback os = do {
     t \<leftarrow> gets ct_tx;
     if tx_finalized t then State_Monad.return True
     else do {
       modify (\<lambda>s. s\<lparr>ct_tx := (ct_tx s)\<lparr>tx_finalized := True\<rparr>\<rparr>);
       rollback_files os (tx_original_values t) (rev (tx_write_order t)) } }"

definition commit :: "('w ct_st, unit) state" where
  "commit = modify (\<lambda>s. s\<lparr>ct_tx := (ct_tx s)\<lparr>tx_finalized := True\<rparr>\<rparr>)"

subsection \<open>What a configuration needs\<close>

definition resolve_limit_value :: "int option \<Rightarrow> string \<Rightarrow> string" where
  "resolve_limit_value configured inherited =
     (case configured of Some n \<Rightarrow> to_string n | None \<Rightarrow> inherited)"

definition cpuset_group_requires_rollback :: "string \<Rightarrow> string \<Rightarrow> bool" where
  "cpuset_group_requires_rollback cpus mems \<longleftrightarrow> cpus \<noteq> [] \<and> mems \<noteq> []"

definition requires_cpuset :: "Config \<Rightarrow> bool" where
  "requires_cpuset config \<longleftrightarrow> (\<exists>rule \<in> set (sc_rules (sched config)). \<exists>tr \<in> set (pr_thread_rules rule).
     tr_affinity_class tr \<noteq> [] \<and> tr_affinity_class tr \<noteq> ''auto'' \<and>
     (case map_of (sc_affinity (sched config)) (tr_affinity_class tr) of None \<Rightarrow> False
      | Some a \<Rightarrow> as_bg a \<noteq> [] \<or> as_fg a \<noteq> [] \<or> as_top a \<noteq> []))"

definition requires_cpuctl :: "Config \<Rightarrow> bool" where
  "requires_cpuctl config \<longleftrightarrow> (\<exists>rule \<in> set (sc_rules (sched config)).
     \<exists>tr \<in> set (pr_thread_rules rule). tr_enable_limit tr)"

definition cpuset_parent_path :: string where
  "cpuset_parent_path = ''/dev/cpuset/top-app''"

definition mask_group_path :: "string \<Rightarrow> string" where
  "mask_group_path mask_name = cpuset_parent_path @ ''/ReUperf_'' @ mask_name"

subsection \<open>Groups that are no longer configured\<close>

fun child_directories :: "'w os \<Rightarrow> string \<Rightarrow> dirent list \<Rightarrow> ('w env, string set) state" where
  "child_directories os path [] = State_Monad.return {}"
| "child_directories os path (entry # entries) = do {
     is_dir \<leftarrow> (if d_name entry = ''.'' \<or> d_name entry = ''..'' then State_Monad.return False
       else case d_type entry of DT_DIR \<Rightarrow> State_Monad.return True
         | DT_UNKNOWN \<Rightarrow> dir_exists os (path @ ''/'' @ d_name entry)
         | DT_OTHER \<Rightarrow> State_Monad.return False);
     names \<leftarrow> child_directories os path entries;
     State_Monad.return (if is_dir then insert (d_name entry) names else names) }"

definition list_child_directories :: "'w os \<Rightarrow> string \<Rightarrow> ('w env, string set) state" where
  "list_child_directories os path = do {
     dir \<leftarrow> sys (os_opendir os path);
     case dir of None \<Rightarrow> State_Monad.return {} | Some d \<Rightarrow> child_directories os path (ds_entries d) }"

text \<open>The groups \<open>report_stale_groups\<close> warns of; it changes nothing.\<close>

definition report_stale_groups :: "'w os \<Rightarrow> Config \<Rightarrow> ('w env, string set \<times> string set \<times> string set) state" where
  "report_stale_groups os config = do {
     children \<leftarrow> list_child_directories os cpuset_parent_path;
     legacy \<leftarrow> list_child_directories os ''/dev/cpuset'';
     ctl \<leftarrow> list_child_directories os ''/dev/cpuctl/ReUperf'';
     State_Monad.return
       ({name \<in> children. str_starts name ''ReUperf_'' \<and>
           name \<notin> (\<lambda>p. ''ReUperf_'' @ fst p) ` set (sc_cpumask (sched config))},
        {name \<in> legacy. str_starts name ''ReUperf_''},
        {name \<in> ctl. name \<notin> pr_name ` set (sc_rules (sched config))}) }"

subsection \<open>Cpuset groups\<close>

text \<open>\<open>usleep\<close> between the attempts is compiled on Android only and has no effect on the files.\<close>

fun file_attempts :: "'w os \<Rightarrow> string \<Rightarrow> nat \<Rightarrow> ('w env, bool) state" where
  "file_attempts os path 0 = State_Monad.return False"
| "file_attempts os path (Suc n) = do {
     there \<leftarrow> file_exists os path;
     if there then State_Monad.return True else file_attempts os path n }"

definition ensure_cgroup_file_exists :: "'w os \<Rightarrow> string \<Rightarrow> ('w env, bool) state" where
  "ensure_cgroup_file_exists os path = file_attempts os path 5"

definition group_was_ready :: "'w os \<Rightarrow> string \<Rightarrow> ('w env, bool) state" where
  "group_was_ready os child_path = do {
     there \<leftarrow> dir_exists os child_path;
     if \<not> there then State_Monad.return False
     else do {
       cpus \<leftarrow> read_file os (child_path @ ''/cpus'');
       mems \<leftarrow> read_file os (child_path @ ''/mems'');
       State_Monad.return (cpuset_group_requires_rollback cpus mems) } }"

definition cpuset_files_exist :: "'w os \<Rightarrow> string \<Rightarrow> ('w env, bool) state" where
  "cpuset_files_exist os child_path = do {
     cpus \<leftarrow> ensure_cgroup_file_exists os (child_path @ ''/cpus'');
     if \<not> cpus then State_Monad.return False
     else do {
       mems \<leftarrow> ensure_cgroup_file_exists os (child_path @ ''/mems'');
       if \<not> mems then State_Monad.return False
       else ensure_cgroup_file_exists os (child_path @ ''/tasks'') } }"

definition clear_exclusive :: "'w os \<Rightarrow> string \<Rightarrow> bool \<Rightarrow> ('w ct_st, bool) state" where
  "clear_exclusive os control_file was_ready = do {
     there \<leftarrow> ct_file (file_exists os control_file);
     if there then tx_write os control_file ''0'' was_ready else State_Monad.return True }"

text \<open>One mask of the loop; the value is false where the code counts a failure.\<close>

definition init_mask :: "'w os \<Rightarrow> string \<Rightarrow> string \<times> int list \<Rightarrow> ('w ct_st, bool) state" where
  "init_mask os parent_mems m = do {
     let child_path = mask_group_path (fst m);
     was_ready \<leftarrow> ct_file (group_was_ready os child_path);
     made \<leftarrow> ct_file (mkdir_recursive os child_path);
     if \<not> made then State_Monad.return False
     else do {
       files \<leftarrow> ct_file (cpuset_files_exist os child_path);
       if \<not> files \<or> cpus_to_string (snd m) = [] then State_Monad.return False
       else do {
         cpus_set \<leftarrow> tx_write os (child_path @ ''/cpus'') (cpus_to_string (snd m)) was_ready;
         if \<not> cpus_set then State_Monad.return False
         else do {
           mems_set \<leftarrow> tx_write os (child_path @ ''/mems'') parent_mems was_ready;
           if \<not> mems_set then State_Monad.return False
           else do {
             cpu \<leftarrow> clear_exclusive os (child_path @ ''/cpu_exclusive'') was_ready;
             mem \<leftarrow> clear_exclusive os (child_path @ ''/mem_exclusive'') was_ready;
             State_Monad.return (cpu \<and> mem) } } } } }"

fun init_masks :: "'w os \<Rightarrow> string \<Rightarrow> (string \<times> int list) list \<Rightarrow> ('w ct_st, bool) state" where
  "init_masks os parent_mems [] = State_Monad.return True"
| "init_masks os parent_mems (m # ms) = do {
     ok \<leftarrow> init_mask os parent_mems m;
     rest \<leftarrow> init_masks os parent_mems ms;
     State_Monad.return (ok \<and> rest) }"

definition init_cpuset :: "'w os \<Rightarrow> Config \<Rightarrow> ('w ct_st, bool) state" where
  "init_cpuset os config =
     (if \<not> requires_cpuset config then State_Monad.return True
      else do {
        root \<leftarrow> ct_file (dir_exists os ''/dev/cpuset'');
        if \<not> root then State_Monad.return False
        else do {
          base \<leftarrow> ct_file (dir_exists os cpuset_parent_path);
          usable \<leftarrow> (if base then ct_file (file_exists os (cpuset_parent_path @ ''/cpus''))
                    else State_Monad.return False);
          if \<not> usable then State_Monad.return False
          else do {
            parent_cpus \<leftarrow> ct_file (read_file os (cpuset_parent_path @ ''/cpus''));
            if parent_cpus = [] then State_Monad.return False
            else do {
              parent_mems \<leftarrow> ct_file (read_file os (cpuset_parent_path @ ''/mems''));
              if parent_mems = [] then State_Monad.return False
              else init_masks os parent_mems (sc_cpumask (sched config)) } } } })"

subsection \<open>Cpuctl groups\<close>

definition write_optional_limit ::
  "'w os \<Rightarrow> string \<Rightarrow> string \<Rightarrow> string \<Rightarrow> int option \<Rightarrow> ('w ct_st, bool) state" where
  "write_optional_limit os child_path parent_path filename configured = do {
     there \<leftarrow> ct_file (file_exists os (child_path @ ''/'' @ filename));
     if \<not> there then State_Monad.return (configured = None)
     else do {
       inherited \<leftarrow> (if configured = None then ct_file (read_file os (parent_path @ ''/'' @ filename))
                    else State_Monad.return []);
       if configured = None \<and> inherited = [] then State_Monad.return False
       else tx_write os (child_path @ ''/'' @ filename) (resolve_limit_value configured inherited) True } }"

definition limit_group_path :: "string \<Rightarrow> nat \<Rightarrow> string" where
  "limit_group_path rule_path i = rule_path @ ''/A'' @ to_string (int i + 1)"

definition init_limit :: "'w os \<Rightarrow> string \<Rightarrow> nat \<Rightarrow> ThreadRule \<Rightarrow> ('w ct_st, bool) state" where
  "init_limit os rule_path i tr =
     (if \<not> tr_enable_limit tr then State_Monad.return True
      else do {
        let sub_path = limit_group_path rule_path i;
        made \<leftarrow> ct_file (mkdir_recursive os sub_path);
        if \<not> made then State_Monad.return False
        else do {
          uclamp \<leftarrow> write_optional_limit os sub_path rule_path ''cpu.uclamp.max'' (tr_uclamp_max tr);
          shares \<leftarrow> write_optional_limit os sub_path rule_path ''cpu.shares'' (tr_cpu_share tr);
          State_Monad.return (uclamp \<and> shares) } })"

fun init_limits :: "'w os \<Rightarrow> string \<Rightarrow> nat \<Rightarrow> ThreadRule list \<Rightarrow> ('w ct_st, bool) state" where
  "init_limits os rule_path i [] = State_Monad.return True"
| "init_limits os rule_path i (tr # trs) = do {
     ok \<leftarrow> init_limit os rule_path i tr;
     rest \<leftarrow> init_limits os rule_path (Suc i) trs;
     State_Monad.return (ok \<and> rest) }"

definition cpuctl_parent_path :: string where
  "cpuctl_parent_path = ''/dev/cpuctl/ReUperf''"

definition rule_group_path :: "string \<Rightarrow> string" where
  "rule_group_path name = cpuctl_parent_path @ ''/'' @ name"

definition init_rule :: "'w os \<Rightarrow> ProcessRule \<Rightarrow> ('w ct_st, bool) state" where
  "init_rule os rule = do {
     let rule_path = rule_group_path (pr_name rule);
     made \<leftarrow> ct_file (mkdir_recursive os rule_path);
     if \<not> made then State_Monad.return False
     else init_limits os rule_path 0 (pr_thread_rules rule) }"

fun init_rules :: "'w os \<Rightarrow> ProcessRule list \<Rightarrow> ('w ct_st, bool) state" where
  "init_rules os [] = State_Monad.return True"
| "init_rules os (rule # rules) = do {
     ok \<leftarrow> init_rule os rule;
     rest \<leftarrow> init_rules os rules;
     State_Monad.return (ok \<and> rest) }"

definition init_cpuctl :: "'w os \<Rightarrow> Config \<Rightarrow> ('w ct_st, bool) state" where
  "init_cpuctl os config =
     (if \<not> requires_cpuctl config then State_Monad.return True
      else do {
        root \<leftarrow> ct_file (dir_exists os ''/dev/cpuctl'');
        if \<not> root then State_Monad.return False
        else do {
          made \<leftarrow> ct_file (mkdir_recursive os cpuctl_parent_path);
          if \<not> made then State_Monad.return False
          else init_rules os (sc_rules (sched config)) } })"

subsection \<open>Initialisation\<close>

definition prepare_groups :: "'w os \<Rightarrow> Config \<Rightarrow> ('w ct_st, bool) state" where
  "prepare_groups os config = do {
     cpuset \<leftarrow> init_cpuset os config;
     if cpuset then init_cpuctl os config else State_Monad.return False }"

definition init_transaction :: "'w os \<Rightarrow> Config \<Rightarrow> ('w ct_st, bool) state" where
  "init_transaction os config = do {
     ok \<leftarrow> prepare_groups os config;
     if \<not> ok then do { _ \<leftarrow> rollback os; State_Monad.return False }
     else do {
       _ \<leftarrow> ct_file (report_stale_groups os config);
       commit;
       State_Monad.return True } }"

definition begin_transaction :: "'w env \<Rightarrow> 'w ct_st" where
  "begin_transaction e = \<lparr>ct_env = e, ct_tx = new_transaction\<rparr>"

definition init_cgroups :: "'w os \<Rightarrow> Config \<Rightarrow> ('w env, bool) state" where
  "init_cgroups os config = State (\<lambda>e.
     case run_state (init_transaction os config) (begin_transaction e) of (ok, s) \<Rightarrow> (ok, ct_env s))"

subsection \<open>A kernel whose control files keep what is written\<close>

text \<open>
  \<open>ctl w p\<close> is what a read of the control file \<open>p\<close> shows, without trailing newlines, and the
  empty string where there is no file; \<open>norm p v\<close> is what the kernel makes of a value written (it prints
  \<open>0,1,2\<close> as \<open>0-2\<close>). A write changes no other file, a value shown before is shown again after
  it is written back, and making a directory leaves the files that show something alone.
\<close>

definition grows :: "(string \<Rightarrow> string) \<Rightarrow> (string \<Rightarrow> string) \<Rightarrow> bool" where
  "grows c c' \<longleftrightarrow> (\<forall>q. c q \<noteq> [] \<longrightarrow> c' q = c q)"

definition shows_file :: "string \<Rightarrow> string option \<Rightarrow> bool" where
  "shows_file v r \<longleftrightarrow> (case r of None \<Rightarrow> v = [] | Some raw \<Rightarrow> strip_trailing NL raw = v)"

definition control_law :: "'w os \<Rightarrow> ('w \<Rightarrow> string \<Rightarrow> string) \<Rightarrow> (string \<Rightarrow> string \<Rightarrow> string) \<Rightarrow> bool" where
  "control_law os ctl norm \<longleftrightarrow>
     keeps ctl (os_now os) \<and> (\<forall>p. keeps ctl (os_read_all os p)) \<and> (\<forall>p. keeps ctl (os_stat os p)) \<and>
     (\<forall>p. keeps ctl (os_opendir os p)) \<and>
     (\<forall>p w. shows_file (ctl w p) (fst (run_state (os_read_all os p) w))) \<and>
     (\<forall>p w. grows (ctl w) (ctl (snd (run_state (os_mkdir os p) w)))) \<and>
     (\<forall>p v e. v \<noteq> [] \<longrightarrow> wp (write_kernel_control_file os p v)
        (\<lambda>ok e'. (\<forall>q. q \<noteq> p \<longrightarrow> ctl (world e') q = ctl (world e) q) \<and> (ok \<longrightarrow> ctl (world e') p = norm p v)) e) \<and>
     (\<forall>p w. norm p (ctl w p) = ctl w p) \<and>
     (\<forall>p v. strip_trailing NL v \<noteq> [] \<longrightarrow> norm p v \<noteq> []) \<and>
     (\<forall>d w. ctl w (d @ ''/cpus'') \<noteq> [] \<longrightarrow> fst (run_state (os_stat os d) w) = Directory)"

lemma control_lawD:
  assumes "control_law os ctl norm"
  shows "keeps ctl (os_now os)" "keeps ctl (os_read_all os p)" "keeps ctl (os_stat os p)" "keeps ctl (os_opendir os p)"
    and "shows_file (ctl w p) (fst (run_state (os_read_all os p) w))"
    and "grows (ctl w) (ctl (snd (run_state (os_mkdir os p) w)))"
    and "norm p (ctl w p) = ctl w p"
    and "strip_trailing NL v \<noteq> [] \<Longrightarrow> norm p v \<noteq> []"
    and "ctl w (p @ ''/cpus'') \<noteq> [] \<Longrightarrow> fst (run_state (os_stat os p) w) = Directory"
  using assms by (simp_all add: control_law_def)

lemma grows_refl [simp]: "grows c c"
  by (simp add: grows_def)

lemma grows_trans: "grows c c1 \<Longrightarrow> grows c1 c2 \<Longrightarrow> grows c c2"
  by (simp add: grows_def)

text \<open>The control files in the state of a computation.\<close>

definition env_store :: "('w \<Rightarrow> string \<Rightarrow> string) \<Rightarrow> 'w env \<Rightarrow> string \<Rightarrow> string" where
  "env_store ctl e = ctl (world e)"

abbreviation store :: "('w \<Rightarrow> string \<Rightarrow> string) \<Rightarrow> 'w ct_st \<Rightarrow> string \<Rightarrow> string" where
  "store ctl s \<equiv> env_store ctl (ct_env s)"

lemma env_store_frame [simp]:
  "env_store ctl (e\<lparr>fcache := c\<rparr>) = env_store ctl e"
  by (simp add: env_store_def)

lemma strip_trailing_Nil [simp]: "strip_trailing d [] = []"
  by (simp add: strip_trailing_def)

lemma strip_trailing_idem [simp]: "strip_trailing d (strip_trailing d s) = strip_trailing d s"
  by (simp add: strip_trailing_def)

lemma wp_ct_file:
  "wp m (\<lambda>a e. Q a (s\<lparr>ct_env := e\<rparr>)) (ct_env s) \<Longrightarrow> wp (ct_file m) Q s"
  unfolding ct_file_def by (rule wp_zoom)

lemma wp_keeps: "keeps f m \<Longrightarrow> (\<And>a s'. f s' = f s \<Longrightarrow> Q a s') \<Longrightarrow> wp m Q s"
  by (simp add: wp_iff) (metis keepsD)

lemma keeps_sys_store: "keeps ctl m \<Longrightarrow> keeps (env_store ctl) (sys m)"
  by (simp add: keeps_def env_store_def split: prod.splits) (metis snd_conv)

lemma keeps_ct_store: "keeps (env_store ctl) m \<Longrightarrow> keeps (store ctl) (ct_file m)"
  by (simp add: keeps_def ct_file_def split: prod.splits) (metis snd_conv)

lemma control_keeps:
  assumes "control_law os ctl norm"
  shows "keeps (env_store ctl) (dir_exists os p)" "keeps (env_store ctl) (file_exists os p)"
    and "keeps (env_store ctl) (read_file os p)" "keeps (env_store ctl) (sys (os_opendir os p))"
proof -
  note calls = control_lawD(1-4) [OF assms]
  show "keeps (env_store ctl) (dir_exists os p)" "keeps (env_store ctl) (file_exists os p)"
    "keeps (env_store ctl) (read_file os p)" "keeps (env_store ctl) (sys (os_opendir os p))"
    unfolding dir_exists_def file_exists_def read_file_def
    by (intro keeps_rules keeps_sys_store calls; simp add: Let_def env_store_def)+
qed

lemma control_keeps_groups:
  assumes "control_law os ctl norm"
  shows "keeps (env_store ctl) (cpuset_files_exist os p)"
    and "keeps (env_store ctl) (report_stale_groups os config)"
proof -
  note calls = control_keeps [OF assms]
  have attempts: "keeps (env_store ctl) (file_attempts os p n)" for p n
    by (induction n) (auto intro!: keeps_rules calls simp: file_attempts.simps)
  have children: "keeps (env_store ctl) (child_directories os p es)" for p es
    by (induction es) (auto intro!: keeps_rules calls split: dirent_type.split)
  have list: "keeps (env_store ctl) (list_child_directories os p)" for p
    unfolding list_child_directories_def by (intro keeps_rules calls children)
  show "keeps (env_store ctl) (cpuset_files_exist os p)"
    unfolding cpuset_files_exist_def ensure_cgroup_file_exists_def by (intro keeps_rules attempts)
  show "keeps (env_store ctl) (report_stale_groups os config)"
    unfolding report_stale_groups_def by (intro keeps_rules list)
qed

lemma read_shows:
  assumes "control_law os ctl norm" "is_dynamic_kernel_path p"
    and "\<And>e'. env_store ctl e' = env_store ctl e \<Longrightarrow> Q (env_store ctl e p) e'"
  shows "wp (read_file os p) Q e"
proof -
  obtain t w1 where now: "run_state (os_now os) (world e) = (t, w1)" by (metis surj_pair)
  obtain r w2 where read: "run_state (os_read_all os p) w1 = (r, w2)" by (metis surj_pair)
  have same: "ctl w1 = ctl (world e)" "ctl w2 = ctl w1"
    using keepsD [OF control_lawD(1) [OF assms(1)] now] keepsD [OF control_lawD(2) [OF assms(1)] read] by simp_all
  have "shows_file (ctl w1 p) (fst (run_state (os_read_all os p) w1))" by (rule control_lawD(5) [OF assms(1)])
  then have shown: "shows_file (ctl (world e) p) r" by (simp add: read same)
  have "Q (ctl (world e) p) (e\<lparr>world := w2\<rparr>)"
    using assms(3) [of "e\<lparr>world := w2\<rparr>"] by (simp add: env_store_def same)
  with shown assms(2) show ?thesis
    by (auto simp: wp_def read_file_def now read shows_file_def Let_def State_Monad.get_def split: option.splits)
qed

lemma mkdir_grows:
  assumes "control_law os ctl norm"
  shows "grows (env_store ctl e) (env_store ctl (snd (run_state (mkdir_recursive os p) e)))"
proof -
  have one: "wp (sys (os_mkdir os d)) (\<lambda>a e'. grows (env_store ctl e) (env_store ctl e')) e" for d e
    using control_lawD(6) [OF assms, of "world e" d] by (auto simp: wp_def env_store_def split: prod.splits)
  have same: "wp (dir_exists os d) (\<lambda>a e'. env_store ctl e' = env_store ctl e) e" for d e
    by (rule wp_keeps [OF control_keeps(1) [OF assms]]) simp
  have dirs: "wp (mkdir_prefixes os ds) (\<lambda>a e'. grows (env_store ctl e) (env_store ctl e')) e" for ds e
  proof (induction ds arbitrary: e)
    case Nil
    show ?case by (simp add: wp_def)
  next
    case (Cons d ds)
    show ?case
      unfolding mkdir_prefixes.simps
      by (intro wp_rules wp_conseq [OF same] wp_conseq [OF one] wp_conseq [OF Cons.IH])
        (auto intro: grows_trans)
  qed
  have "wp (mkdir_recursive os p) (\<lambda>a e'. grows (env_store ctl e) (env_store ctl e')) e"
    unfolding mkdir_recursive_def
    by (intro wp_rules wp_conseq [OF same] wp_conseq [OF one] wp_conseq [OF dirs])
      (auto intro: grows_trans)
  then show ?thesis by (simp add: wp_def split: prod.splits)
qed

lemma wp_mkdir:
  assumes "control_law os ctl norm"
    and "\<And>a e'. grows (env_store ctl e) (env_store ctl e') \<Longrightarrow> Q a e'"
  shows "wp (mkdir_recursive os p) Q e"
  using mkdir_grows [OF assms(1), of e p] assms(2) by (auto simp: wp_def split: prod.splits)

lemma wp_control_write:
  assumes "control_law os ctl norm" "v \<noteq> []"
    and "\<And>ok e' x. env_store ctl e' = (env_store ctl e)(p := x) \<Longrightarrow> ok \<longrightarrow> x = norm p v \<Longrightarrow> Q ok e'"
  shows "wp (write_kernel_control_file os p v) Q e"
proof (rule wp_conseq)
  show "wp (write_kernel_control_file os p v)
      (\<lambda>ok e'. (\<forall>q. q \<noteq> p \<longrightarrow> ctl (world e') q = ctl (world e) q) \<and> (ok \<longrightarrow> ctl (world e') p = norm p v)) e"
    using assms(1,2) by (simp add: control_law_def)
  fix ok and e' :: "'a env"
  assume "(\<forall>q. q \<noteq> p \<longrightarrow> ctl (world e') q = ctl (world e) q) \<and> (ok \<longrightarrow> ctl (world e') p = norm p v)"
  then show "Q ok e'" by (intro assms(3) [where x = "ctl (world e') p"]) (auto simp: env_store_def fun_eq_iff)
qed

subsection \<open>What a transaction knows\<close>

text \<open>
  \<open>c0\<close> is what the control files showed when the transaction began, and \<open>X\<close> the files whose old
  value it need not keep. A file that showed something and is not in \<open>X\<close> is untouched, or its old value is on
  record.
\<close>

definition tx_inv ::
  "string set \<Rightarrow> (string \<Rightarrow> string) \<Rightarrow> ControlFileTransaction \<Rightarrow> (string \<Rightarrow> string) \<Rightarrow> bool" where
  "tx_inv X c0 t c \<longleftrightarrow> \<not> tx_finalized t \<and> set (tx_write_order t) = dom (map_of (tx_original_values t)) \<and>
     (\<forall>p v. map_of (tx_original_values t) p = Some v \<longrightarrow> v \<noteq> [] \<and> (c0 p \<noteq> [] \<and> p \<notin> X \<longrightarrow> v = c0 p)) \<and>
     (\<forall>p. map_of (tx_original_values t) p = None \<and> c0 p \<noteq> [] \<and> p \<notin> X \<longrightarrow> c p = c0 p)"

lemma tx_inv_start [simp]: "tx_inv X c new_transaction c"
  by (simp add: tx_inv_def new_transaction_def)

lemma tx_inv_grows: "tx_inv X c0 t c \<Longrightarrow> grows c c' \<Longrightarrow> tx_inv X c0 t c'"
  by (auto simp: tx_inv_def grows_def)

lemma tx_inv_record:
  assumes "tx_inv X c0 t c" "map_of (tx_original_values t) p = None" "c p \<noteq> []"
  shows "tx_inv X c0 (record_original p (c p) t) c"
  using assms by (auto simp: tx_inv_def record_original_def)

lemma tx_inv_write:
  assumes "tx_inv X c0 t c" "map_of (tx_original_values t) p \<noteq> None \<or> p \<in> X"
  shows "tx_inv X c0 t (c(p := x))"
  using assms by (auto simp: tx_inv_def)

lemma wp_snapshot:
  assumes "control_law os ctl norm" "is_dynamic_kernel_path p" "tx_inv X c0 (ct_tx s) (store ctl s)"
    and "\<And>ok s'. tx_inv X c0 (ct_tx s') (store ctl s') \<Longrightarrow> store ctl s' = store ctl s
      \<Longrightarrow> ok \<longrightarrow> map_of (tx_original_values (ct_tx s')) p \<noteq> None \<Longrightarrow> Q ok s'"
  shows "wp (snapshot_file os p) Q s"
  unfolding snapshot_file_def
  using assms(3)
  by (intro wp_rules wp_ct_file read_shows [OF assms(1,2)] assms(4))
    (simp_all add: tx_inv_record [where c = "env_store ctl e" for e, simplified], auto simp: record_original_def)

lemma wp_tx_write:
  assumes "control_law os ctl norm" "is_dynamic_kernel_path p" "v \<noteq> []"
    and "tx_inv X c0 (ct_tx s) (store ctl s)" "req \<or> p \<in> X"
    and "\<And>ok s' x. tx_inv X c0 (ct_tx s') (store ctl s') \<Longrightarrow> store ctl s' = (store ctl s)(p := x)
      \<Longrightarrow> ok \<longrightarrow> x = norm p v \<Longrightarrow> Q ok s'"
  shows "wp (tx_write os p v req) Q s"
proof -
  have snap: "wp (if req then snapshot_file os p else State_Monad.return True)
      (\<lambda>ok s'. tx_inv X c0 (ct_tx s') (store ctl s') \<and> store ctl s' = store ctl s \<and>
         (ok \<longrightarrow> map_of (tx_original_values (ct_tx s')) p \<noteq> None \<or> p \<in> X)) s"
    using assms(4,5) by (intro wp_rules wp_snapshot [OF assms(1,2)]) auto
  show ?thesis
    unfolding tx_write_def
    by (rule wp_bind, rule wp_conseq [OF snap], elim conjE,
        intro wp_rules wp_ct_file wp_control_write [OF assms(1,3)])
      (auto intro!: assms(6) tx_inv_write)
qed

text \<open>Rolling back: the files on record show their old values again.\<close>

definition unchanged_outside :: "string set \<Rightarrow> (string \<Rightarrow> string) \<Rightarrow> (string \<Rightarrow> string) \<Rightarrow> bool" where
  "unchanged_outside X c0 c \<longleftrightarrow> (\<forall>p. c0 p \<noteq> [] \<and> p \<notin> X \<longrightarrow> c p = c0 p)"

definition restored ::
  "(string \<Rightarrow> string \<Rightarrow> string) \<Rightarrow> (string, string) umap \<Rightarrow> string set \<Rightarrow> (string \<Rightarrow> string) \<Rightarrow> string \<Rightarrow> string" where
  "restored norm om P c p =
     (case map_of om p of None \<Rightarrow> c p | Some v \<Rightarrow> if p \<in> P then norm p v else c p)"

lemma restored_empty [simp]: "restored norm om {} c = c"
  by (simp add: restored_def fun_eq_iff split: option.split)

lemma restored_insert:
  "map_of om p = Some v \<Longrightarrow> restored norm om P (c(p := norm p v)) = restored norm om (insert p P) c"
  "map_of om p = None \<Longrightarrow> restored norm om P c = restored norm om (insert p P) c"
  by (auto simp: restored_def fun_eq_iff split: option.split)

lemma wp_rollback_files:
  assumes "control_law os ctl norm" "\<forall>p v. map_of om p = Some v \<longrightarrow> v \<noteq> []"
  shows "wp (rollback_files os om ps)
    (\<lambda>ok s'. ok \<longrightarrow> store ctl s' = restored norm om (set ps) (store ctl s)) s"
proof (induction ps arbitrary: s)
  case Nil
  show ?case by (simp add: wp_def)
next
  case (Cons p ps)
  show ?case
  proof (cases "map_of om p")
    case None
    then show ?thesis by (auto intro!: wp_conseq [OF Cons.IH] simp: restored_insert(2) [OF None, symmetric])
  next
    case (Some v)
    with assms(2) have "v \<noteq> []" by simp
    show ?thesis
      by (simp add: Some)
        (intro wp_rules wp_ct_file wp_control_write [OF assms(1) \<open>v \<noteq> []\<close>] wp_conseq [OF Cons.IH],
         auto simp: restored_insert(1) [OF Some, symmetric] fun_upd_def)
  qed
qed

lemma wp_rollback:
  assumes "control_law os ctl norm" "tx_inv X c0 (ct_tx s) (store ctl s)" "\<And>p. norm p (c0 p) = c0 p"
  shows "wp (rollback os) (\<lambda>ok s'. ok \<longrightarrow> unchanged_outside X c0 (store ctl s')) s"
  unfolding rollback_def
proof (intro wp_rules)
  let ?o = "tx_original_values (ct_tx s)" and ?s = "s\<lparr>ct_tx := (ct_tx s)\<lparr>tx_finalized := True\<rparr>\<rparr>"
  have vals: "\<forall>p v. map_of ?o p = Some v \<longrightarrow> v \<noteq> []" using assms(2) by (simp add: tx_inv_def)
  have "unchanged_outside X c0 (restored norm ?o (set (tx_write_order (ct_tx s))) (store ctl s))"
    unfolding unchanged_outside_def
  proof (intro allI impI)
    fix p assume "c0 p \<noteq> [] \<and> p \<notin> X"
    with assms(2,3) show "restored norm ?o (set (tx_write_order (ct_tx s))) (store ctl s) p = c0 p"
      by (cases "map_of ?o p") (auto simp: tx_inv_def restored_def)
  qed
  then show "wp (rollback_files os ?o (rev (tx_write_order (ct_tx s))))
      (\<lambda>ok s'. ok \<longrightarrow> unchanged_outside X c0 (store ctl s')) ?s"
    by (intro wp_conseq [OF wp_rollback_files [OF assms(1) vals]]) simp
qed (use assms(2) in \<open>simp add: tx_inv_def\<close>)

subsection \<open>Groups of masks\<close>

definition mask_files :: "string \<Rightarrow> string set" where
  "mask_files name = (\<lambda>f. mask_group_path name @ f) ` {''/cpus'', ''/mems'', ''/cpu_exclusive'', ''/mem_exclusive''}"

lemma mask_files_disjoint: "name \<noteq> name' \<Longrightarrow> mask_files name \<inter> mask_files name' = {}"
proof -
  assume "name \<noteq> name'"
  then have same: "mask_group_path name @ f \<noteq> mask_group_path name' @ f" for f
    by (simp add: mask_group_path_def)
  have diff: "xs @ f = ys @ g \<Longrightarrow> drop (length f - 4) f = drop (length g - 4) g"
    if "4 \<le> length f" "4 \<le> length g" for xs ys f g :: string
  proof -
    assume "xs @ f = ys @ g"
    then have "drop (length (xs @ f) - 4) (xs @ f) = drop (length (ys @ g) - 4) (ys @ g)" by simp
    with that show ?thesis by simp
  qed
  have excl: "mask_group_path n @ ''/cpu_exclusive'' \<noteq> mask_group_path n' @ ''/mem_exclusive''" for n n'
    by simp
  show ?thesis
    using same excl excl [symmetric] by (auto simp: mask_files_def dest!: diff [rotated 2])
qed

definition was_unready :: "(string \<Rightarrow> string) \<Rightarrow> string \<Rightarrow> bool" where
  "was_unready c name \<longleftrightarrow> c (mask_group_path name @ ''/cpus'') = [] \<or> c (mask_group_path name @ ''/mems'') = []"

text \<open>The files of the groups of a configuration that were not in use.\<close>

definition unready_files :: "(string \<Rightarrow> string) \<Rightarrow> Config \<Rightarrow> string set" where
  "unready_files c config =
     \<Union> (mask_files ` {name \<in> fst ` set (sc_cpumask (sched config)). was_unready c name})"

definition grows_outside :: "string set \<Rightarrow> (string \<Rightarrow> string) \<Rightarrow> (string \<Rightarrow> string) \<Rightarrow> bool" where
  "grows_outside F c c' \<longleftrightarrow> (\<forall>q. q \<notin> F \<and> c q \<noteq> [] \<longrightarrow> c' q = c q)"

lemma grows_outside_refl [simp]: "grows_outside F c c"
  by (simp add: grows_outside_def)

lemma grows_outside_grows: "grows c c' \<Longrightarrow> grows_outside F c c'"
  by (simp add: grows_def grows_outside_def)

lemma grows_outside_write [simp]:
  "p \<in> F \<Longrightarrow> grows_outside F c (c'(p := x)) \<longleftrightarrow> grows_outside F c c'"
  by (auto simp: grows_outside_def)

lemma grows_outside_trans: "grows_outside F c c1 \<Longrightarrow> grows_outside F c1 c2 \<Longrightarrow> grows_outside F c c2"
  by (simp add: grows_outside_def)

lemma group_paths_dynamic [simp]:
  "is_dynamic_kernel_path (mask_group_path name @ f)"
  "is_dynamic_kernel_path (cpuset_parent_path @ ''/'' @ f)"
  "is_dynamic_kernel_path (rule_group_path name @ f)"
  by (simp_all add: mask_group_path_def cpuset_parent_path_def rule_group_path_def cpuctl_parent_path_def
      is_dynamic_kernel_path_def str_starts_iff)

lemma wp_group_was_ready:
  assumes "control_law os ctl norm"
    and "\<And>r e'. env_store ctl e' = env_store ctl e \<Longrightarrow> r \<or> was_unready (env_store ctl e) name \<Longrightarrow> Q r e'"
  shows "wp (group_was_ready os (mask_group_path name)) Q e"
proof -
  let ?d = "mask_group_path name"
  obtain there e1 where run: "run_state (dir_exists os ?d) e = (there, e1)" by (metis surj_pair)
  then have "there \<longleftrightarrow> fst (run_state (os_stat os ?d) (world e)) = Directory"
    by (auto simp: dir_exists_def split: prod.splits)
  with control_lawD(9) [OF assms(1), of "world e" ?d]
  have "\<not> there \<longrightarrow> env_store ctl e (?d @ ''/cpus'') = []" by (auto simp: env_store_def)
  with keepsD [OF control_keeps(1) [OF assms(1)] run] run
  have dir: "wp (dir_exists os ?d) (\<lambda>a e'. env_store ctl e' = env_store ctl e \<and>
      (\<not> a \<longrightarrow> env_store ctl e (?d @ ''/cpus'') = [])) e"
    by (simp add: wp_def)
  show ?thesis
    unfolding group_was_ready_def
    by (rule wp_bind, rule wp_conseq [OF dir], elim conjE,
        intro wp_rules read_shows [OF assms(1)] group_paths_dynamic assms(2))
      (auto simp: was_unready_def cpuset_group_requires_rollback_def)
qed

lemma wp_clear_exclusive:
  assumes "control_law os ctl norm" "is_dynamic_kernel_path p"
    and "tx_inv X c0 (ct_tx s) (store ctl s)" "req \<or> p \<in> X"
    and "\<And>ok s' x. tx_inv X c0 (ct_tx s') (store ctl s') \<Longrightarrow> store ctl s' = (store ctl s)(p := x) \<Longrightarrow> Q ok s'"
  shows "wp (clear_exclusive os p req) Q s"
  unfolding clear_exclusive_def
proof (intro wp_rules wp_ct_file wp_keeps [OF control_keeps(2) [OF assms(1)]])
  fix a e
  assume same: "env_store ctl e = store ctl s"
  show "Q True (s\<lparr>ct_env := e\<rparr>)"
    by (rule assms(5) [where x = "store ctl s p"]) (use same assms(3) in simp_all)
  show "wp (tx_write os p ''0'' req) Q (s\<lparr>ct_env := e\<rparr>)"
    by (rule wp_tx_write [OF assms(1,2) _ _ assms(4)]) (use same assms(3,5) in auto)
qed

text \<open>What a mask that was set shows.\<close>

definition mask_set ::
  "(string \<Rightarrow> string \<Rightarrow> string) \<Rightarrow> string \<Rightarrow> (string \<Rightarrow> string) \<Rightarrow> string \<times> int list \<Rightarrow> bool" where
  "mask_set norm mems c m \<longleftrightarrow> cpus_to_string (snd m) \<noteq> [] \<and>
     c (mask_group_path (fst m) @ ''/cpus'') =
       norm (mask_group_path (fst m) @ ''/cpus'') (cpus_to_string (snd m)) \<and>
     c (mask_group_path (fst m) @ ''/mems'') = norm (mask_group_path (fst m) @ ''/mems'') mems"

lemma wp_init_mask:
  assumes law: "control_law os ctl norm" and inv: "tx_inv X c0 (ct_tx s) (store ctl s)"
    and fresh: "\<forall>q \<in> mask_files (fst m). c0 q \<noteq> [] \<longrightarrow> store ctl s q = c0 q"
    and X: "was_unready c0 (fst m) \<longrightarrow> mask_files (fst m) \<subseteq> X" and mems: "mems \<noteq> []"
    and post: "\<And>ok s'. tx_inv X c0 (ct_tx s') (store ctl s')
      \<Longrightarrow> grows_outside (mask_files (fst m)) (store ctl s) (store ctl s')
      \<Longrightarrow> ok \<longrightarrow> mask_set norm mems (store ctl s') m \<Longrightarrow> Q ok s'"
  shows "wp (init_mask os mems m) Q s"
proof -
  let ?F = "mask_files (fst m)" and ?d = "mask_group_path (fst m)"
  have files: "?d @ ''/cpus'' \<in> ?F" "?d @ ''/mems'' \<in> ?F" "?d @ ''/cpu_exclusive'' \<in> ?F" "?d @ ''/mem_exclusive'' \<in> ?F"
    by (simp_all add: mask_files_def)
  have unready: "was_unready (store ctl s) (fst m) \<Longrightarrow> ?F \<subseteq> X"
    using fresh X files(1,2) by (auto simp: was_unready_def)
  have ready: "wp (group_was_ready os ?d) (\<lambda>r e. env_store ctl e = store ctl s \<and> (r \<or> ?F \<subseteq> X)) (ct_env s)"
    by (rule wp_group_was_ready [OF law]) (use unready in auto)
  show ?thesis
    unfolding init_mask_def
    by (rule wp_Let, rule wp_bind, rule wp_ct_file, rule wp_conseq [OF ready], elim conjE,
        intro wp_rules wp_ct_file wp_mkdir [OF law] wp_keeps [OF control_keeps_groups(1) [OF law]]
          wp_tx_write [OF law group_paths_dynamic(1), where X = X and ?c0.0 = c0]
          wp_clear_exclusive [OF law group_paths_dynamic(1), where X = X and ?c0.0 = c0] post)
      (use inv mems files in \<open>auto simp: tx_inv_grows grows_outside_grows mask_set_def\<close>)
qed

lemma strip_trailing_Nil_iff: "strip_trailing d s = [] \<longleftrightarrow> set s \<subseteq> {d}"
  by (auto simp: strip_trailing_def)

lemma cpus_to_string_clean: "cpus_to_string cpus \<noteq> [] \<Longrightarrow> strip_trailing NL (cpus_to_string cpus) \<noteq> []"
proof -
  assume "cpus_to_string cpus \<noteq> []"
  then obtain x xs where "sort cpus = x # xs" by (cases "sort cpus") (auto simp: cpus_to_string_def)
  then have "hd (to_string x) \<in> set (cpus_to_string cpus)" by (simp add: cpus_to_string_def)
  moreover have "hd (to_string x) \<noteq> NL" using to_string_chars [of "hd (to_string x)" x] by (auto simp: NL_def is_digit_def)
  ultimately show ?thesis unfolding strip_trailing_Nil_iff by blast
qed

lemma mask_set_grows:
  assumes "control_law os ctl norm" "strip_trailing NL mems \<noteq> []" "mask_set norm mems c m" "grows_outside F c c'"
    and "F \<inter> mask_files (fst m) = {}"
  shows "mask_set norm mems c' m"
proof -
  have "mask_group_path (fst m) @ ''/cpus'' \<notin> F" "mask_group_path (fst m) @ ''/mems'' \<notin> F"
    using assms(5) by (auto simp: mask_files_def)
  with assms(2-4) control_lawD(8) [OF assms(1)] cpus_to_string_clean show ?thesis
    by (auto simp: mask_set_def grows_outside_def)
qed

lemma wp_init_masks:
  assumes law: "control_law os ctl norm" and mems: "strip_trailing NL mems \<noteq> []"
    and "tx_inv X c0 (ct_tx s) (store ctl s)" "distinct (map fst ms)"
    and "\<forall>m \<in> set ms. \<forall>q \<in> mask_files (fst m). c0 q \<noteq> [] \<longrightarrow> store ctl s q = c0 q"
    and "\<forall>m \<in> set ms. was_unready c0 (fst m) \<longrightarrow> mask_files (fst m) \<subseteq> X"
  shows "wp (init_masks os mems ms) (\<lambda>ok s'. tx_inv X c0 (ct_tx s') (store ctl s') \<and>
      grows_outside (\<Union> (mask_files ` fst ` set ms)) (store ctl s) (store ctl s') \<and>
      (ok \<longrightarrow> (\<forall>m \<in> set ms. mask_set norm mems (store ctl s') m))) s"
  using assms(3-)
proof (induction ms arbitrary: s)
  case Nil
  then show ?case by (simp add: wp_def)
next
  case (Cons m ms)
  have nonempty: "mems \<noteq> []" using mems by (auto simp: strip_trailing_def)
  have apart: "mask_files (fst m) \<inter> mask_files (fst m') = {}" if "m' \<in> set ms" for m'
    using Cons.prems(2) that by (intro mask_files_disjoint) auto
  show ?case
    unfolding init_masks.simps
  proof (rule wp_bind, rule wp_init_mask [OF law Cons.prems(1) _ _ nonempty])
    fix ok s1
    assume inv: "tx_inv X c0 (ct_tx s1) (store ctl s1)"
      and frame: "grows_outside (mask_files (fst m)) (store ctl s) (store ctl s1)"
      and set: "ok \<longrightarrow> mask_set norm mems (store ctl s1) m"
    have fresh: "\<forall>m' \<in> set ms. \<forall>q \<in> mask_files (fst m'). c0 q \<noteq> [] \<longrightarrow> store ctl s1 q = c0 q"
    proof (intro ballI impI)
      fix m' q assume m': "m' \<in> set ms" and q: "q \<in> mask_files (fst m')" "c0 q \<noteq> []"
      then have "q \<notin> mask_files (fst m)" using apart [OF m'] by blast
      with frame q m' Cons.prems(3) show "store ctl s1 q = c0 q" by (simp add: grows_outside_def)
    qed
    show "wp (State_Monad.bind (init_masks os mems ms) (\<lambda>rest. State_Monad.return (ok \<and> rest)))
      (\<lambda>ok s'. tx_inv X c0 (ct_tx s') (store ctl s') \<and>
        grows_outside (\<Union> (mask_files ` fst ` set (m # ms))) (store ctl s) (store ctl s') \<and>
        (ok \<longrightarrow> (\<forall>m \<in> set (m # ms). mask_set norm mems (store ctl s') m))) s1"
    proof (rule wp_bind, rule wp_conseq [OF Cons.IH [OF inv _ fresh]])
      fix rest s2
      assume post: "tx_inv X c0 (ct_tx s2) (store ctl s2) \<and>
        grows_outside (\<Union> (mask_files ` fst ` set ms)) (store ctl s1) (store ctl s2) \<and>
        (rest \<longrightarrow> (\<forall>m \<in> set ms. mask_set norm mems (store ctl s2) m))"
      have "\<Union> (mask_files ` fst ` set ms) \<inter> mask_files (fst m) = {}" using apart by blast
      with post set have "ok \<longrightarrow> mask_set norm mems (store ctl s2) m"
        by (blast intro: mask_set_grows [OF law mems])
      moreover have "grows_outside (\<Union> (mask_files ` fst ` set (m # ms))) (store ctl s) (store ctl s2)"
        using frame post by (auto simp: grows_outside_def)
      ultimately show "wp (State_Monad.return (ok \<and> rest)) (\<lambda>ok s'. tx_inv X c0 (ct_tx s') (store ctl s') \<and>
        grows_outside (\<Union> (mask_files ` fst ` set (m # ms))) (store ctl s) (store ctl s') \<and>
        (ok \<longrightarrow> (\<forall>m \<in> set (m # ms). mask_set norm mems (store ctl s') m))) s2"
        using post by (intro wp_rules) simp
    qed (use Cons.prems in simp_all)
  qed (use Cons.prems in simp_all)
qed

definition masks_set ::
  "(string \<Rightarrow> string \<Rightarrow> string) \<Rightarrow> (string \<Rightarrow> string) \<Rightarrow> Config \<Rightarrow> (string \<Rightarrow> string) \<Rightarrow> bool" where
  "masks_set norm c0 config c \<longleftrightarrow> c0 (cpuset_parent_path @ ''/mems'') \<noteq> [] \<and>
     (\<forall>m \<in> set (sc_cpumask (sched config)). mask_set norm (c0 (cpuset_parent_path @ ''/mems'')) c m)"

lemma wp_init_cpuset:
  assumes law: "control_law os ctl norm" and inv: "tx_inv X c0 (ct_tx s) (store ctl s)"
    and start: "store ctl s = c0" and ok: "umap_ok (sc_cpumask (sched config))"
    and X: "unready_files c0 config \<subseteq> X"
  shows "wp (init_cpuset os config) (\<lambda>ok s'. tx_inv X c0 (ct_tx s') (store ctl s') \<and>
      (ok \<and> requires_cpuset config \<longrightarrow> masks_set norm c0 config (store ctl s'))) s"
proof -
  have clean: "strip_trailing NL (c0 p) = c0 p" for p
    using control_lawD(5) [OF law, of "world (ct_env s)" p] start
    by (auto simp: shows_file_def env_store_def strip_trailing_Nil_iff split: option.splits)
      (metis strip_trailing_idem)
  have masks: "wp (init_masks os (c0 (cpuset_parent_path @ ''/mems'')) (sc_cpumask (sched config)))
      (\<lambda>ok s'. tx_inv X c0 (ct_tx s') (store ctl s') \<and> (ok \<longrightarrow> masks_set norm c0 config (store ctl s'))) t"
    if "store ctl t = c0" "ct_tx t = ct_tx s" "c0 (cpuset_parent_path @ ''/mems'') \<noteq> []" for t
    by (rule wp_conseq [OF wp_init_masks [OF law, where X = X and ?c0.0 = c0]])
      (use that inv start ok X in \<open>auto simp: clean umap_ok_def unready_files_def masks_set_def\<close>)
  show ?thesis
    unfolding init_cpuset_def
    by (intro wp_rules wp_ct_file wp_keeps [OF control_keeps(1) [OF law]] wp_keeps [OF control_keeps(2) [OF law]]
        read_shows [OF law group_paths_dynamic(2) [of "''cpus''", simplified]]
        read_shows [OF law group_paths_dynamic(2) [of "''mems''", simplified]])
      (use inv start in \<open>simp_all add: masks\<close>)
qed

subsection \<open>Groups of limits\<close>

definition limit_files :: "string set" where
  "limit_files = range (\<lambda>f. cpuctl_parent_path @ ''/'' @ f)"

definition limit_inv ::
  "('w \<Rightarrow> string \<Rightarrow> string) \<Rightarrow> string set \<Rightarrow> (string \<Rightarrow> string) \<Rightarrow> (string \<Rightarrow> string) \<Rightarrow> 'w ct_st \<Rightarrow> bool" where
  "limit_inv ctl X c0 c1 s \<longleftrightarrow> tx_inv X c0 (ct_tx s) (store ctl s) \<and> grows_outside limit_files c1 (store ctl s)"

lemma wp_write_optional_limit:
  assumes law: "control_law os ctl norm" and "limit_inv ctl X c0 c1 s"
  shows "wp (write_optional_limit os (limit_group_path (rule_group_path name) i) (rule_group_path name) f n)
    (\<lambda>ok. limit_inv ctl X c0 c1) s"
proof -
  let ?p = "limit_group_path (rule_group_path name) i @ ''/'' @ f"
  have path: "is_dynamic_kernel_path ?p" "?p \<in> limit_files"
    by (simp_all add: limit_group_path_def rule_group_path_def cpuctl_parent_path_def limit_files_def
        is_dynamic_kernel_path_def str_starts_iff)
  have set: "wp (tx_write os ?p v True) (\<lambda>ok. limit_inv ctl X c0 c1) t"
    if "v \<noteq> []" "limit_inv ctl X c0 c1 t" for v t
    by (rule wp_tx_write [OF law path(1) that(1), where X = X and ?c0.0 = c0])
      (use that path(2) in \<open>auto simp: limit_inv_def\<close>)
  show ?thesis
    unfolding write_optional_limit_def
    by (intro wp_rules wp_ct_file wp_keeps [OF control_keeps(2) [OF law]] wp_keeps [OF control_keeps(3) [OF law]] set)
      (use assms(2) in \<open>auto simp: limit_inv_def resolve_limit_value_def split: option.split\<close>)
qed

lemma limit_inv_grows:
  "limit_inv ctl X c0 c1 s \<Longrightarrow> grows (store ctl s) (env_store ctl e) \<Longrightarrow> limit_inv ctl X c0 c1 (s\<lparr>ct_env := e\<rparr>)"
  by (auto simp: limit_inv_def tx_inv_grows intro: grows_outside_trans grows_outside_grows)

lemma wp_init_limits:
  assumes law: "control_law os ctl norm" and "limit_inv ctl X c0 c1 s"
  shows "wp (init_limits os (rule_group_path name) i trs) (\<lambda>ok. limit_inv ctl X c0 c1) s"
  using assms(2)
proof (induction trs arbitrary: i s)
  case Nil
  then show ?case by (simp add: wp_def)
next
  case (Cons tr trs)
  show ?case
    unfolding init_limits.simps init_limit_def
    by (intro wp_rules wp_ct_file wp_mkdir [OF law]
        wp_conseq [OF wp_write_optional_limit [OF law, where X = X and ?c0.0 = c0 and ?c1.0 = c1]]
        wp_conseq [OF Cons.IH])
      (use Cons.prems in \<open>auto intro: limit_inv_grows\<close>)
qed

lemma wp_init_rules:
  assumes law: "control_law os ctl norm" and "limit_inv ctl X c0 c1 s"
  shows "wp (init_rules os rs) (\<lambda>ok. limit_inv ctl X c0 c1) s"
  using assms(2)
proof (induction rs arbitrary: s)
  case Nil
  then show ?case by (simp add: wp_def)
next
  case (Cons r rs)
  show ?case
    unfolding init_rules.simps init_rule_def
    by (intro wp_rules wp_ct_file wp_mkdir [OF law]
        wp_conseq [OF wp_init_limits [OF law, where X = X and ?c0.0 = c0 and ?c1.0 = c1]]
        wp_conseq [OF Cons.IH])
      (use Cons.prems in \<open>auto intro: limit_inv_grows\<close>)
qed

lemma wp_init_cpuctl:
  assumes law: "control_law os ctl norm" and "limit_inv ctl X c0 c1 s"
  shows "wp (init_cpuctl os config) (\<lambda>ok. limit_inv ctl X c0 c1) s"
  unfolding init_cpuctl_def
  by (intro wp_rules wp_ct_file wp_mkdir [OF law] wp_keeps [OF control_keeps(1) [OF law]]
      wp_init_rules [OF law, where X = X and ?c0.0 = c0 and ?c1.0 = c1])
    (use assms(2) in \<open>auto simp: limit_inv_def tx_inv_grows intro: grows_outside_trans grows_outside_grows\<close>)

subsection \<open>Initialisation\<close>

lemma store_clean:
  assumes "control_law os ctl norm"
  shows "strip_trailing NL (env_store ctl e p) = env_store ctl e p"
  using control_lawD(5) [OF assms, of "world e" p]
  by (auto simp: shows_file_def env_store_def strip_trailing_Nil_iff split: option.splits)
    (metis strip_trailing_idem)

lemma masks_set_limits:
  assumes "control_law os ctl norm" "masks_set norm c0 config c" "grows_outside limit_files c c'"
    and "\<And>p. strip_trailing NL (c0 p) = c0 p"
  shows "masks_set norm c0 config c'"
proof -
  have apart: "limit_files \<inter> mask_files name = {}" for name
    by (auto simp: limit_files_def mask_files_def mask_group_path_def cpuset_parent_path_def cpuctl_parent_path_def)
  show ?thesis
    using assms(2) mask_set_grows [OF assms(1) _ _ assms(3) apart] assms(4) by (simp add: masks_set_def)
qed

lemma wp_prepare:
  assumes law: "control_law os ctl norm" and ok: "umap_ok (sc_cpumask (sched config))"
    and start: "env_store ctl e = c0"
  shows "wp (prepare_groups os config) (\<lambda>ok s'.
      tx_inv (unready_files c0 config) c0 (ct_tx s') (store ctl s') \<and>
      (ok \<and> requires_cpuset config \<longrightarrow> masks_set norm c0 config (store ctl s'))) (begin_transaction e)"
proof -
  have clean: "strip_trailing NL (c0 p) = c0 p" for p using store_clean [OF law, of e p] start by simp
  let ?X = "unready_files c0 config"
  have "wp (init_cpuctl os config) (\<lambda>ok s'. tx_inv ?X c0 (ct_tx s') (store ctl s') \<and>
      (ok \<and> requires_cpuset config \<longrightarrow> masks_set norm c0 config (store ctl s'))) s"
    if "tx_inv ?X c0 (ct_tx s) (store ctl s)" "requires_cpuset config \<longrightarrow> masks_set norm c0 config (store ctl s)" for s
    by (rule wp_conseq [OF wp_init_cpuctl [OF law, where X = ?X and ?c0.0 = c0 and ?c1.0 = "store ctl s"]])
      (use that masks_set_limits [OF law _ _ clean] in \<open>auto simp: limit_inv_def\<close>)
  then show ?thesis
    unfolding prepare_groups_def
    by (intro wp_rules wp_conseq [OF wp_init_cpuset [OF law, where X = ?X and ?c0.0 = c0]])
      (use start ok in \<open>auto simp: begin_transaction_def\<close>)
qed

text \<open>The two results: what a rollback leaves and what a success has set.\<close>

lemma prepare_rolled_back:
  assumes law: "control_law os ctl norm" and "umap_ok (sc_cpumask (sched config))"
    and prep: "run_state (prepare_groups os config) (begin_transaction e) = (False, s1)"
    and roll: "run_state (rollback os) s1 = (True, s2)"
  shows "run_state (init_cgroups os config) e = (False, ct_env s2) \<and>
    unchanged_outside (unready_files (env_store ctl e) config) (env_store ctl e) (store ctl s2)"
proof -
  have "tx_inv (unready_files (env_store ctl e) config) (env_store ctl e) (ct_tx s1) (store ctl s1)"
    using wp_run [OF wp_prepare [OF law assms(2) refl] prep] by simp
  moreover have "norm p (env_store ctl e p) = env_store ctl e p" for p
    using control_lawD(7) [OF law] by (simp add: env_store_def)
  ultimately have "unchanged_outside (unready_files (env_store ctl e) config) (env_store ctl e) (store ctl s2)"
    using wp_run [OF wp_rollback [OF law] roll] by simp
  then show ?thesis by (simp add: init_cgroups_def init_transaction_def prep roll)
qed

lemma prepare_sets_masks:
  assumes law: "control_law os ctl norm" and "umap_ok (sc_cpumask (sched config))"
    and "requires_cpuset config" "run_state (init_cgroups os config) e = (True, e')"
  shows "masks_set norm (env_store ctl e) config (env_store ctl e')"
proof -
  obtain ok s1 where prep: "run_state (prepare_groups os config) (begin_transaction e) = (ok, s1)" by (metis surj_pair)
  have keep: "keeps (store ctl) (ct_file (report_stale_groups os config))"
    by (rule keeps_ct_store [OF control_keeps_groups(2) [OF law]])
  obtain r s2 where rep: "run_state (ct_file (report_stale_groups os config)) s1 = (r, s2)" by (metis surj_pair)
  have ok: ok and e': "e' = ct_env s2"
    using assms(4) rep by (auto simp: init_cgroups_def init_transaction_def prep commit_def split: if_splits prod.splits)
  with wp_run [OF wp_prepare [OF law assms(2) refl] prep] assms(3)
  have "masks_set norm (env_store ctl e) config (store ctl s1)" by simp
  then show ?thesis using keepsD [OF keep rep] e' by simp
qed

end
