(* ===== verification/Model_Kernel.thy ===== *)
theory Model_Kernel
  imports Runtime Cgroup_Init
begin

section \<open>A small concrete kernel\<close>

text \<open>
  An instance of the kernel parameter on which the theorems with hypotheses on the kernel
  or on a run are applied: a machine with files, one clock and one thread's scheduling
  attributes. It models no code of the repository.
\<close>

record machine =
  mc_now :: int
  mc_files :: "(string \<times> string) list"
  mc_open :: string
  mc_affinity_mask :: cpu_set_t
  mc_policy :: int
  mc_rt_prio :: int
  mc_nice_value :: int

definition model_os :: "machine os" where
  "model_os = \<lparr>
     os_now = State (\<lambda>m. (mc_now m, m)),
     os_sleep_us = (\<lambda>us. State (\<lambda>m. ((), m\<lparr>mc_now := mc_now m + us * 1000\<rparr>))),
     os_read_all = (\<lambda>p. State (\<lambda>m. (map_of (mc_files m) p, m))),
     os_open = (\<lambda>p mode. State (\<lambda>m. if map_of (mc_files m) p = None \<and> mode = ControlFile then (-1, m)
        else (3, m\<lparr>mc_open := p\<rparr>))),
     os_write = (\<lambda>fd s. State (\<lambda>m. (int (length s), m\<lparr>mc_files := AList.update (mc_open m) s (mc_files m)\<rparr>))),
     os_close = (\<lambda>fd. State (\<lambda>m. ((), m))),
     os_stat = (\<lambda>p. State (\<lambda>m. (if map_of (mc_files m) p = None then NoEntry else RegularFile, m))),
     os_mkdir = (\<lambda>p. State (\<lambda>m. (MkdirOk, m))),
     os_opendir = (\<lambda>p. State (\<lambda>m. (None, m))),
     os_sched_setaffinity = (\<lambda>t s. State (\<lambda>m. (True, m\<lparr>mc_affinity_mask := s\<rparr>))),
     os_sched_getaffinity = (\<lambda>t. State (\<lambda>m. (Some (mc_affinity_mask m), m))),
     os_sched_getscheduler = (\<lambda>t. State (\<lambda>m. (mc_policy m, m))),
     os_sched_getparam = (\<lambda>t. State (\<lambda>m. (Some (mc_rt_prio m), m))),
     os_sched_setscheduler = (\<lambda>t p q. State (\<lambda>m. (True, m\<lparr>mc_policy := p, mc_rt_prio := q\<rparr>))),
     os_getpriority = (\<lambda>t. State (\<lambda>m. (Some (mc_nice_value m), m))),
     os_setpriority = (\<lambda>t n. State (\<lambda>m. (True, m\<lparr>mc_nice_value := n\<rparr>)))\<rparr>"

definition model_machine :: "(string \<times> string) list \<Rightarrow> machine" where
  "model_machine files = \<lparr>mc_now = 0, mc_files = files, mc_open = [], mc_affinity_mask = 15,
     mc_policy = 0, mc_rt_prio = 0, mc_nice_value = 0\<rparr>"

definition model_env :: "(string \<times> string) list \<Rightarrow> machine env" where
  "model_env files = \<lparr>world = model_machine files, fcache = \<lparr>fc_entries = [], fc_lru = []\<rparr>,
     ccache = [], file_ttl = 100, cgroup_ttl = 100\<rparr>"

definition empty_schedule :: ScheduleTimes where
  "empty_schedule = \<lparr>last_schedule_time = [], last_schedule_state = [], next_cgroup_check_time = [],
     schedule_counter = 0, cgroup_check_counter = 0\<rparr>"

definition model_rt :: "(string \<times> string) list \<Rightarrow> ThreadCache \<Rightarrow> machine rt" where
  "model_rt files c = \<lparr>rt_env = model_env files, group_checks = [], process_cache = empty_process_cache,
     tcache = c, schedule = empty_schedule\<rparr>"

text \<open>The same state for the traced kernel, with an empty log.\<close>

definition traced_rt :: "'w rt \<Rightarrow> ('w \<times> effect list) rt" where
  "traced_rt s = \<lparr>rt_env = \<lparr>world = (world (rt_env s), []), fcache = fcache (rt_env s),
       ccache = ccache (rt_env s), file_ttl = file_ttl (rt_env s), cgroup_ttl = cgroup_ttl (rt_env s)\<rparr>,
     group_checks = group_checks s, process_cache = process_cache s, tcache = tcache s,
     schedule = schedule s\<rparr>"

text \<open>A regular-expression library whose patterns are plain substrings.\<close>

definition substring_lib :: "string regex_lib" where
  "substring_lib = \<lparr>rx_compile = (\<lambda>p _. Some p), rx_search = (\<lambda>s p. Some (str_contains s p))\<rparr>"

text \<open>The same machine with files and directories that never change.\<close>

definition still_os :: "(string \<times> string) list \<Rightarrow> (string \<times> dir_stream) list \<Rightarrow> machine os" where
  "still_os files dirs = model_os\<lparr>os_read_all := (\<lambda>p. State (\<lambda>m. (map_of files p, m))),
     os_opendir := (\<lambda>p. State (\<lambda>m. (map_of dirs p, m)))\<rparr>"

text \<open>And with a clock that moves whenever it is read.\<close>

definition ticking_os :: "machine os" where
  "ticking_os = model_os\<lparr>os_now := State (\<lambda>m. (mc_now m, m\<lparr>mc_now := mc_now m + 1\<rparr>)),
     os_sleep_us := (\<lambda>us. State (\<lambda>m. ((), m)))\<rparr>"

lemma ticking_clock: "clock_law ticking_os mc_now"
  by (simp add: clock_law_def ticking_os_def model_os_def climbs_def)

text \<open>And with control files: a directory is a proper prefix of a file, and files keep what is written.\<close>

definition control_os :: "machine os" where
  "control_os = model_os\<lparr>os_stat := (\<lambda>p. State (\<lambda>m.
     (if \<exists>f \<in> fst ` set (mc_files m). str_starts f (p @ ''/'') then Directory
      else if map_of (mc_files m) p = None then NoEntry else RegularFile, m)))\<rparr>"

definition control_file :: "machine \<Rightarrow> string \<Rightarrow> string" where
  "control_file m p = (case map_of (mc_files m) p of None \<Rightarrow> [] | Some raw \<Rightarrow> strip_trailing NL raw)"

lemma control_os_write:
  assumes "v \<noteq> []"
  shows "run_state (write_kernel_control_file control_os p v) e =
    (if map_of (mc_files (world e)) p = None then (False, e)
     else (True, e\<lparr>world := (world e)\<lparr>mc_open := p, mc_files := AList.update p v (mc_files (world e))\<rparr>,
        fcache := erase_file_cache_entry p (fcache e)\<rparr>))"
  using assms
  by (simp add: write_kernel_control_file_def write_open_file_def control_os_def model_os_def
      write_all.simps invalidate_file_cache_def)

lemma control_os_law: "control_law control_os control_file (\<lambda>p. strip_trailing NL)"
  unfolding control_law_def
proof (intro conjI allI impI)
  fix p v :: string and e :: "machine env"
  assume "v \<noteq> []"
  then show "wp (write_kernel_control_file control_os p v)
      (\<lambda>ok e'. (\<forall>q. q \<noteq> p \<longrightarrow> control_file (world e') q = control_file (world e) q) \<and>
        (ok \<longrightarrow> control_file (world e') p = strip_trailing NL v)) e"
    by (simp add: wp_def control_os_write control_file_def)
next
  fix d and w :: machine
  assume "control_file w (d @ ''/cpus'') \<noteq> []"
  then obtain raw where "map_of (mc_files w) (d @ ''/cpus'') = Some raw"
    by (auto simp: control_file_def split: option.splits)
  from map_of_SomeD [OF this] have "d @ ''/cpus'' \<in> fst ` set (mc_files w)" by force
  moreover have "str_starts (d @ ''/cpus'') (d @ ''/'')" by (simp add: str_starts_iff)
  ultimately have "\<exists>f \<in> fst ` set (mc_files w). str_starts f (d @ ''/'')" by blast
  then show "fst (run_state (os_stat control_os d) w) = Directory"
    by (simp add: control_os_def)
qed (auto simp: control_os_def model_os_def keeps_def shows_file_def control_file_def grows_def strip_trailing_def split: option.split)

end
