(* ===== verification/Config_Parser.thy ===== *)
theory Config_Parser
  imports Config_Types File_Utils Cpu_Mask
begin

section \<open>Reading the configuration file (config/config\_parser.hpp)\<close>

text \<open>
  The JSON library is not under \<open>src/\<close>: \<open>js_parse\<close> turns the text of the file into a value or fails,
  and \<open>js_int\<close> is its conversion \<open>get<int>\<close> of an integer of any size. Everything the code does with the
  value is here: the bounded numbers, the masks, the scenes, the rules, the test for names that
  become directories, and the resolution of references. No law of the library is assumed: the
  main results, the ranges and the resolved references (\<open>parse_config_ok\<close>),
  hold of any file and any conversion.
\<close>

unbundle bit_operations_syntax

subsection \<open>JSON values\<close>

datatype json =
    JNull
  | JBool bool
  | JInt int
  | JFloat
  | JString string
  | JArray "json list"
  | JObject "(string \<times> json) list"

record json_lib =
  js_parse :: "string \<Rightarrow> json option"
  js_int :: "int \<Rightarrow> int"

definition json_field :: "json \<Rightarrow> string \<Rightarrow> json option" where
  "json_field j name = (case j of JObject entries \<Rightarrow> map_of entries name | _ \<Rightarrow> None)"

definition str_field :: "json \<Rightarrow> string \<Rightarrow> string option" where
  "str_field j name = (case json_field j name of Some (JString s) \<Rightarrow> Some s | _ \<Rightarrow> None)"

definition bool_field :: "json \<Rightarrow> string \<Rightarrow> bool option" where
  "bool_field j name = (case json_field j name of Some (JBool b) \<Rightarrow> Some b | _ \<Rightarrow> None)"

definition int_field :: "json_lib \<Rightarrow> json \<Rightarrow> string \<Rightarrow> int option" where
  "int_field js j name = (case json_field j name of Some (JInt n) \<Rightarrow> Some (js_int js n) | _ \<Rightarrow> None)"

definition the_default :: "'a \<Rightarrow> 'a option \<Rightarrow> 'a" where
  "the_default d r = (case r of None \<Rightarrow> d | Some x \<Rightarrow> x)"

text \<open>A number of the file if it is there and in its range, and the default otherwise.\<close>

definition bounded_int :: "json_lib \<Rightarrow> json \<Rightarrow> string \<Rightarrow> int \<Rightarrow> int \<Rightarrow> int \<Rightarrow> int" where
  "bounded_int js j name fallback min_value max_value =
     (let v = the_default fallback (int_field js j name)
      in if v < min_value \<or> max_value < v then fallback else v)"

subsection \<open>Names that become directories\<close>

definition is_ascii_space :: "char \<Rightarrow> bool" where
  "is_ascii_space c \<longleftrightarrow> (of_char c :: int) \<in> {0x20, 0x09, 0x0a, 0x0d, 0x0c, 0x0b}"

text \<open>One character of UTF-8: its bits in the first byte and its width.\<close>

definition utf8_lead :: "int \<Rightarrow> nat \<Rightarrow> (int \<times> nat) option" where
  "utf8_lead lead len =
     (if lead < 0x80 then Some (lead, 1)
      else if lead AND 0xe0 = 0xc0 \<and> 1 < len then Some (lead AND 0x1f, 2)
      else if lead AND 0xf0 = 0xe0 \<and> 2 < len then Some (lead AND 0x0f, 3)
      else if lead AND 0xf8 = 0xf0 \<and> 3 < len then Some (lead AND 0x07, 4)
      else None)"

fun utf8_rest :: "int \<Rightarrow> int list \<Rightarrow> int option" where
  "utf8_rest cp [] = Some cp"
| "utf8_rest cp (b # bs) =
     (if b AND 0xc0 \<noteq> 0x80 then None else utf8_rest (push_bit 6 cp OR (b AND 0x3f)) bs)"

definition unicode_space :: "int \<Rightarrow> bool" where
  "unicode_space cp \<longleftrightarrow> cp = 0x85 \<or> cp = 0xa0 \<or> cp = 0x1680 \<or> (0x2000 \<le> cp \<and> cp \<le> 0x200a) \<or>
     cp = 0x2028 \<or> cp = 0x2029 \<or> cp = 0x202f \<or> cp = 0x205f \<or> cp = 0x3000"

definition invisible :: "int \<Rightarrow> bool" where
  "invisible cp \<longleftrightarrow> cp \<le> 0x1f \<or> cp = 0x7f \<or> unicode_space cp \<or> (0x200b \<le> cp \<and> cp \<le> 0x200f) \<or>
     (0x202a \<le> cp \<and> cp \<le> 0x202e) \<or> cp = 0x2060 \<or> (0x2066 \<le> cp \<and> cp \<le> 0x2069) \<or> cp = 0xfeff"

definition overlong :: "nat \<Rightarrow> int \<Rightarrow> bool" where
  "overlong width cp \<longleftrightarrow> (width = 2 \<and> cp < 0x80) \<or> (width = 3 \<and> cp < 0x800) \<or> (width = 4 \<and> cp < 0x10000)"

definition allowed_codepoint :: "nat \<Rightarrow> int \<Rightarrow> bool" where
  "allowed_codepoint width cp \<longleftrightarrow> \<not> (overlong width cp \<or> 0x10ffff < cp \<or> (0xd800 \<le> cp \<and> cp \<le> 0xdfff) \<or>
     invisible cp \<or> cp = of_char (CHR ''/'') \<or> cp = of_char (CHR 0x5C) \<or> cp = of_char (CHR '':''))"

function safe_bytes :: "int list \<Rightarrow> bool" where
  "safe_bytes [] = True"
| "safe_bytes (lead # bytes) = (case utf8_lead lead (Suc (length bytes)) of
     None \<Rightarrow> False
   | Some (cp0, width) \<Rightarrow>
       (case utf8_rest cp0 (take (width - 1) bytes) of
          None \<Rightarrow> False
        | Some cp \<Rightarrow> allowed_codepoint width cp \<and> safe_bytes (drop (width - 1) bytes)))"
  by pat_completeness auto
termination
  by (relation "measure length") auto

definition is_safe_cgroup_component :: "string \<Rightarrow> bool" where
  "is_safe_cgroup_component name \<longleftrightarrow>
     \<not> (name = [] \<or> name = ''.'' \<or> name = ''..'' \<or> 128 < length name) \<and>
     \<not> (is_ascii_space (hd name) \<or> is_ascii_space (last name)) \<and> safe_bytes (map of_char name)"

subsection \<open>Sections of the file\<close>

definition parse_meta :: "json \<Rightarrow> Config \<Rightarrow> Config" where
  "parse_meta j config = (case json_field j ''meta'' of
     Some (JObject m) \<Rightarrow> config\<lparr>
       meta_name := the_default (meta_name config) (str_field (JObject m) ''name''),
       meta_author := the_default (meta_author config) (str_field (JObject m) ''author'')\<rparr>
   | _ \<Rightarrow> config)"

definition parse_timing :: "json_lib \<Rightarrow> json \<Rightarrow> TimingConfig \<Rightarrow> TimingConfig" where
  "parse_timing js sched_json timing = (case json_field sched_json ''timing'' of
     Some (JObject m) \<Rightarrow>
       (let parse = bounded_int js (JObject m);
            initial = parse ''config_retry_initial_delay_s'' 1 1 60;
            longest = parse ''config_retry_max_delay_s'' 5 1 300
        in \<lparr>event_throttle_ms = parse ''event_throttle_ms'' 50 0 5000,
            min_schedule_interval_ms = parse ''min_schedule_interval_ms'' 200 0 60000,
            schedule_cleanup_interval_ms = parse ''schedule_cleanup_interval_ms'' 5000 100 600000,
            cgroup_check_interval_ms = parse ''cgroup_check_interval_ms'' 1000 0 60000,
            cpuset_retry_count = parse ''cpuset_retry_count'' 3 1 20,
            cpuset_retry_interval_ms = parse ''cpuset_retry_interval_ms'' 10 0 1000,
            cpuset_group_check_ttl_ms = parse ''cpuset_group_check_ttl_ms'' 1000 0 60000,
            process_cache_ttl_ms = parse ''process_cache_ttl_ms'' 100 0 60000,
            file_cache_ttl_ms = parse ''file_cache_ttl_ms'' 100 0 60000,
            cgroup_cache_ttl_ms = parse ''cgroup_cache_ttl_ms'' 100 0 60000,
            monitor_initial_restart_delay_s = parse ''monitor_initial_restart_delay_s'' 1 0 60,
            monitor_restart_retry_delay_s = parse ''monitor_restart_retry_delay_s'' 5 1 300,
            config_retry_initial_delay_s = initial,
            config_retry_max_delay_s = (if longest < initial then initial else longest)\<rparr>)
   | _ \<Rightarrow> timing)"

definition parse_log :: "json \<Rightarrow> LogConfig \<Rightarrow> LogConfig" where
  "parse_log sched_json log = (case json_field sched_json ''log'' of
     Some (JObject m) \<Rightarrow> \<lparr>lc_level = the_default (lc_level log) (str_field (JObject m) ''level''),
       lc_output = the_default (lc_output log) (str_field (JObject m) ''output'')\<rparr>
   | _ \<Rightarrow> log)"

definition parse_cpu :: "json_lib \<Rightarrow> json \<Rightarrow> int option" where
  "parse_cpu js cpu = (case cpu of
     JInt n \<Rightarrow> (let value = js_int js n
       in if value < 0 \<or> int CPU_SETSIZE \<le> value then None else Some value)
   | _ \<Rightarrow> None)"

definition parse_mask :: "json_lib \<Rightarrow> string \<times> json \<Rightarrow> int list option" where
  "parse_mask js m =
     (if \<not> is_safe_cgroup_component (fst m) then None
      else case snd m of
        JArray cpus \<Rightarrow> (let mask_cpus = remdups_adj (sort (List.map_filter (parse_cpu js) cpus))
          in if mask_cpus = [] then None else Some mask_cpus)
      | _ \<Rightarrow> None)"

text \<open>The loops over the entries of an object that fill a \<open>std::map\<close>; entries without a value are skipped.\<close>

definition object_map :: "(string \<times> json \<Rightarrow> 'v option) \<Rightarrow> (string \<times> json) list \<Rightarrow> (string, 'v) umap" where
  "object_map f entries =
     fold (\<lambda>e acc. case f e of None \<Rightarrow> acc | Some v \<Rightarrow> AList.update (fst e) v acc) entries []"

definition parse_cpumask :: "json_lib \<Rightarrow> json \<Rightarrow> (string, int list) umap" where
  "parse_cpumask js sched_json = (case json_field sched_json ''cpumask'' of
     Some (JObject masks) \<Rightarrow> object_map (parse_mask js) masks
   | _ \<Rightarrow> [])"

definition parse_scene :: "json \<Rightarrow> AffinityScene" where
  "parse_scene val = \<lparr>as_bg = the_default [] (str_field val ''bg''),
     as_fg = the_default [] (str_field val ''fg''),
     as_top = (case str_field val ''touch'' of Some s \<Rightarrow> s | None \<Rightarrow> the_default [] (str_field val ''top''))\<rparr>"

definition parse_affinity :: "json \<Rightarrow> (string, AffinityScene) umap" where
  "parse_affinity sched_json = (case json_field sched_json ''affinity'' of
     Some (JObject scenes) \<Rightarrow>
       object_map (\<lambda>e. case snd e of JObject m \<Rightarrow> Some (parse_scene (JObject m)) | _ \<Rightarrow> None) scenes
   | _ \<Rightarrow> [])"

definition is_valid_prio_value :: "int \<Rightarrow> bool" where
  "is_valid_prio_value value \<longleftrightarrow> value = 0 \<or> (1 \<le> value \<and> value \<le> 98) \<or> (100 \<le> value \<and> value \<le> 139) \<or>
     value = -1 \<or> value = -2 \<or> value = -3"

definition parse_prio_value :: "json_lib \<Rightarrow> json \<Rightarrow> string \<Rightarrow> int \<Rightarrow> int" where
  "parse_prio_value js val state_name fallback = (case int_field js val state_name of
     None \<Rightarrow> fallback | Some value \<Rightarrow> if is_valid_prio_value value then value else fallback)"

definition parse_prio_scene :: "json_lib \<Rightarrow> json \<Rightarrow> PrioScene" where
  "parse_prio_scene js val = \<lparr>ps_bg = parse_prio_value js val ''bg'' 0, ps_fg = parse_prio_value js val ''fg'' 0,
     ps_top = (if json_field val ''touch'' \<noteq> None then parse_prio_value js val ''touch'' 0
               else parse_prio_value js val ''top'' 0)\<rparr>"

definition parse_prio :: "json_lib \<Rightarrow> json \<Rightarrow> (string, PrioScene) umap" where
  "parse_prio js sched_json = (case json_field sched_json ''prio'' of
     Some (JObject scenes) \<Rightarrow>
       object_map (\<lambda>e. case snd e of JObject m \<Rightarrow> Some (parse_prio_scene js (JObject m)) | _ \<Rightarrow> None) scenes
   | _ \<Rightarrow> [])"

definition parse_limit :: "json_lib \<Rightarrow> json \<Rightarrow> string \<Rightarrow> int \<Rightarrow> int option" where
  "parse_limit js tr name max_value = (case int_field js tr name of
     None \<Rightarrow> None | Some value \<Rightarrow> if 0 \<le> value \<and> value \<le> max_value then Some value else None)"

definition parse_thread_rule :: "json_lib \<Rightarrow> json \<Rightarrow> ThreadRule" where
  "parse_thread_rule js tr = \<lparr>tr_keyword = the_default ''.'' (str_field tr ''k''),
     tr_affinity_class = the_default ''auto'' (str_field tr ''ac''),
     tr_prio_class = the_default ''auto'' (str_field tr ''pc''),
     tr_uclamp_max = parse_limit js tr ''uclamp_max'' 100, tr_cpu_share = parse_limit js tr ''cpu_share'' 1024,
     tr_enable_limit = the_default False (bool_field tr ''enable_limit'')\<rparr>"

definition parse_thread_rules :: "json_lib \<Rightarrow> json \<Rightarrow> ThreadRule list" where
  "parse_thread_rules js rule = (case json_field rule ''rules'' of
     Some (JArray trs) \<Rightarrow>
       List.map_filter (\<lambda>tr. case tr of JObject m \<Rightarrow> Some (parse_thread_rule js tr) | _ \<Rightarrow> None) trs
   | _ \<Rightarrow> [])"

text \<open>
  One entry of the rules, with the names seen so far: a name counts as seen once it is safe, even
  when the rule is then ignored for its expression.
\<close>

definition parse_rule :: "json_lib \<Rightarrow> json \<Rightarrow> string set \<Rightarrow> string set \<times> ProcessRule option" where
  "parse_rule js rule seen = (case rule of
     JObject m \<Rightarrow>
       (let name = the_default [] (str_field rule ''name'')
        in if \<not> is_safe_cgroup_component name \<or> name \<in> seen then (seen, None)
           else (insert name seen,
             case str_field rule ''regex'' of
               None \<Rightarrow> None
             | Some regex \<Rightarrow> if regex = [] then None
                 else Some \<lparr>pr_name = name, pr_regex_str = regex,
                   pr_pinned = the_default False (bool_field rule ''pinned''),
                   pr_topfore = the_default False (bool_field rule ''topfore''),
                   pr_thread_rules = parse_thread_rules js rule\<rparr>))
   | _ \<Rightarrow> (seen, None))"

fun parse_rule_list :: "json_lib \<Rightarrow> string set \<Rightarrow> json list \<Rightarrow> ProcessRule list" where
  "parse_rule_list js seen [] = []"
| "parse_rule_list js seen (rule # rules) = (case parse_rule js rule seen of
     (seen', None) \<Rightarrow> parse_rule_list js seen' rules
   | (seen', Some pr) \<Rightarrow> pr # parse_rule_list js seen' rules)"

definition parse_rules :: "json_lib \<Rightarrow> json \<Rightarrow> ProcessRule list" where
  "parse_rules js sched_json = (case json_field sched_json ''rules'' of
     Some (JArray rules) \<Rightarrow> parse_rule_list js {} rules | _ \<Rightarrow> [])"

subsection \<open>References between the sections\<close>

definition validate_affinity_mask :: "(string, int list) umap \<Rightarrow> string \<Rightarrow> string" where
  "validate_affinity_mask masks mask_name =
     (if mask_name \<noteq> [] \<and> map_of masks mask_name = None then [] else mask_name)"

definition validate_scene :: "(string, int list) umap \<Rightarrow> AffinityScene \<Rightarrow> AffinityScene" where
  "validate_scene masks scene = \<lparr>as_bg = validate_affinity_mask masks (as_bg scene),
     as_fg = validate_affinity_mask masks (as_fg scene), as_top = validate_affinity_mask masks (as_top scene)\<rparr>"

definition validate_class :: "(string, 'v) umap \<Rightarrow> string \<Rightarrow> string" where
  "validate_class known c = (if c \<noteq> [] \<and> c \<noteq> ''auto'' \<and> map_of known c = None then ''auto'' else c)"

definition validate_thread_rule :: "SchedConfig \<Rightarrow> ThreadRule \<Rightarrow> ThreadRule" where
  "validate_thread_rule cfg t = t\<lparr>tr_affinity_class := validate_class (sc_affinity cfg) (tr_affinity_class t),
     tr_prio_class := validate_class (sc_prio cfg) (tr_prio_class t)\<rparr>"

definition validate_references :: "SchedConfig \<Rightarrow> SchedConfig" where
  "validate_references cfg =
     (let cfg1 = cfg\<lparr>sc_affinity := map (\<lambda>(name, scene). (name, validate_scene (sc_cpumask cfg) scene)) (sc_affinity cfg)\<rparr>
      in cfg1\<lparr>sc_rules := map (\<lambda>r. r\<lparr>pr_thread_rules := map (validate_thread_rule cfg1) (pr_thread_rules r)\<rparr>)
           (sc_rules cfg1)\<rparr>)"

subsection \<open>The whole file\<close>

definition parse_sched_object :: "json_lib \<Rightarrow> json \<Rightarrow> SchedConfig \<Rightarrow> SchedConfig" where
  "parse_sched_object js j cfg = validate_references (cfg\<lparr>
     sc_enable := the_default (sc_enable cfg) (bool_field j ''enable''),
     sc_case_insensitive := the_default (sc_case_insensitive cfg) (bool_field j ''case_insensitive''),
     sc_refresh_interval_ms := bounded_int js j ''refresh_interval_ms'' 2000 1 600000,
     sc_highspeed_sched_ms := bounded_int js j ''highspeed_sched_ms'' 300 1 60000,
     sc_top_scan_budget_us := bounded_int js j ''top_scan_budget_us'' 4000 500 20000,
     sc_full_scan_budget_us := bounded_int js j ''full_scan_budget_us'' 12000 1000 50000,
     sc_scan_batch_size := bounded_int js j ''scan_batch_size'' 32 1 256,
     sc_scan_batch_yield_us := bounded_int js j ''scan_batch_yield_us'' 0 0 1000,
     sc_timing := parse_timing js j (sc_timing cfg),
     sc_log := parse_log j (sc_log cfg),
     sc_cpumask := parse_cpumask js j, sc_affinity := parse_affinity j, sc_prio := parse_prio js j,
     sc_rules := parse_rules js j\<rparr>)"

definition parse_sched :: "json_lib \<Rightarrow> json \<Rightarrow> SchedConfig \<Rightarrow> SchedConfig" where
  "parse_sched js j cfg = (case json_field j ''modules'' of
     Some (JObject m) \<Rightarrow> (case json_field (JObject m) ''sched'' of
         Some (JObject s) \<Rightarrow> parse_sched_object js (JObject s) cfg
       | _ \<Rightarrow> cfg\<lparr>sc_enable := False\<rparr>)
   | _ \<Rightarrow> cfg\<lparr>sc_enable := False\<rparr>)"

text \<open>\<open>None\<close> is a result without success.\<close>

definition parse_config :: "json_lib \<Rightarrow> 'w os \<Rightarrow> string \<Rightarrow> ('w env, Config option) state" where
  "parse_config js os path = do {
     text \<leftarrow> sys (os_read_all os path);
     State_Monad.return (case text of
       None \<Rightarrow> None
     | Some s \<Rightarrow> (case js_parse js s of
         Some (JObject m) \<Rightarrow>
           (let c = parse_meta (JObject m) default_config
            in Some (c\<lparr>sched := parse_sched js (JObject m) (sched c)\<rparr>))
       | _ \<Rightarrow> None)) }"

subsection \<open>Ranges\<close>

lemma bounded_int_range: "lo \<le> d \<Longrightarrow> d \<le> hi \<Longrightarrow> lo \<le> bounded_int js j name d lo hi \<and> bounded_int js j name d lo hi \<le> hi"
  by (simp add: bounded_int_def Let_def)

lemma set_alist_update: "set (AList.update k v m) \<subseteq> insert (k, v) (set m)"
  by (induction m) auto

lemma object_map_all:
  assumes "\<And>e v. e \<in> set entries \<Longrightarrow> f e = Some v \<Longrightarrow> P (fst e) v" "(k, v) \<in> set (object_map f entries)"
  shows "P k v"
proof -
  have "(k, v) \<in> set (fold (\<lambda>e acc. case f e of None \<Rightarrow> acc | Some v \<Rightarrow> AList.update (fst e) v acc) entries acc) \<Longrightarrow>
      \<forall>(k, v) \<in> set acc. P k v \<Longrightarrow> P k v" for acc
    using assms(1)
  proof (induction entries arbitrary: acc)
    case (Cons e es)
    show ?case
    proof (cases "f e")
      case (Some w)
      with Cons.prems(3) have "P (fst e) w" by simp
      with Cons.prems(2) set_alist_update [of "fst e" w acc]
      have "\<forall>(k, v) \<in> set (AList.update (fst e) w acc). P k v" by blast
      with Cons.IH Cons.prems Some show ?thesis by simp
    qed (use Cons in simp)
  qed auto
  with assms(2) show ?thesis by (auto simp: object_map_def)
qed

lemma object_map_ok: "umap_ok (object_map f entries)"
proof -
  have "umap_ok acc \<Longrightarrow>
      umap_ok (fold (\<lambda>e acc. case f e of None \<Rightarrow> acc | Some v \<Rightarrow> AList.update (fst e) v acc) entries acc)" for acc
    by (induction entries arbitrary: acc) (auto split: option.split)
  then show ?thesis by (simp add: object_map_def)
qed

definition timing_in_range :: "TimingConfig \<Rightarrow> bool" where
  "timing_in_range t \<longleftrightarrow>
     event_throttle_ms t \<in> {0..5000} \<and> min_schedule_interval_ms t \<in> {0..60000} \<and>
     schedule_cleanup_interval_ms t \<in> {100..600000} \<and> cgroup_check_interval_ms t \<in> {0..60000} \<and>
     cpuset_retry_count t \<in> {1..20} \<and> cpuset_retry_interval_ms t \<in> {0..1000} \<and>
     cpuset_group_check_ttl_ms t \<in> {0..60000} \<and> process_cache_ttl_ms t \<in> {0..60000} \<and>
     file_cache_ttl_ms t \<in> {0..60000} \<and> cgroup_cache_ttl_ms t \<in> {0..60000} \<and>
     monitor_initial_restart_delay_s t \<in> {0..60} \<and> monitor_restart_retry_delay_s t \<in> {1..300} \<and>
     config_retry_initial_delay_s t \<in> {1..60} \<and>
     config_retry_max_delay_s t \<in> {config_retry_initial_delay_s t..300}"

definition mask_ok :: "string \<Rightarrow> int list \<Rightarrow> bool" where
  "mask_ok name cpus \<longleftrightarrow> is_safe_cgroup_component name \<and> cpus \<noteq> [] \<and> sorted_wrt (<) cpus \<and>
     set cpus \<subseteq> {0..<int CPU_SETSIZE}"

definition thread_rule_in_range :: "ThreadRule \<Rightarrow> bool" where
  "thread_rule_in_range t \<longleftrightarrow> (\<forall>n. tr_uclamp_max t = Some n \<longrightarrow> n \<in> {0..100}) \<and>
     (\<forall>n. tr_cpu_share t = Some n \<longrightarrow> n \<in> {0..1024})"

definition sched_in_range :: "SchedConfig \<Rightarrow> bool" where
  "sched_in_range cfg \<longleftrightarrow>
     sc_refresh_interval_ms cfg \<in> {1..600000} \<and> sc_highspeed_sched_ms cfg \<in> {1..60000} \<and>
     sc_top_scan_budget_us cfg \<in> {500..20000} \<and> sc_full_scan_budget_us cfg \<in> {1000..50000} \<and>
     sc_scan_batch_size cfg \<in> {1..256} \<and> sc_scan_batch_yield_us cfg \<in> {0..1000} \<and>
     timing_in_range (sc_timing cfg) \<and>
     (\<forall>(name, cpus) \<in> set (sc_cpumask cfg). mask_ok name cpus) \<and>
     (\<forall>(name, s) \<in> set (sc_prio cfg). is_valid_prio_value (ps_bg s) \<and> is_valid_prio_value (ps_fg s) \<and>
        is_valid_prio_value (ps_top s)) \<and>
     (\<forall>r \<in> set (sc_rules cfg). \<forall>t \<in> set (pr_thread_rules r). thread_rule_in_range t)"

lemma default_in_range: "sched_in_range default_sched"
  by (simp add: sched_in_range_def default_sched_def timing_in_range_def default_timing_def)

lemma parse_timing_in_range: "timing_in_range t \<Longrightarrow> timing_in_range (parse_timing js j t)"
proof -
  have b: "lo \<le> bounded_int js k n d lo hi" "bounded_int js k n d lo hi \<le> hi" if "lo \<le> d" "d \<le> hi" for k n d lo hi
    using bounded_int_range [OF that] by simp_all
  have initial: "bounded_int js k n 1 1 60 \<le> 300" for k n using b(2) [of 1 1 60 k n] by simp
  assume "timing_in_range t"
  then show ?thesis
    by (simp add: parse_timing_def Let_def timing_in_range_def b initial split: option.split json.split)
qed

lemma sorted_remdups_adj_strict: "sorted (xs :: int list) \<Longrightarrow> sorted_wrt (<) (remdups_adj xs)"
  by (induction xs rule: remdups_adj.induct) auto

lemma parse_mask_ok: "parse_mask js e = Some cpus \<Longrightarrow> mask_ok (fst e) cpus"
proof -
  have in_range: "parse_cpu js j = Some c \<Longrightarrow> 0 \<le> c \<and> c < int CPU_SETSIZE" for j c
    by (auto simp: parse_cpu_def Let_def split: json.splits if_splits)
  have all: "set (List.map_filter (parse_cpu js) l) \<subseteq> {0..<int CPU_SETSIZE}" for l
    using in_range by (auto simp: List.map_filter_def)
  assume "parse_mask js e = Some cpus"
  then obtain l where "cpus = remdups_adj (sort (List.map_filter (parse_cpu js) l))" "cpus \<noteq> []"
    "is_safe_cgroup_component (fst e)"
    by (auto simp: parse_mask_def Let_def split: if_splits json.splits)
  with all [of l] show ?thesis by (simp add: mask_ok_def sorted_remdups_adj_strict)
qed

lemma parse_cpumask_ok: "(name, cpus) \<in> set (parse_cpumask js j) \<Longrightarrow> mask_ok name cpus"
  unfolding parse_cpumask_def
  by (auto split: option.splits json.splits elim!: object_map_all [where P = mask_ok, rotated] dest: parse_mask_ok)

lemma parse_prio_ok:
  "(name, s) \<in> set (parse_prio js j) \<Longrightarrow>
   is_valid_prio_value (ps_bg s) \<and> is_valid_prio_value (ps_fg s) \<and> is_valid_prio_value (ps_top s)"
proof -
  let ?P = "\<lambda>(name :: string) s. is_valid_prio_value (ps_bg s) \<and> is_valid_prio_value (ps_fg s) \<and> is_valid_prio_value (ps_top s)"
  have "is_valid_prio_value (parse_prio_value js v n 0)" for v n
    by (simp add: parse_prio_value_def is_valid_prio_value_def split: option.split)
  then have "?P n (parse_prio_scene js v)" for n v by (simp add: parse_prio_scene_def)
  then show "(name, s) \<in> set (parse_prio js j) \<Longrightarrow> ?P name s"
    unfolding parse_prio_def
    by (auto split: option.splits json.splits elim!: object_map_all [where P = ?P, rotated])
qed

lemma parse_rules_in_range:
  "r \<in> set (parse_rules js j) \<Longrightarrow> t \<in> set (pr_thread_rules r) \<Longrightarrow> thread_rule_in_range t"
proof -
  have one: "thread_rule_in_range (parse_thread_rule js tr)" for tr
    by (auto simp: thread_rule_in_range_def parse_thread_rule_def parse_limit_def split: option.splits if_splits)
  have some: "parse_rule js v seen = (seen', Some r) \<Longrightarrow> pr_thread_rules r = parse_thread_rules js v" for v seen seen' r
    by (auto simp: parse_rule_def Let_def split: json.splits if_splits option.splits)
  have all: "\<forall>t \<in> set (parse_thread_rules js v). thread_rule_in_range t" for v
    using one by (auto simp: parse_thread_rules_def List.map_filter_def split: option.splits json.splits)
  have "r \<in> set (parse_rule_list js seen rs) \<Longrightarrow> \<forall>t \<in> set (pr_thread_rules r). thread_rule_in_range t" for seen rs
  proof (induction rs arbitrary: seen)
    case (Cons v rs)
    obtain seen' o' where v: "parse_rule js v seen = (seen', o')" by (metis surj_pair)
    with Cons show ?case by (cases o') (auto simp: some all)
  qed simp
  then show "r \<in> set (parse_rules js j) \<Longrightarrow> t \<in> set (pr_thread_rules r) \<Longrightarrow> thread_rule_in_range t"
    by (auto simp: parse_rules_def split: option.splits json.splits)
qed

subsection \<open>Names and references\<close>

definition names_ok :: "SchedConfig \<Rightarrow> bool" where
  "names_ok cfg \<longleftrightarrow> umap_ok (sc_cpumask cfg) \<and> umap_ok (sc_affinity cfg) \<and> umap_ok (sc_prio cfg) \<and>
     distinct (map pr_name (sc_rules cfg)) \<and>
     (\<forall>r \<in> set (sc_rules cfg). is_safe_cgroup_component (pr_name r) \<and> pr_regex_str r \<noteq> [])"

definition references_ok :: "SchedConfig \<Rightarrow> bool" where
  "references_ok cfg \<longleftrightarrow>
     (\<forall>(name, s) \<in> set (sc_affinity cfg). \<forall>m \<in> {as_bg s, as_fg s, as_top s}.
        m = [] \<or> map_of (sc_cpumask cfg) m \<noteq> None) \<and>
     (\<forall>r \<in> set (sc_rules cfg). \<forall>t \<in> set (pr_thread_rules r).
        (tr_affinity_class t \<in> {[], ''auto''} \<or> map_of (sc_affinity cfg) (tr_affinity_class t) \<noteq> None) \<and>
        (tr_prio_class t \<in> {[], ''auto''} \<or> map_of (sc_prio cfg) (tr_prio_class t) \<noteq> None))"

lemma parse_rule_list_names:
  "distinct (map pr_name (parse_rule_list js seen rs)) \<and>
   set (map pr_name (parse_rule_list js seen rs)) \<inter> seen = {} \<and>
   (\<forall>r \<in> set (parse_rule_list js seen rs). is_safe_cgroup_component (pr_name r) \<and> pr_regex_str r \<noteq> [])"
proof (induction rs arbitrary: seen)
  case (Cons v rs)
  obtain seen' o' where v: "parse_rule js v seen = (seen', o')" by (metis surj_pair)
  then have "seen \<subseteq> seen'" by (auto simp: parse_rule_def Let_def split: json.splits if_splits)
  moreover have "pr_name r \<in> seen' - seen \<and> is_safe_cgroup_component (pr_name r) \<and> pr_regex_str r \<noteq> []"
    if "o' = Some r" for r
    using v that by (auto simp: parse_rule_def Let_def split: json.splits if_splits option.splits)
  ultimately show ?case using Cons.IH [of seen'] v by (cases o') auto
qed simp

lemma parse_sched_object_names: "names_ok (parse_sched_object js j cfg)"
proof -
  have maps: "umap_ok (parse_cpumask js j)" "umap_ok (parse_affinity j)" "umap_ok (parse_prio js j)"
    by (simp_all add: parse_cpumask_def parse_affinity_def parse_prio_def object_map_ok
        split: option.split json.split)
  have scenes: "umap_ok (map (\<lambda>(name, scene). (name, f scene)) m) = umap_ok m"
    for f :: "AffinityScene \<Rightarrow> AffinityScene" and m :: "(string, AffinityScene) umap"
    by (simp add: umap_ok_def case_prod_unfold comp_def)
  have rules: "distinct (map pr_name (parse_rules js j)) \<and>
      (\<forall>r \<in> set (parse_rules js j). is_safe_cgroup_component (pr_name r) \<and> pr_regex_str r \<noteq> [])"
    using parse_rule_list_names by (simp add: parse_rules_def split: option.split json.split)
  then show ?thesis
    by (simp add: parse_sched_object_def validate_references_def Let_def names_ok_def maps scenes comp_def)
qed

lemma validate_class_known:
  "validate_class known c = [] \<or> validate_class known c = ''auto'' \<or>
   (\<exists>v. map_of known (validate_class known c) = Some v)"
  by (auto simp: validate_class_def)

lemma parse_sched_object_references: "references_ok (parse_sched_object js j cfg)"
proof -
  have scene: "validate_affinity_mask masks m = [] \<or> map_of masks (validate_affinity_mask masks m) \<noteq> None" for masks m
    by (simp add: validate_affinity_mask_def)
  show ?thesis
    using scene
    by (simp add: references_ok_def validate_class_known parse_sched_object_def validate_references_def Let_def validate_scene_def
        validate_thread_rule_def case_prod_unfold)
qed

lemma parse_sched_object_in_range:
  assumes "sched_in_range cfg"
  shows "sched_in_range (parse_sched_object js j cfg)"
proof -
  have b: "lo \<le> bounded_int js k n d lo hi" "bounded_int js k n d lo hi \<le> hi" if "lo \<le> d" "d \<le> hi" for k n d lo hi
    using bounded_int_range [OF that] by simp_all
  have trs: "thread_rule_in_range (validate_thread_rule c t) = thread_rule_in_range t" for c t
    by (simp add: validate_thread_rule_def thread_rule_in_range_def)
  show ?thesis
    using assms parse_cpumask_ok [of _ _ js j] parse_prio_ok [of _ _ js j] parse_rules_in_range [of _ js j]
    by (auto simp: sched_in_range_def parse_sched_object_def validate_references_def Let_def b trs parse_timing_in_range)
qed

lemma no_rules_ok: "names_ok (cfg\<lparr>sc_enable := b\<rparr>) = names_ok cfg" "references_ok (cfg\<lparr>sc_enable := b\<rparr>) = references_ok cfg"
  "sched_in_range (cfg\<lparr>sc_enable := b\<rparr>) = sched_in_range cfg"
  by (simp_all add: names_ok_def references_ok_def sched_in_range_def)

lemma default_config_ok: "names_ok default_sched" "references_ok default_sched"
  by (simp_all add: names_ok_def references_ok_def default_sched_def)

text \<open>The results for the whole file.\<close>

lemma parse_sched_ok:
  "names_ok (parse_sched js j default_sched) \<and> references_ok (parse_sched js j default_sched) \<and>
   sched_in_range (parse_sched js j default_sched)"
  by (simp add: parse_sched_def no_rules_ok default_config_ok default_in_range parse_sched_object_names
      parse_sched_object_references parse_sched_object_in_range split: option.split json.split)

lemma parse_config_ok:
  assumes "run_state (parse_config js os path) e = (Some c, e')"
  shows "names_ok (sched c)" "references_ok (sched c)" "sched_in_range (sched c)"
proof -
  have "sched (parse_meta j default_config) = default_sched" for j
    by (simp add: parse_meta_def default_config_def split: option.split json.split)
  with assms parse_sched_ok
  show "names_ok (sched c)" "references_ok (sched c)" "sched_in_range (sched c)"
    by (auto simp: parse_config_def Let_def split: prod.splits option.splits json.splits)
qed

subsection \<open>Safe names\<close>

text \<open>A byte that is a character of ASCII is an allowed one: none of those is part of a longer character.\<close>

lemma utf8_rest_high: "utf8_rest cp bs = Some c \<Longrightarrow> b \<in> set bs \<Longrightarrow> b AND 0xc0 = 0x80"
  by (induction cp bs rule: utf8_rest.induct) (auto split: if_splits)

lemma and_high_bit: "b AND 0xc0 = 0x80 \<Longrightarrow> 0 \<le> b \<Longrightarrow> 0x80 \<le> (b :: int)"
proof (rule ccontr)
  assume "b AND 0xc0 = 0x80" "0 \<le> b" "\<not> 0x80 \<le> b"
  then have "bit (b AND 0xc0) 7" by (simp add: bit_simps)
  then have "bit b 7" by (simp add: bit_and_iff)
  moreover have "b div 2 ^ 7 = 0" using \<open>0 \<le> b\<close> \<open>\<not> 0x80 \<le> b\<close> by simp
  ultimately show False by (simp add: bit_iff_odd)
qed

lemma safe_bytes_ascii: "safe_bytes bs \<Longrightarrow> b \<in> set bs \<Longrightarrow> 0 \<le> b \<Longrightarrow> b < 0x80 \<Longrightarrow> allowed_codepoint 1 b"
proof (induction bs rule: safe_bytes.induct)
  case (2 lead bytes)
  then obtain cp0 width cp where lead: "utf8_lead lead (Suc (length bytes)) = Some (cp0, width)"
    and rest: "utf8_rest cp0 (take (width - 1) bytes) = Some cp"
    and ok: "allowed_codepoint width cp" "safe_bytes (drop (width - 1) bytes)"
    by (auto split: option.splits)
  have first: "allowed_codepoint 1 lead" if "lead < 0x80"
    using that lead rest ok(1) by (auto simp: utf8_lead_def)
  have high: "b \<in> set (take (width - 1) bytes) \<Longrightarrow> \<not> b < 0x80"
    using utf8_rest_high [OF rest, of b] and_high_bit [of b] "2.prems"(3) by auto
  have "set bytes = set (take (width - 1) bytes) \<union> set (drop (width - 1) bytes)"
    by (metis append_take_drop_id set_append)
  with 2 lead rest ok first high show ?case by auto
qed simp

lemma safe_component_chars:
  assumes "is_safe_cgroup_component name" "c \<in> set name"
  shows "c \<notin> {CHR ''/'', CHR 0x5C, CHR '':'', NUL, NL}"
proof
  assume bad: "c \<in> {CHR ''/'', CHR 0x5C, CHR '':'', NUL, NL}"
  have "safe_bytes (map of_char name)" using assms(1) by (simp add: is_safe_cgroup_component_def)
  moreover have "(of_char c :: int) \<in> set (map of_char name)" using assms(2) by simp
  moreover have "0 \<le> (of_char c :: int)" "(of_char c :: int) < 0x80" using bad by (auto simp: NUL_def NL_def)
  ultimately have "allowed_codepoint 1 (of_char c)" by (rule safe_bytes_ascii)
  with bad show False by (auto simp: allowed_codepoint_def invisible_def NUL_def NL_def)
qed

subsection \<open>Numbers that do not fit\<close>

text \<open>
  The ranges are checked after the conversion to \<open>int\<close>. With a conversion that keeps the lower 32 bits, as a
  \<open>static_cast\<close> does, a processor number far out of range is taken for another processor
  instead of being dropped.
\<close>

lemma wide_cpu_number_wraps:
  assumes "\<And>n. js_int js n = signed_take_bit 31 n"
  shows "parse_cpu js (JInt (2 ^ 32 + 5)) = Some 5"
  by (simp add: parse_cpu_def assms CPU_SETSIZE_def)

text \<open>
  A \<open>touch\<close> that is no number hides \<open>top\<close> in a priority class; a \<open>touch\<close> that is no string does not do so in an
  affinity class.
\<close>

lemma unusable_touch_hides_top:
  "ps_top (parse_prio_scene js (JObject [(''touch'', JNull), (''top'', JInt 110)])) = 0"
  "as_top (parse_scene (JObject [(''touch'', JNull), (''top'', JString ''a'')])) = ''a''"
  by (simp_all add: parse_prio_scene_def parse_prio_value_def parse_scene_def json_field_def int_field_def
      str_field_def the_default_def)

text \<open>A rule that is dropped for want of a pattern still keeps a later rule from using its name.\<close>

lemma dropped_rule_keeps_name:
  "parse_rules js (JObject [(''rules'', JArray [JObject [(''name'', JString ''a'')],
     JObject [(''name'', JString ''a''), (''regex'', JString ''x'')]])]) = []"
  by code_simp

end
