(* ===== verification/Cpuset_Setter.thy ===== *)
theory Cpuset_Setter
  imports Runtime
begin

section \<open>The cpuset and affinity setter (scheduler/cpuset\_setter.hpp)\<close>

text \<open>
  Moving a thread into a \<open>ReUperf_*\<close> cpuset group with bounded retries, the time-to-live
  cache of group readiness, and the takeover sequence that pins a thread to its CPUs. The
  sequence is a template in the code, over the six operations it calls; here it is
  a function of a record of six operations, so that its safety theorem holds for all of
  them. Main result: every state-changing operation of a takeover directly follows a
  successful identity check (\<open>takeover_monitored\<close>).
\<close>

subsection \<open>Readiness of a group\<close>

definition group_lookup :: "int \<Rightarrow> int \<Rightarrow> string \<Rightarrow> (string, bool \<times> int) umap \<Rightarrow> bool option" where
  "group_lookup ttl_ms now path gs = (case map_of gs path of None \<Rightarrow> None
     | Some (ready, checked_at) \<Rightarrow> if now - checked_at < ttl_ms * NS_PER_MS then Some ready else None)"

definition is_group_ready :: "'w os \<Rightarrow> TimingConfig \<Rightarrow> string \<Rightarrow> ('w rt, bool) state" where
  "is_group_ready os tm path = do {
     now \<leftarrow> in_env (sys (os_now os));
     gs \<leftarrow> gets group_checks;
     (case group_lookup (cpuset_group_check_ttl_ms tm) now path gs of
        Some ready \<Rightarrow> State_Monad.return ready
      | None \<Rightarrow> do {
          cpus \<leftarrow> in_env (read_file os (path @ ''/cpus''));
          mems \<leftarrow> in_env (read_file os (path @ ''/mems''));
          tasks_ready \<leftarrow> in_env (file_exists os (path @ ''/tasks''));
          let ready = (cpus \<noteq> [] \<and> mems \<noteq> [] \<and> tasks_ready);
          modify (\<lambda>s. s\<lparr>group_checks := AList.update path (ready, now) (group_checks s)\<rparr>);
          State_Monad.return ready })
   }"

definition invalidate_group :: "string \<Rightarrow> ('w rt, unit) state" where
  "invalidate_group path = modify (\<lambda>s. s\<lparr>group_checks := AList.delete path (group_checks s)\<rparr>)"

subsection \<open>Moving a thread\<close>

text \<open>The retry loop; the argument is the number of attempts left.\<close>

fun move_attempts :: "'w os \<Rightarrow> int \<Rightarrow> string \<Rightarrow> int \<Rightarrow> nat \<Rightarrow> ('w rt, bool) state" where
  "move_attempts os interval_ms path tid 0 = State_Monad.return False"
| "move_attempts os interval_ms path tid (Suc n) = do {
     ok \<leftarrow> in_env (write_kernel_control_file os (path @ ''/tasks'') (to_string tid));
     if ok then State_Monad.return True
     else do {
       (if 0 < n \<and> 0 < interval_ms then in_env (sys (os_sleep_us os (interval_ms * 1000)))
        else State_Monad.return ());
       move_attempts os interval_ms path tid n
     }
   }"

definition cpuset_group_path :: "string \<Rightarrow> string" where
  "cpuset_group_path cpumask_name = ''/dev/cpuset/top-app/ReUperf_'' @ cpumask_name"

definition move_to_cpuset_cgroup ::
  "'w os \<Rightarrow> TimingConfig \<Rightarrow> int \<Rightarrow> string \<Rightarrow> ('w rt, bool) state" where
  "move_to_cpuset_cgroup os tm tid cpumask_name =
     (if tid \<le> 0 then State_Monad.return False
      else if cpumask_name = [] then State_Monad.return True
      else do {
        let path = cpuset_group_path cpumask_name;
        ready \<leftarrow> is_group_ready os tm path;
        if \<not> ready then State_Monad.return False
        else do {
          ok \<leftarrow> move_attempts os (cpuset_retry_interval_ms tm) path tid (nat (cpuset_retry_count tm));
          if ok then State_Monad.return True
          else do { invalidate_group path; State_Monad.return False }
        }
      })"

definition move_to_top_app_parent :: "'w os \<Rightarrow> int \<Rightarrow> ('w rt, bool) state" where
  "move_to_top_app_parent os tid =
     (if tid \<le> 0 then State_Monad.return False
      else in_env (write_cgroup_tasks os ''/dev/cpuset/top-app'' tid))"

definition set_affinity :: "'w os \<Rightarrow> Config \<Rightarrow> int \<Rightarrow> string \<Rightarrow> ProcessState \<Rightarrow> ('w rt, bool) state" where
  "set_affinity os cfg tid affinity_class st =
     (if tid \<le> 0 then State_Monad.return False
      else if get_cpus_for_affinity cfg affinity_class st = [] then State_Monad.return True
      else in_env (set_affinity_cpus os tid (get_cpus_for_affinity cfg affinity_class st)))"

definition restore_affinity :: "'w os \<Rightarrow> int \<Rightarrow> int list \<Rightarrow> ('w rt, bool) state" where
  "restore_affinity os tid cpus =
     (if tid \<le> 0 \<or> cpus = [] then State_Monad.return False else in_env (set_affinity_cpus os tid cpus))"

definition restore_cpuset_cgroup :: "'w os \<Rightarrow> int \<Rightarrow> string \<Rightarrow> ('w rt, bool) state" where
  "restore_cpuset_cgroup os tid cgroup_path =
     (if tid \<le> 0 \<or> cgroup_path = [] then State_Monad.return False
      else in_env (write_cgroup_tasks os cgroup_path tid))"

subsection \<open>The takeover sequence\<close>

record AffinityTakeoverResult =
  pre_affinity_succeeded :: bool
  initial_cpuset_succeeded :: bool
  recovery_pre_parent_affinity_succeeded :: bool
  parent_cpuset_succeeded :: bool
  recovery_pre_target_affinity_succeeded :: bool
  cpuset_succeeded :: bool
  post_affinity_succeeded :: bool
  cpuset_verified :: bool
  affinity_verified :: bool
  attempts :: nat

definition new_takeover :: AffinityTakeoverResult where
  "new_takeover = \<lparr>pre_affinity_succeeded = False, initial_cpuset_succeeded = False,
     recovery_pre_parent_affinity_succeeded = False, parent_cpuset_succeeded = False,
     recovery_pre_target_affinity_succeeded = False, cpuset_succeeded = False,
     post_affinity_succeeded = False, cpuset_verified = False, affinity_verified = False,
     attempts = 0\<rparr>"

definition success :: "AffinityTakeoverResult \<Rightarrow> bool" where
  "success r \<longleftrightarrow> cpuset_verified r \<and> affinity_verified r"

record 's takeover_ops =
  set_affinity_operation :: "int \<Rightarrow> int list \<Rightarrow> ('s, bool) state"
  move_target_operation :: "int \<Rightarrow> string \<Rightarrow> ('s, bool) state"
  move_parent_operation :: "int \<Rightarrow> ('s, bool) state"
  verify_cpuset_operation :: "int \<Rightarrow> int \<Rightarrow> string \<Rightarrow> ('s, bool) state"
  verify_affinity_operation :: "int \<Rightarrow> int list \<Rightarrow> ('s, bool) state"
  identity_operation :: "('s, bool) state"

text \<open>
  An iteration of the loop returns whether it left it with \<open>break\<close>, and the result
  so far. \<open>if_identity\<close> is \<open>if (!identity_operation()) break;\<close>.
\<close>

definition if_identity ::
  "'s takeover_ops \<Rightarrow> AffinityTakeoverResult \<Rightarrow> ('s, bool \<times> AffinityTakeoverResult) state
     \<Rightarrow> ('s, bool \<times> AffinityTakeoverResult) state" where
  "if_identity ops r k = do {
     ok \<leftarrow> identity_operation ops;
     if ok then k else State_Monad.return (True, r) }"

definition takeover_recovery ::
  "'s takeover_ops \<Rightarrow> int \<Rightarrow> string \<Rightarrow> int list \<Rightarrow> AffinityTakeoverResult
     \<Rightarrow> ('s, bool \<times> AffinityTakeoverResult) state" where
  "takeover_recovery ops tid mname cpus r =
     if_identity ops r (do {
       a \<leftarrow> set_affinity_operation ops tid cpus;
       let r1 = r\<lparr>recovery_pre_parent_affinity_succeeded := a\<rparr>;
       if_identity ops r1 (do {
         b \<leftarrow> move_parent_operation ops tid;
         let r2 = r1\<lparr>parent_cpuset_succeeded := b\<rparr>;
         if_identity ops r2 (do {
           c \<leftarrow> set_affinity_operation ops tid cpus;
           let r3 = r2\<lparr>recovery_pre_target_affinity_succeeded := c\<rparr>;
           if_identity ops r3 (do {
             d \<leftarrow> move_target_operation ops tid mname;
             State_Monad.return (False, r3\<lparr>cpuset_succeeded := d\<rparr>) }) }) }) })"

definition takeover_finish ::
  "'s takeover_ops \<Rightarrow> int \<Rightarrow> int \<Rightarrow> string \<Rightarrow> int list \<Rightarrow> AffinityTakeoverResult
     \<Rightarrow> ('s, bool \<times> AffinityTakeoverResult) state" where
  "takeover_finish ops pid tid mname cpus r =
     if_identity ops r (do {
       a \<leftarrow> set_affinity_operation ops tid cpus;
       let r1 = r\<lparr>post_affinity_succeeded := a\<rparr>;
       if_identity ops r1 (do {
         v \<leftarrow> verify_cpuset_operation ops pid tid mname;
         w \<leftarrow> verify_affinity_operation ops tid cpus;
         let r2 = r1\<lparr>cpuset_verified := v, affinity_verified := w\<rparr>;
         State_Monad.return (success r2, r2) }) })"

definition takeover_attempt ::
  "'s takeover_ops \<Rightarrow> int \<Rightarrow> int \<Rightarrow> string \<Rightarrow> int list \<Rightarrow> AffinityTakeoverResult
     \<Rightarrow> ('s, bool \<times> AffinityTakeoverResult) state" where
  "takeover_attempt ops pid tid mname cpus r =
     if_identity ops r (do {
       a \<leftarrow> set_affinity_operation ops tid cpus;
       let r1 = r\<lparr>attempts := attempts r + 1, pre_affinity_succeeded := a\<rparr>;
       if_identity ops r1 (do {
         b \<leftarrow> move_target_operation ops tid mname;
         let r2 = r1\<lparr>initial_cpuset_succeeded := b, cpuset_succeeded := b\<rparr>;
         (stop, r3) \<leftarrow> (if b then State_Monad.return (False, r2)
                        else takeover_recovery ops tid mname cpus r2);
         if stop then State_Monad.return (True, r3)
         else takeover_finish ops pid tid mname cpus r3 }) })"

fun takeover_loop ::
  "'s takeover_ops \<Rightarrow> int \<Rightarrow> int \<Rightarrow> string \<Rightarrow> int list \<Rightarrow> nat \<Rightarrow> AffinityTakeoverResult
     \<Rightarrow> ('s, AffinityTakeoverResult) state" where
  "takeover_loop ops pid tid mname cpus 0 r = State_Monad.return r"
| "takeover_loop ops pid tid mname cpus (Suc n) r = do {
     (stop, r1) \<leftarrow> takeover_attempt ops pid tid mname cpus r;
     if stop then State_Monad.return r1 else takeover_loop ops pid tid mname cpus n r1 }"

definition run_takeover_sequence ::
  "'s takeover_ops \<Rightarrow> int \<Rightarrow> int \<Rightarrow> string \<Rightarrow> int list \<Rightarrow> int \<Rightarrow> ('s, AffinityTakeoverResult) state" where
  "run_takeover_sequence ops pid tid mname cpus max_attempts =
     takeover_loop ops pid tid mname cpus (nat max_attempts) new_takeover"

subsection \<open>Applying a result\<close>

definition cpuset_ops ::
  "'w os \<Rightarrow> TimingConfig \<Rightarrow> int \<Rightarrow> int \<Rightarrow> nat \<Rightarrow> nat \<Rightarrow> 'w rt takeover_ops" where
  "cpuset_ops os tm pid tid process_start thread_start = \<lparr>
     set_affinity_operation = (\<lambda>t cpus. in_env (set_affinity_cpus os t cpus)),
     move_target_operation = (\<lambda>t mname. move_to_cpuset_cgroup os tm t mname),
     move_parent_operation = (\<lambda>t. move_to_top_app_parent os t),
     verify_cpuset_operation = (\<lambda>p t mname. do {
       paths \<leftarrow> in_env (get_thread_cgroup_paths_uncached os p t);
       State_Monad.return (tp_readable paths \<and> tp_cpuset paths = ''/top-app/ReUperf_'' @ mname) }),
     verify_affinity_operation = (\<lambda>t cpus. do {
       changed \<leftarrow> in_env (is_affinity_changed os t cpus);
       State_Monad.return (\<not> changed) }),
     identity_operation = in_env (identity_matches os pid tid process_start thread_start)\<rparr>"

definition cpuset_apply_with_result ::
  "'w os \<Rightarrow> Config \<Rightarrow> TimingConfig \<Rightarrow> int \<Rightarrow> int \<Rightarrow> MatchResult \<Rightarrow> string \<Rightarrow> nat \<Rightarrow> nat
     \<Rightarrow> ('w rt, AffinityTakeoverResult) state" where
  "cpuset_apply_with_result os cfg tm pid tid result cgroup_base process_start thread_start =
     (if tid \<le> 0 then State_Monad.return new_takeover
      else if \<not> mr_matched result \<or> mr_affinity_class result = [] \<or> mr_affinity_class result = ''auto''
              \<or> mr_cpumask_name result = []
      then State_Monad.return (new_takeover\<lparr>cpuset_verified := True, affinity_verified := True\<rparr>)
      else (let expected_cpus = get_cpus_for_affinity cfg (mr_affinity_class result) (mr_effective_state result)
            in if expected_cpus = [] then State_Monad.return new_takeover
               else run_takeover_sequence (cpuset_ops os tm pid tid process_start thread_start)
                      pid tid (mr_cpumask_name result) expected_cpus 2))"

subsection \<open>The group cache answers with recent checks\<close>

interpretation groups: ttl_cache "\<lambda>c. map_of c" "group_lookup ttl" "\<lambda>t k v. AList.update k (v, t)"
  "AList.delete" "\<lambda>_. True" "\<lambda>now t. now - t < ttl * NS_PER_MS" for ttl
  by unfold_locales (auto simp: group_lookup_def split: option.splits if_splits)

subsection \<open>Every mutation follows an identity check\<close>

datatype takeover_event =
    TIdentity bool
  | TSetAffinity bool
  | TMoveTarget bool
  | TMoveParent bool
  | TVerifyCpuset bool
  | TVerifyAffinity bool

text \<open>
  The monitor: \<open>Unchecked\<close> needs an identity check before anything else may happen,
  \<open>Checked\<close> allows one operation, \<open>Verifying\<close> waits for the second half of the
  verification, \<open>IdentityLost\<close> is a failed identity check, after which nothing may happen.
\<close>

datatype phase = Unchecked | Checked | Verifying bool | Verified bool | IdentityLost | Violation

fun phase_step :: "phase \<Rightarrow> takeover_event \<Rightarrow> phase" where
  "phase_step Unchecked (TIdentity b) = (if b then Checked else IdentityLost)"
| "phase_step (Verified ok) (TIdentity b) = (if ok then Violation else if b then Checked else IdentityLost)"
| "phase_step Checked (TSetAffinity b) = Unchecked"
| "phase_step Checked (TMoveTarget b) = Unchecked"
| "phase_step Checked (TMoveParent b) = Unchecked"
| "phase_step Checked (TVerifyCpuset b) = Verifying b"
| "phase_step (Verifying a) (TVerifyAffinity b) = Verified (a \<and> b)"
| "phase_step _ _ = Violation"

definition phase_of :: "takeover_event list \<Rightarrow> phase" where
  "phase_of es = foldl phase_step Unchecked es"

definition mutations :: "takeover_event list \<Rightarrow> nat" where
  "mutations es = length (filter (\<lambda>e. case e of TSetAffinity _ \<Rightarrow> True | TMoveTarget _ \<Rightarrow> True
     | TMoveParent _ \<Rightarrow> True | _ \<Rightarrow> False) es)"

definition recording :: "(bool \<Rightarrow> takeover_event) \<Rightarrow> ('s, bool) state \<Rightarrow> ('s \<times> takeover_event list, bool) state" where
  "recording ev m = State (\<lambda>s. case run_state m (fst s) of (b, t) \<Rightarrow> (b, (t, snd s @ [ev b])))"

definition recorded_ops :: "'s takeover_ops \<Rightarrow> ('s \<times> takeover_event list) takeover_ops" where
  "recorded_ops ops = \<lparr>
     set_affinity_operation = (\<lambda>t cpus. recording TSetAffinity (set_affinity_operation ops t cpus)),
     move_target_operation = (\<lambda>t m. recording TMoveTarget (move_target_operation ops t m)),
     move_parent_operation = (\<lambda>t. recording TMoveParent (move_parent_operation ops t)),
     verify_cpuset_operation = (\<lambda>p t m. recording TVerifyCpuset (verify_cpuset_operation ops p t m)),
     verify_affinity_operation = (\<lambda>t cpus. recording TVerifyAffinity (verify_affinity_operation ops t cpus)),
     identity_operation = recording TIdentity (identity_operation ops)\<rparr>"

lemma recorded_ops_sel [simp]:
  "set_affinity_operation (recorded_ops ops) t cpus = recording TSetAffinity (set_affinity_operation ops t cpus)"
  "move_target_operation (recorded_ops ops) t m = recording TMoveTarget (move_target_operation ops t m)"
  "move_parent_operation (recorded_ops ops) t = recording TMoveParent (move_parent_operation ops t)"
  "verify_cpuset_operation (recorded_ops ops) p t m = recording TVerifyCpuset (verify_cpuset_operation ops p t m)"
  "verify_affinity_operation (recorded_ops ops) t cpus = recording TVerifyAffinity (verify_affinity_operation ops t cpus)"
  "identity_operation (recorded_ops ops) = recording TIdentity (identity_operation ops)"
  by (simp_all add: recorded_ops_def)

abbreviation ph :: "'s \<times> takeover_event list \<Rightarrow> phase" where
  "ph s \<equiv> phase_of (snd s)"

lemma phase_of_snoc: "phase_of (es @ [e]) = phase_step (phase_of es) e"
  by (simp add: phase_of_def)

lemma hoare_recording:
  "hoare (\<lambda>s. ph s = p) (recording ev m) (\<lambda>b s. ph s = phase_step p (ev b))"
  by (auto simp: hoare_def recording_def phase_of_snoc split: prod.splits)

lemma hoare_recorded_op:
  assumes "\<And>b. phase_step p (ev b) = q b" "\<And>b. hoare (\<lambda>s. ph s = q b) (f b) R"
  shows "hoare (\<lambda>s. ph s = p) (State_Monad.bind (recording ev m) f) R"
  by (rule hoare_bind [OF hoare_recording]) (simp add: assms)

lemma hoare_if_identity:
  assumes "p = Unchecked \<or> p = Verified False"
    and "hoare (\<lambda>s. ph s = Checked) k R" "\<And>s. ph s = IdentityLost \<Longrightarrow> R (True, r) s"
  shows "hoare (\<lambda>s. ph s = p) (if_identity (recorded_ops ops) r k) R"
proof -
  have step: "phase_step p (TIdentity b) = (if b then Checked else IdentityLost)" for b
    using assms(1) by auto
  show ?thesis
    unfolding if_identity_def recorded_ops_sel
    by (rule hoare_recorded_op [OF step]) (auto simp: assms(2,3) hoare_return)
qed

lemmas takeover_rules = hoare_Let hoare_if_identity [OF disjI1 [OF refl]]
  hoare_recorded_op [of Checked TSetAffinity "\<lambda>_. Unchecked", OF phase_step.simps(3)]
  hoare_recorded_op [of Checked TMoveTarget "\<lambda>_. Unchecked", OF phase_step.simps(4)]
  hoare_recorded_op [of Checked TMoveParent "\<lambda>_. Unchecked", OF phase_step.simps(5)]
  hoare_recorded_op [of Checked TVerifyCpuset Verifying, OF phase_step.simps(6)]
  hoare_recorded_op [of "Verifying a" TVerifyAffinity "\<lambda>b. Verified (a \<and> b)", OF phase_step.simps(7)]
  for a

definition same_progress :: "AffinityTakeoverResult \<Rightarrow> AffinityTakeoverResult \<Rightarrow> bool" where
  "same_progress r r' \<longleftrightarrow> success r' = success r \<and> attempts r' = attempts r"

lemma recovery_monitored:
  "hoare (\<lambda>s. ph s = Unchecked) (takeover_recovery (recorded_ops ops) tid mname cpus r)
     (\<lambda>x s. same_progress r (snd x) \<and> ph s = (if fst x then IdentityLost else Unchecked))"
  unfolding takeover_recovery_def recorded_ops_sel
  by (intro takeover_rules hoare_return) (auto simp: same_progress_def success_def)

lemma finish_monitored:
  assumes "\<not> success r"
  shows "hoare (\<lambda>s. ph s = Unchecked) (takeover_finish (recorded_ops ops) pid tid mname cpus r)
     (\<lambda>(stop, r') s. attempts r' = attempts r \<and>
        (ph s = IdentityLost \<and> stop \<and> \<not> success r' \<or> ph s = Verified (success r') \<and> stop = success r'))"
  unfolding takeover_finish_def recorded_ops_sel
  by (intro takeover_rules hoare_return) (use assms in \<open>auto simp: success_def\<close>)

definition attempt_post :: "nat \<Rightarrow> bool \<times> AffinityTakeoverResult \<Rightarrow> phase \<Rightarrow> bool" where
  "attempt_post n x p \<longleftrightarrow> attempts (snd x) \<le> Suc n \<and>
     (p = IdentityLost \<and> fst x \<and> \<not> success (snd x) \<or> p = Verified (success (snd x)) \<and> fst x = success (snd x))"

lemma attempt_monitored:
  assumes "\<not> success r" "p = Unchecked \<or> p = Verified False"
  shows "hoare (\<lambda>s. ph s = p) (takeover_attempt (recorded_ops ops) pid tid mname cpus r)
     (\<lambda>x s. attempt_post (attempts r) x (ph s))"
proof -
  have rest: "hoare (\<lambda>s. ph s = Unchecked)
      (State_Monad.bind (if b then State_Monad.return (False, r2)
                        else takeover_recovery (recorded_ops ops) tid mname cpus r2)
        (\<lambda>(stop, r3). if stop then State_Monad.return (True, r3)
           else takeover_finish (recorded_ops ops) pid tid mname cpus r3))
      (\<lambda>x s. attempt_post (attempts r) x (ph s))"
    if r2: "\<not> success r2" "attempts r2 = Suc (attempts r)" for b r2
  proof (rule hoare_bind)
    show "hoare (\<lambda>s. ph s = Unchecked) (if b then State_Monad.return (False, r2)
                        else takeover_recovery (recorded_ops ops) tid mname cpus r2)
       (\<lambda>x s. same_progress r2 (snd x) \<and> ph s = (if fst x then IdentityLost else Unchecked))"
      by (intro hoare_if recovery_monitored hoare_return) (simp add: same_progress_def)
  next
    fix x
    show "hoare (\<lambda>s. same_progress r2 (snd x) \<and> ph s = (if fst x then IdentityLost else Unchecked))
       (case x of (stop, r3) \<Rightarrow> if stop then State_Monad.return (True, r3)
           else takeover_finish (recorded_ops ops) pid tid mname cpus r3)
       (\<lambda>x s. attempt_post (attempts r) x (ph s))"
    proof (cases "fst x")
      case True
      with r2 show ?thesis
        by (auto simp: hoare_def same_progress_def attempt_post_def split: prod.splits)
    next
      case False
      show ?thesis
      proof (cases "same_progress r2 (snd x)")
        case True
        with r2 have "\<not> success (snd x)" "attempts (snd x) = Suc (attempts r)"
          by (simp_all add: same_progress_def)
        from finish_monitored [OF this(1)] this False show ?thesis
          by (fastforce simp: hoare_def attempt_post_def split: prod.splits)
      next
        case no: False
        then show ?thesis by (auto simp: hoare_def split: prod.splits)
      qed
    qed
  qed
  have not: "\<not> success (r\<lparr>attempts := n, pre_affinity_succeeded := a\<rparr>)"
    "\<not> success (r\<lparr>attempts := n, pre_affinity_succeeded := a, initial_cpuset_succeeded := b, cpuset_succeeded := c\<rparr>)"
    for n a b c using assms(1) by (simp_all add: success_def)
  show ?thesis
    unfolding takeover_attempt_def recorded_ops_sel
    by (intro hoare_if_identity [OF assms(2)] takeover_rules rest)
      (simp_all add: attempt_post_def assms(1) not)
qed

lemma loop_monitored:
  assumes "\<not> success r" "p = Unchecked \<or> p = Verified False"
  shows "hoare (\<lambda>s. ph s = p) (takeover_loop (recorded_ops ops) pid tid mname cpus n r)
     (\<lambda>r' s. ph s \<noteq> Violation \<and> attempts r' \<le> attempts r + n \<and> (success r' \<longleftrightarrow> ph s = Verified True))"
  using assms
proof (induction n arbitrary: r p)
  case 0
  then show ?case by (auto intro!: hoare_return)
next
  case (Suc n)
  show ?case
    unfolding takeover_loop.simps
  proof (rule hoare_bind [OF attempt_monitored [OF Suc.prems]])
    fix x
    show "hoare (\<lambda>s. attempt_post (attempts r) x (ph s))
      (case x of (stop, r1) \<Rightarrow> if stop then State_Monad.return r1
         else takeover_loop (recorded_ops ops) pid tid mname cpus n r1)
      (\<lambda>r' s. ph s \<noteq> Violation \<and> attempts r' \<le> attempts r + Suc n \<and> (success r' \<longleftrightarrow> ph s = Verified True))"
    proof (cases "fst x")
      case True
      then show ?thesis by (auto simp: hoare_def attempt_post_def split: prod.splits)
    next
      case go: False
      show ?thesis
      proof (cases "success (snd x)")
        case True
        with go show ?thesis by (auto simp: hoare_def attempt_post_def split: prod.splits)
      next
        case False
        have ih: "hoare (\<lambda>s. ph s = Verified False)
            (takeover_loop (recorded_ops ops) pid tid mname cpus n (snd x))
            (\<lambda>r' s. ph s \<noteq> Violation \<and> attempts r' \<le> attempts (snd x) + n \<and>
               (success r' \<longleftrightarrow> ph s = Verified True))"
          by (rule Suc.IH [OF False]) simp
        with go False show ?thesis
          by (cases x) (fastforce simp: hoare_def attempt_post_def split: prod.splits)
      qed
    qed
  qed
qed

lemma takeover_monitored:
  assumes "run_state (run_takeover_sequence (recorded_ops ops) pid tid mname cpus n) (s, []) = (r, (s', es))"
  shows "phase_of es \<noteq> Violation \<and> attempts r \<le> nat n \<and> (success r \<longleftrightarrow> phase_of es = Verified True)"
proof -
  have start: "\<not> success new_takeover" "attempts new_takeover = 0"
    by (simp_all add: new_takeover_def success_def)
  have "ph (s, []) = Unchecked" by (simp add: phase_of_def)
  from hoareD [OF loop_monitored [OF start(1) disjI1 [OF refl]] this
      assms [unfolded run_takeover_sequence_def]] start(2)
  show ?thesis by simp
qed

subsection \<open>Effects and frames\<close>

lemma emits_group [emits_rules]:
  "emits rt_effects P (is_group_ready (traced os) tm path)"
  "emits rt_effects P (invalidate_group path)"
  unfolding is_group_ready_def invalidate_group_def traced_quiet_calls
  by (intro emits_rules; simp add: rt_effects_def)+

lemma emits_move_attempts [emits_rules]:
  "emits rt_effects (concerns tid) (move_attempts (traced os) interval path tid n)"
proof (induction n)
  case (Suc n)
  then show ?case unfolding move_attempts.simps traced_quiet_calls by (intro emits_rules)
qed (simp add: emits_return)

lemma emits_moves [emits_rules]:
  "emits rt_effects (concerns tid) (move_to_cpuset_cgroup (traced os) tm tid mname)"
  "emits rt_effects (concerns tid) (move_to_top_app_parent (traced os) tid)"
  "emits rt_effects (concerns tid) (restore_affinity (traced os) tid cpus)"
  "emits rt_effects (concerns tid) (restore_cpuset_cgroup (traced os) tid path)"
  unfolding move_to_cpuset_cgroup_def move_to_top_app_parent_def restore_affinity_def
    restore_cpuset_cgroup_def
  by (intro emits_rules)+

lemma emits_takeover:
  assumes "\<And>cpus. emits log P (set_affinity_operation ops tid cpus)"
    "\<And>m. emits log P (move_target_operation ops tid m)"
    "emits log P (move_parent_operation ops tid)"
    "\<And>m. emits log P (verify_cpuset_operation ops pid tid m)"
    "\<And>cpus. emits log P (verify_affinity_operation ops tid cpus)"
    "emits log P (identity_operation ops)"
  shows "emits log P (run_takeover_sequence ops pid tid mname cpus n)"
proof -
  have attempt: "emits log P (takeover_attempt ops pid tid mname cpus r)" for r
    unfolding takeover_attempt_def takeover_recovery_def takeover_finish_def if_identity_def
    by (intro emits_rules assms)
  have "emits log P (takeover_loop ops pid tid mname cpus k r)" for k r
  proof (induction k arbitrary: r)
    case (Suc k)
    show ?case unfolding takeover_loop.simps by (intro emits_rules attempt Suc.IH)
  qed (simp add: emits_return)
  then show ?thesis by (simp add: run_takeover_sequence_def)
qed

lemma emits_cpuset_apply [emits_rules]:
  "emits rt_effects (concerns tid) (cpuset_apply_with_result (traced os) cfg tm pid tid r base ps ts)"
  unfolding cpuset_apply_with_result_def
  by (intro emits_rules emits_takeover; simp add: cpuset_ops_def; intro emits_rules)

lemma keeps_tcache_takeover:
  assumes "\<And>cpus. keeps f (set_affinity_operation ops tid cpus)"
    "\<And>m. keeps f (move_target_operation ops tid m)"
    "keeps f (move_parent_operation ops tid)"
    "\<And>m. keeps f (verify_cpuset_operation ops pid tid m)"
    "\<And>cpus. keeps f (verify_affinity_operation ops tid cpus)"
    "keeps f (identity_operation ops)"
  shows "keeps f (run_takeover_sequence ops pid tid mname cpus n)"
proof -
  have attempt: "keeps f (takeover_attempt ops pid tid mname cpus r)" for r
    unfolding takeover_attempt_def takeover_recovery_def takeover_finish_def if_identity_def
    by (intro keeps_rules assms)
  have "keeps f (takeover_loop ops pid tid mname cpus k r)" for k r
  proof (induction k arbitrary: r)
    case (Suc k)
    show ?case unfolding takeover_loop.simps by (intro keeps_rules attempt Suc.IH)
  qed (simp add: keeps_return)
  then show ?thesis by (simp add: run_takeover_sequence_def)
qed

lemma keeps_tcache_move_attempts: "keeps tcache (move_attempts os interval path tid n)"
proof (induction n)
  case (Suc n)
  then show ?case unfolding move_attempts.simps by (intro keeps_rules)
qed (simp add: keeps_return)

lemma keeps_tcache_moves [keeps_rules]:
  "keeps tcache (move_to_cpuset_cgroup os tm tid mname)"
  "keeps tcache (move_to_top_app_parent os tid)"
  "keeps tcache (restore_affinity os tid cpus)"
  "keeps tcache (restore_cpuset_cgroup os tid path)"
  unfolding move_to_cpuset_cgroup_def move_to_top_app_parent_def restore_affinity_def
    restore_cpuset_cgroup_def is_group_ready_def invalidate_group_def
  by (intro keeps_rules keeps_tcache_move_attempts; simp)+

lemma keeps_tcache_cpuset_apply [keeps_rules]:
  "keeps tcache (cpuset_apply_with_result os cfg tm pid tid r base ps ts)"
  unfolding cpuset_apply_with_result_def
  by (intro keeps_rules keeps_tcache_takeover; simp add: cpuset_ops_def; intro keeps_rules)

end
