(* ===== verification/Configured_Groups.thy ===== *)
theory Configured_Groups
  imports Config_Parser Cgroup_Init Thread_Matcher Cpuset_Setter
begin

section \<open>From the file to the groups\<close>

text \<open>
  Where the parser, the matcher, the initialisation of the cgroups and the cpuset setter meet: the
  mask a match names is one the parser kept, so its group is one the initialisation prepared, and
  the setter moves threads into exactly that group.
\<close>

lemma setter_uses_mask_group: "cpuset_group_path name = mask_group_path name"
  by (simp add: cpuset_group_path_def mask_group_path_def cpuset_parent_path_def)

lemma launcher_keeps_masks:
  "get_cpus_for_affinity (c\<lparr>launcher_package := l\<rparr>) = get_cpus_for_affinity c"
  by (simp add: fun_eq_iff get_cpus_for_affinity_def get_cpumask_name_for_affinity_def Let_def
      cong: option.case_cong if_cong)

lemma find_in_set: "List.find P ys = Some y \<Longrightarrow> y \<in> set ys"
  by (induction ys) (auto split: if_splits)

lemma find_map_filter:
  "List.find P (List.map_filter f xs) = Some y \<Longrightarrow> \<exists>x \<in> set xs. f x = Some y"
  by (drule find_in_set) (auto simp: List.map_filter_def)

lemma matched_rule:
  assumes "List.find P (mt_rules (make_matcher rx c)) = Some cr"
  shows "cp_rule cr \<in> set (sc_rules (sched c))"
    and "List.find T (cp_thread_rules cr) = Some ctr \<Longrightarrow> ct_rule ctr \<in> set (pr_thread_rules (cp_rule cr))"
proof -
  from find_map_filter [OF assms [unfolded make_matcher_def matcher.select_convs]]
  obtain rule where rule: "rule \<in> set (sc_rules (sched c))"
    and cr: "compile_process_rule rx (sc_case_insensitive (sched c)) (launcher_package c) rule = Some cr" by blast
  then show "cp_rule cr \<in> set (sc_rules (sched c))"
    by (auto simp: compile_process_rule_def Let_def split: if_splits option.splits)
  assume "List.find T (cp_thread_rules cr) = Some ctr"
  with cr obtain ix where ix: "ix \<in> set (List.enumerate 0 (pr_thread_rules (cp_rule cr)))"
    and "compile_thread_rule rx (sc_case_insensitive (sched c)) ix = Some ctr"
    by (auto simp: compile_process_rule_def Let_def split: if_splits option.splits dest!: find_map_filter)
  then have "ct_rule ctr = snd ix"
    by (auto simp: compile_thread_rule_def Let_def split: if_splits option.splits prod.splits)
  moreover have "snd ix = pr_thread_rules (cp_rule cr) ! fst ix" "fst ix < length (pr_thread_rules (cp_rule cr))"
    using ix by (simp_all add: in_set_enumerate_eq)
  ultimately show "ct_rule ctr \<in> set (pr_thread_rules (cp_rule cr))" by simp
qed

lemma matched_mask_configured:
  assumes refs: "references_ok (sched c)"
    and r: "match_uncached rx (make_matcher rx c) pn tn st cl main = r" and name: "mr_cpumask_name r \<noteq> []"
  shows "(mr_cpumask_name r, get_cpus_for_affinity c (mr_affinity_class r) (mr_effective_state r))
      \<in> set (sc_cpumask (sched c))" and "requires_cpuset c"
proof -
  obtain cr where cr: "List.find (process_rule_matches rx pn cl) (mt_rules (make_matcher rx c)) = Some cr"
    using r name by (cases "List.find (process_rule_matches rx pn cl) (mt_rules (make_matcher rx c))")
      (auto simp: match_uncached_def new_result_def)
  obtain ctr where ctr: "List.find (thread_rule_matches rx tn main) (cp_thread_rules cr) = Some ctr"
    using r name cr by (cases "List.find (thread_rule_matches rx tn main) (cp_thread_rules cr)")
      (auto simp: match_uncached_def new_result_def Let_def get_cpumask_name_for_affinity_def)
  let ?t = "ct_rule ctr"
  have rule: "cp_rule cr \<in> set (sc_rules (sched c))" "?t \<in> set (pr_thread_rules (cp_rule cr))"
    using matched_rule [OF cr] ctr by auto
  have ac: "mr_affinity_class r = tr_affinity_class ?t"
    using r cr ctr by (auto simp: match_uncached_def Let_def assign_thread_rule_def)
  have mask: "mr_cpumask_name r = get_cpumask_name_for_affinity c (mr_affinity_class r) (mr_effective_state r)"
    using r cr ctr by (auto simp: match_uncached_def Let_def assign_thread_rule_def make_matcher_def)
  with name obtain scene where scene: "map_of (sc_affinity (sched c)) (tr_affinity_class ?t) = Some scene"
    and cls: "tr_affinity_class ?t \<noteq> []" "tr_affinity_class ?t \<noteq> ''auto''"
    and sm: "mr_cpumask_name r = scene_mask scene (mr_effective_state r)"
    by (auto simp: ac get_cpumask_name_for_affinity_def split: if_splits option.splits)
  have "mr_cpumask_name r \<in> {as_bg scene, as_fg scene, as_top scene}"
    by (cases "mr_effective_state r") (simp_all add: sm scene_mask_def)
  with refs map_of_SomeD [OF scene] name have "map_of (sc_cpumask (sched c)) (mr_cpumask_name r) \<noteq> None"
    by (fastforce simp: references_ok_def)
  then obtain cpus where cpus: "map_of (sc_cpumask (sched c)) (mr_cpumask_name r) = Some cpus" by blast
  with name mask have "get_cpus_for_affinity c (mr_affinity_class r) (mr_effective_state r) = cpus"
    by (simp add: get_cpus_for_affinity_def)
  with map_of_SomeD [OF cpus]
  show "(mr_cpumask_name r, get_cpus_for_affinity c (mr_affinity_class r) (mr_effective_state r))
      \<in> set (sc_cpumask (sched c))" by simp
  have "as_bg scene \<noteq> [] \<or> as_fg scene \<noteq> [] \<or> as_top scene \<noteq> []"
    using name sm by (cases "mr_effective_state r") (auto simp: scene_mask_def)
  with rule cls scene show "requires_cpuset c" unfolding requires_cpuset_def by force
qed

end
