(* ===== verification/Priority_Setter.thy ===== *)
theory Priority_Setter
  imports Runtime
begin

section \<open>The priority setter (scheduler/priority\_setter.hpp)\<close>

text \<open>
  Reading, setting and restoring the scheduling policy of a thread. The configured number
  encodes the policy: 1--98 a FIFO priority, 100--139 a nice value plus 120, -1, -2, -3 the
  normal, batch and idle policies, 0 leave alone. The policy numbers are the Linux ABI.
\<close>

definition SCHED_NORMAL :: int where "SCHED_NORMAL = 0"
definition SCHED_FIFO :: int where "SCHED_FIFO = 1"
definition SCHED_BATCH :: int where "SCHED_BATCH = 3"
definition SCHED_IDLE :: int where "SCHED_IDLE = 5"

lemmas policy_defs = SCHED_NORMAL_def SCHED_FIFO_def SCHED_BATCH_def SCHED_IDLE_def

definition has_nice :: "int \<Rightarrow> bool" where
  "has_nice policy \<longleftrightarrow> policy = SCHED_NORMAL \<or> policy = SCHED_BATCH \<or> policy = SCHED_IDLE"

text \<open>Success and the three output arguments; \<open>getpriority\<close> returns -1 when it fails.\<close>

definition capture_scheduler_baseline :: "'w os \<Rightarrow> int \<Rightarrow> ('w rt, bool \<times> int \<times> int \<times> int) state" where
  "capture_scheduler_baseline os tid = do {
     policy \<leftarrow> in_env (sys (os_sched_getscheduler os tid));
     if policy < 0 then State_Monad.return (False, policy, 0, 0)
     else do {
       param \<leftarrow> in_env (sys (os_sched_getparam os tid));
       (case param of None \<Rightarrow> State_Monad.return (False, policy, 0, 0)
        | Some priority \<Rightarrow>
            if has_nice policy then do {
              nice \<leftarrow> in_env (sys (os_getpriority os tid));
              State_Monad.return (case nice of None \<Rightarrow> (False, policy, priority, -1)
                | Some n \<Rightarrow> (True, policy, priority, n)) }
            else State_Monad.return (True, policy, priority, 0))
     }
   }"

record CurrentSched =
  cs_policy :: int
  cs_prio :: int

definition get_current_sched :: "'w os \<Rightarrow> int \<Rightarrow> ('w rt, CurrentSched) state" where
  "get_current_sched os tid = do {
     policy \<leftarrow> in_env (sys (os_sched_getscheduler os tid));
     if policy < 0 then State_Monad.return \<lparr>cs_policy = policy, cs_prio = 0\<rparr>
     else do {
       param \<leftarrow> in_env (sys (os_sched_getparam os tid));
       let prio = (case param of Some p \<Rightarrow> p | None \<Rightarrow> 0);
       if has_nice policy then do {
         nice \<leftarrow> in_env (sys (os_getpriority os tid));
         State_Monad.return \<lparr>cs_policy = policy, cs_prio = (case nice of Some n \<Rightarrow> n + 120 | None \<Rightarrow> prio)\<rparr> }
       else State_Monad.return \<lparr>cs_policy = policy, cs_prio = prio\<rparr>
     }
   }"

definition expected_policy_for_priority :: "int \<Rightarrow> int option" where
  "expected_policy_for_priority p =
     (if p = 0 then None
      else if 1 \<le> p \<and> p \<le> 98 then Some SCHED_FIFO
      else if 100 \<le> p \<and> p \<le> 139 then Some SCHED_NORMAL
      else if p = -1 then Some SCHED_NORMAL
      else if p = -2 then Some SCHED_BATCH
      else if p = -3 then Some SCHED_IDLE
      else None)"

definition is_sched_changed :: "'w os \<Rightarrow> int \<Rightarrow> int \<Rightarrow> ('w rt, bool) state" where
  "is_sched_changed os tid expected_prio = do {
     curr \<leftarrow> get_current_sched os tid;
     State_Monad.return
       (if cs_policy curr < 0 then True
        else if expected_policy_for_priority expected_prio \<noteq> None \<and>
                Some (cs_policy curr) \<noteq> expected_policy_for_priority expected_prio then True
        else if 1 \<le> expected_prio \<and> expected_prio \<le> 98 then cs_prio curr \<noteq> expected_prio
        else if 100 \<le> expected_prio \<and> expected_prio \<le> 139 then cs_prio curr \<noteq> expected_prio
        else False) }"

definition set_nice_value :: "'w os \<Rightarrow> int \<Rightarrow> int \<Rightarrow> ('w rt, bool) state" where
  "set_nice_value os tid nice = in_env (sys (os_setpriority os tid nice))"

definition set_priority :: "'w os \<Rightarrow> int \<Rightarrow> int \<Rightarrow> ('w rt, bool) state" where
  "set_priority os tid prio_value =
     (if tid \<le> 0 then State_Monad.return False
      else if prio_value = 0 then State_Monad.return True
      else if 1 \<le> prio_value \<and> prio_value \<le> 98
      then in_env (sys (os_sched_setscheduler os tid SCHED_FIFO prio_value))
      else if 100 \<le> prio_value \<and> prio_value \<le> 139
      then do {
        ok \<leftarrow> in_env (sys (os_sched_setscheduler os tid SCHED_NORMAL 0));
        if \<not> ok then State_Monad.return False else set_nice_value os tid (prio_value - 120) }
      else if prio_value = -1 then in_env (sys (os_sched_setscheduler os tid SCHED_NORMAL 0))
      else if prio_value = -2 then in_env (sys (os_sched_setscheduler os tid SCHED_BATCH 0))
      else if prio_value = -3 then in_env (sys (os_sched_setscheduler os tid SCHED_IDLE 0))
      else State_Monad.return False)"

definition restore_scheduler :: "'w os \<Rightarrow> int \<Rightarrow> int \<Rightarrow> int \<Rightarrow> int \<Rightarrow> ('w rt, bool) state" where
  "restore_scheduler os tid policy priority nice =
     (if tid \<le> 0 \<or> policy < 0 then State_Monad.return False
      else do {
        ok \<leftarrow> in_env (sys (os_sched_setscheduler os tid policy priority));
        if \<not> ok then State_Monad.return False
        else if has_nice policy then set_nice_value os tid nice
        else State_Monad.return True })"

definition prio_apply_with_result :: "'w os \<Rightarrow> Config \<Rightarrow> int \<Rightarrow> int \<Rightarrow> MatchResult \<Rightarrow> ('w rt, bool) state" where
  "prio_apply_with_result os cfg pid tid result =
     (if \<not> mr_matched result then State_Monad.return True
      else (let prio = get_prio_value cfg (mr_prio_class result) (mr_effective_state result)
            in if prio = 0 then State_Monad.return True else set_priority os tid prio))"

subsection \<open>What is set is what the drift check expects\<close>

text \<open>The decoding of a configured priority: policy, real-time priority, nice value.\<close>

definition priority_plan :: "int \<Rightarrow> (int \<times> int \<times> int option) option" where
  "priority_plan p =
     (if 1 \<le> p \<and> p \<le> 98 then Some (SCHED_FIFO, p, None)
      else if 100 \<le> p \<and> p \<le> 139 then Some (SCHED_NORMAL, 0, Some (p - 120))
      else if p = -1 then Some (SCHED_NORMAL, 0, None)
      else if p = -2 then Some (SCHED_BATCH, 0, None)
      else if p = -3 then Some (SCHED_IDLE, 0, None)
      else None)"

lemma expected_policy_plan: "expected_policy_for_priority p = map_option fst (priority_plan p)"
  by (simp add: expected_policy_for_priority_def priority_plan_def)

lemma logged_call_effects:
  "run_state (in_env (sys (logged e m))) s = (b, s') \<Longrightarrow> rt_effects s' = rt_effects s @ [e]"
  by (auto simp: rt_effects_def effects_def logged_def split: prod.splits)

lemma set_priority_plan:
  assumes "0 < tid" "p \<noteq> 0" "run_state (set_priority (traced os) tid p) s = (ok, s')"
  shows "case priority_plan p of
      None \<Rightarrow> \<not> ok \<and> rt_effects s' = rt_effects s
    | Some (policy, rt, nice) \<Rightarrow> \<exists>policy_ok. (ok \<longrightarrow> policy_ok) \<and>
        rt_effects s' = rt_effects s @ ESetScheduler tid policy rt #
          (case nice of Some n \<Rightarrow> if policy_ok then [ESetPriority tid n] else [] | None \<Rightarrow> [])"
proof -
  let ?call = "\<lambda>policy rt. in_env (sys (logged (ESetScheduler tid policy rt) (os_sched_setscheduler os tid policy rt)))"
  have one: "\<exists>policy_ok. (ok \<longrightarrow> policy_ok) \<and> rt_effects s' = rt_effects s @ [ESetScheduler tid policy rt]"
    if "set_priority (traced os) tid p = ?call policy rt" for policy rt
    using logged_call_effects [OF assms(3) [unfolded that]] by auto
  consider "1 \<le> p" "p \<le> 98" | "100 \<le> p" "p \<le> 139" | "p = -1" | "p = -2" | "p = -3"
    | "\<not> (1 \<le> p \<and> p \<le> 98)" "\<not> (100 \<le> p \<and> p \<le> 139)" "p \<noteq> -1" "p \<noteq> -2" "p \<noteq> -3"
    by blast
  then show ?thesis
  proof cases
    case 2
    obtain b s1 where set: "run_state (?call SCHED_NORMAL 0) s = (b, s1)" by (metis surj_pair)
    have log1: "rt_effects s1 = rt_effects s @ [ESetScheduler tid SCHED_NORMAL 0]"
      by (rule logged_call_effects [OF set])
    show ?thesis
    proof (cases b)
      case True
      obtain c s2 where nice: "run_state (in_env (sys (logged (ESetPriority tid (p - 120))
          (os_setpriority os tid (p - 120))))) s1 = (c, s2)" by (metis surj_pair)
      have "(ok, s') = (c, s2)"
        using assms 2 True set nice by (simp add: set_priority_def set_nice_value_def del: run_in_env run_sys)
      with logged_call_effects [OF nice] log1 2 show ?thesis by (auto simp: priority_plan_def)
    next
      case False
      have "(ok, s') = (False, s1)"
        using assms 2 False set by (simp add: set_priority_def del: run_in_env run_sys)
      with log1 2 show ?thesis by (auto simp: priority_plan_def)
    qed
  next
    case 6
    with assms show ?thesis by (simp add: set_priority_def priority_plan_def)
  qed (use one assms(1) in \<open>simp_all add: set_priority_def priority_plan_def\<close>)
qed

text \<open>
  \<open>sched_laws os tid obs\<close>: the documented behaviour of the scheduling calls on one thread,
  \<open>obs\<close> being the policy, real-time priority and nice value the kernel holds for it. A read
  reports it and leaves it alone; a successful write changes what it names.
\<close>

definition sched_laws :: "'w os \<Rightarrow> int \<Rightarrow> ('w \<Rightarrow> int \<times> int \<times> int) \<Rightarrow> bool" where
  "sched_laws os tid obs \<longleftrightarrow>
     (\<forall>w r w'. run_state (os_sched_getscheduler os tid) w = (r, w') \<longrightarrow> r = fst (obs w) \<and> obs w' = obs w) \<and>
     (\<forall>w r w'. run_state (os_sched_getparam os tid) w = (r, w') \<longrightarrow> r = Some (fst (snd (obs w))) \<and> obs w' = obs w) \<and>
     (\<forall>w r w'. run_state (os_getpriority os tid) w = (r, w') \<longrightarrow> r = Some (snd (snd (obs w))) \<and> obs w' = obs w) \<and>
     (\<forall>w policy prio w'. run_state (os_sched_setscheduler os tid policy prio) w = (True, w') \<longrightarrow>
        obs w' = (policy, prio, snd (snd (obs w)))) \<and>
     (\<forall>w n w'. run_state (os_setpriority os tid n) w = (True, w') \<longrightarrow>
        obs w' = (fst (obs w), fst (snd (obs w)), n))"

definition sched_obs :: "('w \<Rightarrow> int \<times> int \<times> int) \<Rightarrow> 'w rt \<Rightarrow> int \<times> int \<times> int" where
  "sched_obs obs s = obs (world (rt_env s))"

lemma sched_readsD:
  assumes "sched_laws os tid obs"
  shows "run_state (os_sched_getscheduler os tid) w = (r, w') \<Longrightarrow> r = fst (obs w) \<and> obs w' = obs w"
    "run_state (os_sched_getparam os tid) w = (q, w') \<Longrightarrow> q = Some (fst (snd (obs w))) \<and> obs w' = obs w"
    "run_state (os_getpriority os tid) w = (q, w') \<Longrightarrow> q = Some (snd (snd (obs w))) \<and> obs w' = obs w"
  using assms unfolding sched_laws_def by blast+

lemma sched_writesD:
  assumes "sched_laws os tid obs"
  shows "run_state (os_sched_setscheduler os tid policy prio) w = (True, w') \<Longrightarrow>
      obs w' = (policy, prio, snd (snd (obs w)))"
    "run_state (os_setpriority os tid n) w = (True, w') \<Longrightarrow> obs w' = (fst (obs w), fst (snd (obs w)), n)"
  using assms unfolding sched_laws_def by blast+

lemma get_current_sched_obs:
  assumes laws: "sched_laws os tid obs" and pol: "0 \<le> fst (sched_obs obs s)"
    and run: "run_state (get_current_sched os tid) s = (c, s')"
  shows "c = (case sched_obs obs s of (policy, rt, nice) \<Rightarrow>
     \<lparr>cs_policy = policy, cs_prio = (if has_nice policy then nice + 120 else rt)\<rparr>)"
proof -
  obtain policy rt nice where obs: "obs (world (rt_env s)) = (policy, rt, nice)" by (metis surj_pair)
  obtain r1 w1 where r1: "run_state (os_sched_getscheduler os tid) (world (rt_env s)) = (r1, w1)" by (metis surj_pair)
  obtain r2 w2 where r2: "run_state (os_sched_getparam os tid) w1 = (r2, w2)" by (metis surj_pair)
  obtain r3 w3 where r3: "run_state (os_getpriority os tid) w2 = (r3, w3)" by (metis surj_pair)
  note reads = sched_readsD(1) [OF laws r1] sched_readsD(2) [OF laws r2] sched_readsD(3) [OF laws r3]
  with run pol show ?thesis
    by (auto simp: get_current_sched_def sched_obs_def obs r1 r2 r3 Let_def split: if_splits)
qed

lemma set_priority_obs:
  assumes laws: "sched_laws os tid obs" and tid: "0 < tid"
    and plan: "priority_plan p = Some (policy, rt, nice)"
    and run: "run_state (set_priority os tid p) s = (True, s')"
  shows "fst (sched_obs obs s') = policy \<and> fst (snd (sched_obs obs s')) = rt \<and>
     (\<forall>n. nice = Some n \<longrightarrow> snd (snd (sched_obs obs s')) = n)"
  using plan run tid
  by (auto simp: set_priority_def priority_plan_def set_nice_value_def sched_obs_def policy_defs
      split: if_splits prod.splits dest!: sched_writesD [OF laws])

lemma set_priority_settles:
  assumes laws: "sched_laws os tid obs" and tid: "0 < tid"
    and set: "run_state (set_priority os tid p) s = (True, s')" and p: "p \<noteq> 0"
  shows "fst (run_state (is_sched_changed os tid p) s') = False"
proof -
  obtain policy rt nice where plan: "priority_plan p = Some (policy, rt, nice)"
    using set p tid by (auto simp: set_priority_def priority_plan_def split: if_splits)
  note obs = set_priority_obs [OF laws tid plan set]
  have pol: "0 \<le> policy" "has_nice policy \<longleftrightarrow> policy \<noteq> SCHED_FIFO"
    using plan by (auto simp: priority_plan_def policy_defs has_nice_def split: if_splits)
  obtain c s2 where c: "run_state (get_current_sched os tid) s' = (c, s2)" by (metis surj_pair)
  from get_current_sched_obs [OF laws _ c] obs pol
  have cur: "c = (case sched_obs obs s' of (policy, rt, nice) \<Rightarrow>
     \<lparr>cs_policy = policy, cs_prio = (if has_nice policy then nice + 120 else rt)\<rparr>)" by simp
  show ?thesis
    using plan obs pol
    by (auto simp: is_sched_changed_def c cur expected_policy_plan priority_plan_def policy_defs
        has_nice_def split: if_splits prod.splits)
qed

subsection \<open>Effects and frames\<close>

lemma emits_priority [emits_rules]:
  "emits rt_effects (concerns tid) (set_priority (traced os) tid p)"
  "emits rt_effects (concerns tid) (restore_scheduler (traced os) tid policy prio nice)"
  "emits rt_effects (concerns tid) (prio_apply_with_result (traced os) cfg pid tid r)"
  "emits rt_effects (concerns tid) (capture_scheduler_baseline (traced os) tid)"
  "emits rt_effects (concerns tid) (is_sched_changed (traced os) tid p)"
  unfolding prio_apply_with_result_def set_priority_def restore_scheduler_def set_nice_value_def
    capture_scheduler_baseline_def is_sched_changed_def get_current_sched_def traced_logged_calls
    traced_quiet_calls
  by (intro emits_rules; simp)+

lemma keeps_tcache_priority [keeps_rules]:
  "keeps tcache (restore_scheduler os tid policy prio nice)"
  "keeps tcache (prio_apply_with_result os cfg pid tid r)"
  "keeps tcache (capture_scheduler_baseline os tid)"
  "keeps tcache (is_sched_changed os tid p)"
  unfolding prio_apply_with_result_def set_priority_def restore_scheduler_def set_nice_value_def
    capture_scheduler_baseline_def is_sched_changed_def get_current_sched_def
  by (intro keeps_rules)+

end
