(* ===== verification/Cpuctl_Setter.thy ===== *)
theory Cpuctl_Setter
  imports Runtime
begin

section \<open>The cpuctl setter (scheduler/cpuctl\_setter.hpp)\<close>

text \<open>Moving a thread into the cpuctl group of its thread rule, and back.\<close>

definition get_cpuctl_base :: "ProcessState \<Rightarrow> string" where
  "get_cpuctl_base st = ''/dev/cpuctl''"

definition restore_cpuctl_cgroup :: "'w os \<Rightarrow> int \<Rightarrow> string \<Rightarrow> ('w rt, bool) state" where
  "restore_cpuctl_cgroup os tid cgroup_path =
     (if tid \<le> 0 \<or> cgroup_path = [] then State_Monad.return False
      else in_env (write_cgroup_tasks os cgroup_path tid))"

definition migrate_thread :: "'w os \<Rightarrow> int \<Rightarrow> string \<Rightarrow> ('w rt, bool) state" where
  "migrate_thread os tid group_path = do {
     present \<leftarrow> in_env (dir_exists os group_path);
     if \<not> present then State_Monad.return False
     else in_env (write_cgroup_tasks os group_path tid) }"

definition cpuctl_group_path :: "MatchResult \<Rightarrow> string" where
  "cpuctl_group_path result = ''/dev/cpuctl/ReUperf/'' @ mr_matched_rule_name result @ ''/A''
     @ to_string (mr_thread_rule_index result + 1)"

definition cpuctl_apply_with_result :: "'w os \<Rightarrow> int \<Rightarrow> int \<Rightarrow> MatchResult \<Rightarrow> ('w rt, bool) state" where
  "cpuctl_apply_with_result os pid tid result =
     (if \<not> mr_matched result \<or> \<not> mr_enable_limit result then State_Monad.return True
      else if mr_thread_rule_index result < 0 then State_Monad.return False
      else migrate_thread os tid (cpuctl_group_path result))"

subsection \<open>Effects\<close>

lemma emits_cpuctl [emits_rules]:
  "emits rt_effects (concerns tid) (restore_cpuctl_cgroup (traced os) tid path)"
  "emits rt_effects (concerns tid) (cpuctl_apply_with_result (traced os) pid tid r)"
  unfolding restore_cpuctl_cgroup_def cpuctl_apply_with_result_def migrate_thread_def
  by (intro emits_rules)+

lemma keeps_tcache_cpuctl [keeps_rules]:
  "keeps tcache (restore_cpuctl_cgroup os tid path)"
  "keeps tcache (cpuctl_apply_with_result os pid tid r)"
  unfolding restore_cpuctl_cgroup_def cpuctl_apply_with_result_def migrate_thread_def
  by (intro keeps_rules)+

end
