(* ===== verification/Scan_Worker.thy ===== *)
theory Scan_Worker
  imports Cpuset_Setter Priority_Setter Cpuctl_Setter
begin

section \<open>The scan worker (core/scan\_worker.hpp)\<close>

text \<open>
  What the worker thread does with one task: drop it when its thread is gone, throttle it,
  match it, capture the baseline of the thread, restore the dimensions no longer managed,
  take over the managed ones, and remember what was applied. The collaborators the worker
  holds as shared pointers are the record \<open>services\<close>. Main results: a dispatch touches no
  thread but its own (\<open>emits_dispatch\<close>), a stale task has no effect
  (\<open>stale_run\<close>), and a dimension is never managed without its baseline
  (\<open>dispatch_ok\<close>).
\<close>

record ('w, 'r) services =
  sv_os :: "'w os"
  sv_rx :: "'r regex_lib"
  sv_hash :: "string \<Rightarrow> nat"
  sv_key_hash :: "TaskKey \<Rightarrow> nat"
  sv_matcher :: "'r matcher"
  sv_timing :: TimingConfig

definition sv_config :: "('w, 'r) services \<Rightarrow> Config" where
  "sv_config sv = mt_config (sv_matcher sv)"

subsection \<open>Throttling\<close>

definition kScheduleCleanupThreshold :: nat where "kScheduleCleanupThreshold = 500"

definition should_throttle_same_state_schedule :: "bool \<Rightarrow> int \<Rightarrow> int \<Rightarrow> bool" where
  "should_throttle_same_state_schedule same_state elapsed min_interval_ms \<longleftrightarrow>
     same_state \<and> elapsed < min_interval_ms"

definition should_run_managed_cgroup_check :: "bool \<Rightarrow> bool \<Rightarrow> bool \<Rightarrow> bool" where
  "should_run_managed_cgroup_check manages_cpuset manages_cpuctl cadence_due \<longleftrightarrow>
     (manages_cpuset \<or> manages_cpuctl) \<and> cadence_due"

definition cleanup_expired_schedule_times :: "TimingConfig \<Rightarrow> int \<Rightarrow> ScheduleTimes \<Rightarrow> ScheduleTimes" where
  "cleanup_expired_schedule_times tm now st =
     (let expired = (\<lambda>t. schedule_cleanup_interval_ms tm < elapsed_ms t now)
      in st\<lparr>last_schedule_time := umap_erase_if (\<lambda>_ t. expired t) (last_schedule_time st),
            last_schedule_state := umap_erase_if
              (\<lambda>k _. case map_of (last_schedule_time st) k of Some t \<Rightarrow> expired t | None \<Rightarrow> False)
              (last_schedule_state st),
            next_cgroup_check_time := umap_erase_if
              (\<lambda>_ t. schedule_cleanup_interval_ms tm * NS_PER_MS < now - t)
              (next_cgroup_check_time st)\<rparr>)"

text \<open>The critical sections of \<open>should_skip_schedule\<close> and \<open>should_check_cgroup\<close>.\<close>

definition skip_step ::
  "TimingConfig \<Rightarrow> int \<Rightarrow> TaskKey \<Rightarrow> ProcessState \<Rightarrow> ScheduleTimes \<Rightarrow> bool \<times> ScheduleTimes" where
  "skip_step tm now key state st =
     (let same_state = (map_of (last_schedule_state st) key = Some state)
      in if (case map_of (last_schedule_time st) key of None \<Rightarrow> False
             | Some t \<Rightarrow> should_throttle_same_state_schedule same_state (elapsed_ms t now)
                          (min_schedule_interval_ms tm))
         then (True, st)
         else (let st1 = st\<lparr>last_schedule_time := AList.update key now (last_schedule_time st),
                            last_schedule_state := AList.update key state (last_schedule_state st)\<rparr>
               in if kScheduleCleanupThreshold \<le> schedule_counter st + 1
                  then (False, cleanup_expired_schedule_times tm now (st1\<lparr>schedule_counter := 0\<rparr>))
                  else (False, st1\<lparr>schedule_counter := schedule_counter st + 1\<rparr>)))"

definition should_skip_schedule :: "('w, 'r) services \<Rightarrow> DispatchTask \<Rightarrow> ('w rt, bool) state" where
  "should_skip_schedule sv task = do {
     now \<leftarrow> in_env (sys (os_now (sv_os sv)));
     zoom schedule (\<lambda>st s. s\<lparr>schedule := st\<rparr>)
       (State (skip_step (sv_timing sv) now (task_key task) (dt_state task))) }"

definition check_step ::
  "(TaskKey \<Rightarrow> nat) \<Rightarrow> TimingConfig \<Rightarrow> int \<Rightarrow> TaskKey \<Rightarrow> ScheduleTimes \<Rightarrow> bool \<times> ScheduleTimes" where
  "check_step key_hash tm now key st =
     (if cgroup_check_interval_ms tm = 0 then (True, st)
      else case map_of (next_cgroup_check_time st) key of
        None \<Rightarrow>
          (let stagger_ms = int (key_hash key) mod (cgroup_check_interval_ms tm mod UINT64_MOD)
           in (stagger_ms = 0, st\<lparr>next_cgroup_check_time :=
                 AList.update key (now + stagger_ms * NS_PER_MS) (next_cgroup_check_time st)\<rparr>))
      | Some t \<Rightarrow>
          if now < t then (False, st)
          else (let st1 = st\<lparr>next_cgroup_check_time := AList.update key
                      (now + cgroup_check_interval_ms tm * NS_PER_MS) (next_cgroup_check_time st)\<rparr>
                in if kScheduleCleanupThreshold \<le> cgroup_check_counter st + 1
                   then (True, cleanup_expired_schedule_times tm now (st1\<lparr>cgroup_check_counter := 0\<rparr>))
                   else (True, st1\<lparr>cgroup_check_counter := cgroup_check_counter st + 1\<rparr>)))"

definition should_check_cgroup :: "('w, 'r) services \<Rightarrow> DispatchTask \<Rightarrow> ('w rt, bool) state" where
  "should_check_cgroup sv task = do {
     now \<leftarrow> in_env (sys (os_now (sv_os sv)));
     zoom schedule (\<lambda>st s. s\<lparr>schedule := st\<rparr>)
       (State (check_step (sv_key_hash sv) (sv_timing sv) now (task_key task))) }"

definition is_cgroup_changed :: "('w, 'r) services \<Rightarrow> DispatchTask \<Rightarrow> MatchResult \<Rightarrow> ('w rt, bool) state" where
  "is_cgroup_changed sv task result =
     (let check_cpuset = (mr_affinity_class result \<noteq> [] \<and> mr_affinity_class result \<noteq> ''auto''
            \<and> mr_cpumask_name result \<noteq> []);
          check_cpuctl = (mr_enable_limit result \<and> 0 \<le> mr_thread_rule_index result)
      in do {
        cadence_due \<leftarrow> (if check_cpuset \<or> check_cpuctl then should_check_cgroup sv task
                       else State_Monad.return False);
        if \<not> should_run_managed_cgroup_check check_cpuset check_cpuctl cadence_due
        then State_Monad.return False
        else do {
          paths \<leftarrow> in_env (get_thread_cgroup_paths_uncached (sv_os sv) (dt_pid task) (dt_tid task));
          State_Monad.return
            (if \<not> tp_readable paths then True
             else if check_cpuset \<and> tp_cpuset paths \<noteq> ''/top-app/ReUperf_'' @ mr_cpumask_name result
             then True
             else check_cpuctl \<and> tp_cpuctl paths \<noteq> ''/ReUperf/'' @ mr_matched_rule_name result @ ''/A''
                    @ to_string (mr_thread_rule_index result + 1)) } })"

subsection \<open>What a result needs\<close>

definition needs_affinity_management :: "MatchResult \<Rightarrow> bool" where
  "needs_affinity_management result = has_resolved_affinity result"

definition needs_priority_management :: "Config \<Rightarrow> MatchResult \<Rightarrow> bool" where
  "needs_priority_management cfg result \<longleftrightarrow>
     get_prio_value cfg (mr_prio_class result) (mr_effective_state result) \<noteq> 0"

definition needs_managed_state :: "Config \<Rightarrow> MatchResult \<Rightarrow> bool" where
  "needs_managed_state cfg result \<longleftrightarrow> mr_matched result \<and>
     (needs_affinity_management result \<or> needs_priority_management cfg result \<or> mr_enable_limit result)"

subsection \<open>Baselines\<close>

definition is_current_task_identity :: "('w, 'r) services \<Rightarrow> DispatchTask \<Rightarrow> ('w rt, bool) state" where
  "is_current_task_identity sv task =
     in_env (identity_matches (sv_os sv) (dt_pid task) (dt_tid task) (dt_process_start_time task)
       (dt_thread_start_time task))"

definition erase_stale :: "DispatchTask \<Rightarrow> ('w rt, unit) state" where
  "erase_stale task = on_cache (erase_thread_if_identity (dt_pid task) (dt_tid task)
     (dt_process_start_time task) (dt_thread_start_time task))"

definition captured_baseline ::
  "int list \<Rightarrow> bool \<Rightarrow> int \<Rightarrow> int \<Rightarrow> int \<Rightarrow> ThreadCgroupPaths \<Rightarrow> ThreadBaseline" where
  "captured_baseline affinity has_scheduler policy priority nice cgroups =
     (let b0 = new_baseline\<lparr>bl_affinity := affinity, bl_has_affinity := (affinity \<noteq> []),
            bl_policy := policy, bl_priority := priority, bl_nice := nice,
            bl_has_scheduler := has_scheduler\<rparr>;
          b1 = (if tp_cpuset cgroups \<noteq> []
            then b0\<lparr>bl_cpuset_path := ''/dev/cpuset'' @ tp_cpuset cgroups, bl_has_cpuset_path := True\<rparr>
            else b0)
      in if tp_cpuctl cgroups \<noteq> []
         then b1\<lparr>bl_cpuctl_path := ''/dev/cpuctl'' @ tp_cpuctl cgroups, bl_has_cpuctl_path := True\<rparr>
         else b1)"

definition capture_baseline_if_needed :: "('w, 'r) services \<Rightarrow> DispatchTask \<Rightarrow> ('w rt, unit) state" where
  "capture_baseline_if_needed sv task = do {
     affinity \<leftarrow> in_env (get_affinity_from_status (sv_os sv) (dt_tid task));
     (has_scheduler, policy, priority, nice) \<leftarrow> capture_scheduler_baseline (sv_os sv) (dt_tid task);
     cgroups \<leftarrow> in_env (get_thread_cgroup_paths_uncached (sv_os sv) (dt_pid task) (dt_tid task));
     current \<leftarrow> is_current_task_identity sv task;
     if current then on_cache (set_baseline (dt_pid task) (dt_tid task)
       (captured_baseline affinity has_scheduler policy priority nice cgroups))
     else State_Monad.return () }"

definition restore_affinity_baseline ::
  "('w, 'r) services \<Rightarrow> DispatchTask \<Rightarrow> ThreadBaseline \<Rightarrow> ('w rt, bool) state" where
  "restore_affinity_baseline sv task b = do {
     (lost1, restored1) \<leftarrow>
       (if bl_has_cpuset_path b then do {
          current \<leftarrow> is_current_task_identity sv task;
          if \<not> current then State_Monad.return (True, False)
          else do {
            ok \<leftarrow> restore_cpuset_cgroup (sv_os sv) (dt_tid task) (bl_cpuset_path b);
            State_Monad.return (False, ok) } }
        else State_Monad.return (False, True));
     if lost1 then State_Monad.return False
     else do {
       (lost2, restored2) \<leftarrow>
         (if bl_has_affinity b then do {
            current \<leftarrow> is_current_task_identity sv task;
            if \<not> current then State_Monad.return (True, False)
            else do {
              ok \<leftarrow> restore_affinity (sv_os sv) (dt_tid task) (bl_affinity b);
              State_Monad.return (False, restored1 \<and> ok) } }
          else State_Monad.return (False, restored1));
       if lost2 then State_Monad.return False
       else if restored2 then is_current_task_identity sv task
       else State_Monad.return False } }"

definition restore_scheduler_baseline ::
  "('w, 'r) services \<Rightarrow> DispatchTask \<Rightarrow> ThreadBaseline \<Rightarrow> ('w rt, bool) state" where
  "restore_scheduler_baseline sv task b = do {
     current \<leftarrow> is_current_task_identity sv task;
     if \<not> current then State_Monad.return False
     else do {
       ok \<leftarrow> (if bl_has_scheduler b
             then restore_scheduler (sv_os sv) (dt_tid task) (bl_policy b) (bl_priority b) (bl_nice b)
             else State_Monad.return False);
       if \<not> ok then State_Monad.return False else is_current_task_identity sv task } }"

definition restore_cpuctl_baseline ::
  "('w, 'r) services \<Rightarrow> DispatchTask \<Rightarrow> ThreadBaseline \<Rightarrow> ('w rt, bool) state" where
  "restore_cpuctl_baseline sv task b = do {
     current \<leftarrow> is_current_task_identity sv task;
     if \<not> current then State_Monad.return False
     else do {
       ok \<leftarrow> (if bl_has_cpuctl_path b
             then restore_cpuctl_cgroup (sv_os sv) (dt_tid task) (bl_cpuctl_path b)
             else State_Monad.return False);
       if \<not> ok then State_Monad.return False else is_current_task_identity sv task } }"

definition forget_thread :: "DispatchTask \<Rightarrow> ThreadCache \<Rightarrow> ThreadCache" where
  "forget_thread task c = clear_managed_components (dt_pid task) (dt_tid task)
     (clear_applied_result (dt_pid task) (dt_tid task) (clear_baseline (dt_pid task) (dt_tid task) c))"

text \<open>
  \<open>with_identity\<close> is the guard the worker repeats: when the thread is gone, drop its cache
  entry and return.
\<close>

definition with_identity :: "('w, 'r) services \<Rightarrow> DispatchTask \<Rightarrow> ('w rt, unit) state \<Rightarrow> ('w rt, unit) state" where
  "with_identity sv task k = do {
     current \<leftarrow> is_current_task_identity sv task;
     if \<not> current then erase_stale task else k }"

definition restore_baseline :: "('w, 'r) services \<Rightarrow> DispatchTask \<Rightarrow> ('w rt, unit) state" where
  "restore_baseline sv task = do {
     baseline \<leftarrow> gets (\<lambda>s. get_baseline (dt_pid task) (dt_tid task) (tcache s));
     (case baseline of
        None \<Rightarrow> do {
          on_cache (clear_applied_result (dt_pid task) (dt_tid task));
          on_cache (clear_managed_components (dt_pid task) (dt_tid task)) }
      | Some b \<Rightarrow> with_identity sv task (do {
          ok1 \<leftarrow> (if bl_has_cpuctl_path b then restore_cpuctl_baseline sv task b
                 else State_Monad.return True);
          with_identity sv task (do {
            ok2 \<leftarrow> (if bl_has_scheduler b then restore_scheduler_baseline sv task b
                   else State_Monad.return True);
            with_identity sv task (do {
              ok3 \<leftarrow> restore_affinity_baseline sv task b;
              with_identity sv task
                (if ok1 \<and> ok2 \<and> ok3 then on_cache (forget_thread task) else State_Monad.return ()) }) }) })) }"

subsection \<open>Applying a result\<close>

definition baseline_sufficient :: "Config \<Rightarrow> MatchResult \<Rightarrow> ThreadBaseline \<Rightarrow> bool" where
  "baseline_sufficient cfg result b \<longleftrightarrow>
     \<not> (needs_affinity_management result \<and> (\<not> bl_has_affinity b \<or> \<not> bl_has_cpuset_path b)) \<and>
     \<not> (needs_priority_management cfg result \<and> \<not> bl_has_scheduler b) \<and>
     \<not> (mr_enable_limit result \<and> \<not> bl_has_cpuctl_path b)"

text \<open>
  One of the three blocks that release a dimension the result no longer manages: either
  nothing to release, or restore and record, or give up (\<open>None\<close>, the early return).
\<close>

definition release_component ::
  "DispatchTask \<Rightarrow> bool \<Rightarrow> ('w rt, bool) state \<Rightarrow> ManagedComponents \<Rightarrow> ManagedComponents
     \<Rightarrow> ('w rt, ManagedComponents option) state" where
  "release_component task restore_needed restore managed released =
     (if restore_needed then do {
        ok \<leftarrow> restore;
        if \<not> ok then State_Monad.return None
        else do {
          on_cache (set_managed_components (dt_pid task) (dt_tid task) released);
          State_Monad.return (Some released) } }
      else State_Monad.return (Some managed))"

definition release_unmanaged ::
  "('w, 'r) services \<Rightarrow> DispatchTask \<Rightarrow> MatchResult \<Rightarrow> ThreadBaseline
     \<Rightarrow> ('w rt, ManagedComponents option) state" where
  "release_unmanaged sv task result b = do {
     m0 \<leftarrow> gets (\<lambda>s. get_managed_components (dt_pid task) (dt_tid task) (tcache s));
     r1 \<leftarrow> release_component task
       (should_restore_managed_component (mc_affinity m0) (needs_affinity_management result))
       (restore_affinity_baseline sv task b) m0 (m0\<lparr>mc_affinity := False\<rparr>);
     (case r1 of None \<Rightarrow> State_Monad.return None
      | Some m1 \<Rightarrow> do {
          r2 \<leftarrow> release_component task
            (should_restore_managed_component (mc_priority m1) (needs_priority_management (sv_config sv) result))
            (restore_scheduler_baseline sv task b) m1 (m1\<lparr>mc_priority := False\<rparr>);
          (case r2 of None \<Rightarrow> State_Monad.return None
           | Some m2 \<Rightarrow> release_component task
               (should_restore_managed_component (mc_cpuctl m2) (mr_enable_limit result))
               (restore_cpuctl_baseline sv task b) m2 (m2\<lparr>mc_cpuctl := False\<rparr>)) }) }"

definition take_over ::
  "('w, 'r) services \<Rightarrow> DispatchTask \<Rightarrow> MatchResult \<Rightarrow> string \<Rightarrow> ManagedComponents \<Rightarrow> ('w rt, unit) state" where
  "take_over sv task result cpuset_base m = do {
     affinity_result \<leftarrow> cpuset_apply_with_result (sv_os sv) (sv_config sv) (sv_timing sv) (dt_pid task)
       (dt_tid task) result cpuset_base (dt_process_start_time task) (dt_thread_start_time task);
     with_identity sv task (do {
       priority_applied \<leftarrow> prio_apply_with_result (sv_os sv) (sv_config sv) (dt_pid task) (dt_tid task) result;
       with_identity sv task (do {
         cpuctl_applied \<leftarrow> cpuctl_apply_with_result (sv_os sv) (dt_pid task) (dt_tid task) result;
         let managed = \<lparr>mc_affinity = mc_affinity m \<or> needs_affinity_management result,
               mc_priority = mc_priority m \<or> needs_priority_management (sv_config sv) result,
               mc_cpuctl = mc_cpuctl m \<or> mr_enable_limit result\<rparr>;
         let affinity_applied = (\<not> needs_affinity_management result \<or> success affinity_result);
         with_identity sv task (do {
           on_cache (set_managed_components (dt_pid task) (dt_tid task) managed);
           if affinity_applied \<and> priority_applied \<and> cpuctl_applied
           then on_cache (update_applied_result (dt_pid task) (dt_tid task) result)
           else with_identity sv task (State_Monad.return ()) }) }) }) }"

definition apply_result :: "('w, 'r) services \<Rightarrow> DispatchTask \<Rightarrow> MatchResult \<Rightarrow> string \<Rightarrow> ('w rt, unit) state" where
  "apply_result sv task result cpuset_base =
     (if \<not> needs_managed_state (sv_config sv) result then restore_baseline sv task
      else do {
        capture_baseline_if_needed sv task;
        baseline \<leftarrow> gets (\<lambda>s. get_baseline (dt_pid task) (dt_tid task) (tcache s));
        (case baseline of None \<Rightarrow> State_Monad.return ()
         | Some b \<Rightarrow>
             if \<not> baseline_sufficient (sv_config sv) result b then State_Monad.return ()
             else do {
               released \<leftarrow> release_unmanaged sv task result b;
               (case released of None \<Rightarrow> State_Monad.return ()
                | Some m \<Rightarrow> take_over sv task result cpuset_base m) }) })"

subsection \<open>Processing a task\<close>

definition needs_drift :: "('w, 'r) services \<Rightarrow> DispatchTask \<Rightarrow> MatchResult \<Rightarrow> ('w rt, bool) state" where
  "needs_drift sv task applied = do {
     affinity_changed \<leftarrow> (if needs_affinity_management applied
        then in_env (is_affinity_changed (sv_os sv) (dt_tid task)
               (get_cpus_for_affinity (sv_config sv) (mr_affinity_class applied) (mr_effective_state applied)))
        else State_Monad.return False);
     let expected_prio = get_prio_value (sv_config sv) (mr_prio_class applied) (mr_effective_state applied);
     sched_changed \<leftarrow> (if expected_prio \<noteq> 0 then is_sched_changed (sv_os sv) (dt_tid task) expected_prio
        else State_Monad.return False);
     cgroup_changed \<leftarrow> is_cgroup_changed sv task applied;
     State_Monad.return (affinity_changed \<or> sched_changed \<or> cgroup_changed) }"

definition dispatch_current :: "('w, 'r) services \<Rightarrow> DispatchTask \<Rightarrow> ('w rt, unit) state" where
  "dispatch_current sv task = do {
     entry \<leftarrow> gets (\<lambda>s. cache_lookup (dt_pid task) (dt_tid task) (dt_process_start_time task)
       (dt_thread_start_time task) (dt_thread_name task) (dt_cmdline task) (dt_state task) (tcache s));
     (case entry of
        Some e \<Rightarrow> do {
          applied \<leftarrow> gets (\<lambda>s. get_applied_result (dt_pid task) (dt_tid task) (tcache s));
          settled \<leftarrow> (case applied of None \<Rightarrow> State_Monad.return False
             | Some a \<Rightarrow>
                 if \<not> is_result_equal a (te_result e) then State_Monad.return False
                 else if \<not> needs_managed_state (sv_config sv) a then State_Monad.return True
                 else do { drift \<leftarrow> needs_drift sv task a; State_Monad.return (\<not> drift) });
          if settled then State_Monad.return ()
          else apply_result sv task (te_result e) (te_cpuset_base e) }
      | None \<Rightarrow> do {
          result \<leftarrow> in_matcher (match_thread (sv_os sv) (sv_hash sv) (sv_rx sv) (sv_matcher sv)
            (dt_proc_name task) (dt_thread_name task) (dt_state task) (dt_pid task) (dt_tid task)
            (dt_cmdline task));
          on_cache (cache_update (dt_pid task) (dt_tid task) (dt_process_start_time task)
            (dt_thread_start_time task) (dt_thread_name task) (dt_cmdline task) (dt_state task) result
            (dt_cpuset_base task) (get_cpuctl_base (mr_effective_state result)));
          apply_result sv task result (dt_cpuset_base task) }) }"

text \<open>\<open>None\<close> stands for a collaborator that was never set.\<close>

definition process_dispatch_task :: "('w, 'r) services option \<Rightarrow> DispatchTask \<Rightarrow> ('w rt, unit) state" where
  "process_dispatch_task services task =
     (case services of None \<Rightarrow> State_Monad.return ()
      | Some sv \<Rightarrow> with_identity sv task (do {
          skip \<leftarrow> should_skip_schedule sv task;
          if skip then State_Monad.return () else dispatch_current sv task }))"

subsection \<open>A dispatch touches only its own thread\<close>

lemma emits_identity [emits_rules]:
  "sv_os sv = traced os \<Longrightarrow> emits rt_effects P (is_current_task_identity sv task)"
  unfolding is_current_task_identity_def by (simp add: emits_in_env emits_quiet)

lemma emits_with_identity [emits_rules]:
  "sv_os sv = traced os \<Longrightarrow> emits rt_effects P k \<Longrightarrow> emits rt_effects P (with_identity sv task k)"
  unfolding with_identity_def erase_stale_def
  by (intro emits_rules)

lemma emits_schedule_zoom [emits_rules]: "emits rt_effects P (zoom schedule (\<lambda>st s. s\<lparr>schedule := st\<rparr>) m)"
  by (rule emits_keeps) (rule keeps_zoom, simp add: rt_effects_def)

lemma emits_schedule [emits_rules]:
  assumes "sv_os sv = traced os"
  shows "emits rt_effects P (should_skip_schedule sv task)"
    and "emits rt_effects P (should_check_cgroup sv task)"
    and "emits rt_effects P (is_cgroup_changed sv task r)"
proof -
  show skip: "emits rt_effects P (should_skip_schedule sv task)"
    unfolding should_skip_schedule_def assms traced_quiet_calls by (intro emits_rules)
  show check: "emits rt_effects P (should_check_cgroup sv task)"
    unfolding should_check_cgroup_def assms traced_quiet_calls by (intro emits_rules)
  show "emits rt_effects P (is_cgroup_changed sv task r)"
    unfolding is_cgroup_changed_def by (intro emits_rules check) (simp add: assms emits_cpu_queries)
qed

lemma emits_baselines [emits_rules]:
  assumes "sv_os sv = traced os"
  shows "emits rt_effects (concerns (dt_tid task)) (capture_baseline_if_needed sv task)"
    and "emits rt_effects (concerns (dt_tid task)) (restore_affinity_baseline sv task b)"
    and "emits rt_effects (concerns (dt_tid task)) (restore_scheduler_baseline sv task b)"
    and "emits rt_effects (concerns (dt_tid task)) (restore_cpuctl_baseline sv task b)"
  unfolding capture_baseline_if_needed_def restore_affinity_baseline_def restore_scheduler_baseline_def
    restore_cpuctl_baseline_def assms
  by (intro emits_rules emits_identity [OF assms])+

lemma emits_restore_baseline [emits_rules]:
  assumes "sv_os sv = traced os"
  shows "emits rt_effects (concerns (dt_tid task)) (restore_baseline sv task)"
  unfolding restore_baseline_def by (intro emits_rules emits_baselines [OF assms] emits_with_identity [OF assms])

lemma emits_release [emits_rules]:
  assumes "sv_os sv = traced os"
  shows "emits rt_effects (concerns (dt_tid task)) (release_unmanaged sv task r b)"
  unfolding release_unmanaged_def release_component_def
  by (intro emits_rules emits_baselines [OF assms])

lemma emits_take_over [emits_rules]:
  assumes "sv_os sv = traced os"
  shows "emits rt_effects (concerns (dt_tid task)) (take_over sv task r base m)"
  unfolding take_over_def assms by (intro emits_rules emits_with_identity [OF assms])

lemma emits_apply_result [emits_rules]:
  assumes "sv_os sv = traced os"
  shows "emits rt_effects (concerns (dt_tid task)) (apply_result sv task r base)"
  unfolding apply_result_def
  by (intro emits_rules emits_baselines [OF assms] emits_restore_baseline [OF assms]
      emits_release [OF assms] emits_take_over [OF assms])

lemma emits_drift [emits_rules]:
  assumes "sv_os sv = traced os"
  shows "emits rt_effects (concerns (dt_tid task)) (needs_drift sv task a)"
  unfolding needs_drift_def assms by (intro emits_rules emits_schedule [OF assms])

lemma emits_dispatch:
  assumes "sv_os sv = traced os"
  shows "emits rt_effects (concerns (dt_tid task)) (process_dispatch_task (Some sv) task)"
proof -
  have "emits rt_effects (concerns (dt_tid task)) (dispatch_current sv task)"
    unfolding dispatch_current_def match_thread_def
    by (intro emits_rules emits_drift [OF assms] emits_apply_result [OF assms])
      (simp add: assms emits_in_matcher)
  then show ?thesis
    unfolding process_dispatch_task_def option.case
    by (intro emits_with_identity [OF assms] emits_rules emits_schedule [OF assms])
qed

lemma stale_run:
  assumes "run_state (is_current_task_identity sv task) s = (False, s1)"
  shows "run_state (process_dispatch_task (Some sv) task) s =
    ((), s1\<lparr>tcache := erase_thread_if_identity (dt_pid task) (dt_tid task) (dt_process_start_time task)
       (dt_thread_start_time task) (tcache s1)\<rparr>)"
  using assms by (simp add: process_dispatch_task_def with_identity_def erase_stale_def)

lemma identity_quiet:
  assumes "sv_os sv = traced os" "run_state (is_current_task_identity sv task) s = (b, s1)"
  shows "rt_effects s1 = rt_effects s" "tcache s1 = tcache s"
proof -
  have "keeps rt_effects (is_current_task_identity sv task)"
    unfolding is_current_task_identity_def assms(1)
    by (rule keeps_effects_in_env [OF keeps_effects_identity(4)])
  from keepsD [OF this assms(2)] show "rt_effects s1 = rt_effects s" .
  have "keeps tcache (is_current_task_identity sv task)"
    unfolding is_current_task_identity_def by (rule keeps_tcache_in_env)
  from keepsD [OF this assms(2)] show "tcache s1 = tcache s" .
qed

subsection \<open>A managed dimension has its baseline\<close>

definition rt_cache_ok :: "'w rt \<Rightarrow> bool" where
  "rt_cache_ok s \<longleftrightarrow> tcache_inv (tcache s)"

lemma kept_cache: "keeps tcache m \<Longrightarrow> inv_kept (\<lambda>s. P (tcache s)) m"
  by (rule keeps_inv_kept)

lemma kept_ok: "keeps tcache m \<Longrightarrow> inv_kept rt_cache_ok m"
  unfolding rt_cache_ok_def by (rule kept_cache)

lemma on_cache_ok [hoare_rules]:
  "(\<And>c. tcache_inv c \<Longrightarrow> tcache_inv (f c)) \<Longrightarrow> inv_kept rt_cache_ok (on_cache f)"
  unfolding on_cache_def by (rule inv_kept_modify) (simp add: rt_cache_ok_def)

lemma keeps_identity [keeps_rules]: "keeps tcache (is_current_task_identity sv task)"
  unfolding is_current_task_identity_def by (rule keeps_rules)

lemma keeps_restores [keeps_rules]:
  "keeps tcache (restore_affinity_baseline sv task b)"
  "keeps tcache (restore_scheduler_baseline sv task b)"
  "keeps tcache (restore_cpuctl_baseline sv task b)"
  unfolding restore_affinity_baseline_def restore_scheduler_baseline_def restore_cpuctl_baseline_def
  by (intro keeps_rules)+

lemma keeps_schedule [keeps_rules]:
  "keeps tcache (should_skip_schedule sv task)"
  "keeps tcache (should_check_cgroup sv task)"
  "keeps tcache (is_cgroup_changed sv task r)"
  "keeps tcache (needs_drift sv task r)"
  unfolding needs_drift_def is_cgroup_changed_def should_skip_schedule_def should_check_cgroup_def
  by (intro keeps_rules; simp)+

lemmas kept_steps [hoare_rules] = keeps_identity [THEN kept_ok] keeps_restores [THEN kept_ok]
  keeps_schedule [THEN kept_ok] keeps_tcache_in_env [THEN kept_ok] keeps_tcache_in_matcher [THEN kept_ok]
  keeps_tcache_priority [THEN kept_ok]

lemma with_identity_ok [hoare_rules]:
  "inv_kept rt_cache_ok k \<Longrightarrow> inv_kept rt_cache_ok (with_identity sv task k)"
  unfolding with_identity_def erase_stale_def
  by (intro hoare_rules tcache_inv_erase)

lemma restore_baseline_ok [hoare_rules]: "inv_kept rt_cache_ok (restore_baseline sv task)"
  unfolding restore_baseline_def forget_thread_def
  by (intro hoare_rules tcache_inv_rules)

lemma capture_ok [hoare_rules]: "inv_kept rt_cache_ok (capture_baseline_if_needed sv task)"
  unfolding capture_baseline_if_needed_def
  by (intro hoare_rules tcache_inv_rules)

text \<open>
  The state of \<open>apply_result\<close> between reading the baseline and the last write: the cache is
  well formed and the baseline it holds for the thread is the one that was read.
\<close>

definition holding :: "DispatchTask \<Rightarrow> ThreadBaseline \<Rightarrow> 'w rt \<Rightarrow> bool" where
  "holding task b s \<longleftrightarrow> tcache_inv (tcache s) \<and> get_baseline (dt_pid task) (dt_tid task) (tcache s) = Some b"

lemma get_baseline_set_managed [simp]:
  "get_baseline p t (set_managed_components pid tid m c) = get_baseline p t c"
  by (simp add: get_baseline_def set_managed_components_def map_of_on_entry split: option.splits)

lemma holding_set_managed:
  "holding task b s \<Longrightarrow> covers m (Some b) \<Longrightarrow>
   holding task b (s\<lparr>tcache := set_managed_components (dt_pid task) (dt_tid task) m (tcache s)\<rparr>)"
  by (simp add: holding_def tcache_inv_set_managed)

lemma holding_managed: "holding task b s \<Longrightarrow> covers (get_managed_components (dt_pid task) (dt_tid task) (tcache s)) (Some b)"
  by (auto simp: holding_def get_managed_components_def get_baseline_def entry_ok_def
      dest: tcache_invD split: option.splits)

lemma hoare_keeps_cache:
  "keeps tcache m \<Longrightarrow> hoare (holding task b) m (\<lambda>_. holding task b)"
  using keeps_inv_kept [of tcache m "\<lambda>c. tcache_inv c \<and> get_baseline (dt_pid task) (dt_tid task) c = Some b"]
  by (simp add: inv_kept_def holding_def [abs_def])

lemma covers_drop:
  "covers m b \<Longrightarrow> covers (m\<lparr>mc_affinity := False\<rparr>) b"
  "covers m b \<Longrightarrow> covers (m\<lparr>mc_priority := False\<rparr>) b"
  "covers m b \<Longrightarrow> covers (m\<lparr>mc_cpuctl := False\<rparr>) b"
  by (simp_all add: covers_def)

definition released_ok :: "DispatchTask \<Rightarrow> ThreadBaseline \<Rightarrow> ManagedComponents option \<Rightarrow> 'w rt \<Rightarrow> bool" where
  "released_ok task b r s \<longleftrightarrow> holding task b s \<and> (\<forall>m. r = Some m \<longrightarrow> covers m (Some b))"

lemma release_component_ok:
  assumes "covers m (Some b)" "covers m' (Some b)" "keeps tcache restore"
  shows "hoare (holding task b) (release_component task need restore m m') (released_ok task b)"
  unfolding release_component_def on_cache_def
  by (intro hoare_if hoare_bind [OF hoare_keeps_cache [OF assms(3)]] hoare_return
      hoare_bind [where R = "\<lambda>_. holding task b"] hoare_modify)
    (simp_all add: released_ok_def assms holding_set_managed)

lemma released_case:
  assumes "\<And>m. covers m (Some b) \<Longrightarrow> hoare (holding task b) (f m) (released_ok task b)"
  shows "hoare (released_ok task b r) (case r of None \<Rightarrow> State_Monad.return None | Some m \<Rightarrow> f m) (released_ok task b)"
proof (cases r)
  case None
  then show ?thesis by (simp add: hoare_def released_ok_def)
next
  case (Some m)
  show ?thesis
  proof (cases "covers m (Some b)")
    case True
    from assms [OF this] Some show ?thesis by (auto simp: hoare_def released_ok_def)
  next
    case False
    with Some show ?thesis by (auto simp: hoare_def released_ok_def)
  qed
qed

lemma release_unmanaged_ok:
  "hoare (holding task b) (release_unmanaged sv task r b) (released_ok task b)"
  unfolding release_unmanaged_def
proof (rule hoare_bind [where R = "\<lambda>m s. holding task b s \<and> covers m (Some b)"])
  show "hoare (holding task b) (gets (\<lambda>s. get_managed_components (dt_pid task) (dt_tid task) (tcache s)))
     (\<lambda>m s. holding task b s \<and> covers m (Some b))"
    by (rule hoare_gets) (simp add: holding_managed)
next
  fix m0
  let ?body = "State_Monad.bind (release_component task
       (should_restore_managed_component (mc_affinity m0) (needs_affinity_management r))
       (restore_affinity_baseline sv task b) m0 (m0\<lparr>mc_affinity := False\<rparr>))
     (\<lambda>r1. case r1 of None \<Rightarrow> State_Monad.return None
      | Some m1 \<Rightarrow> State_Monad.bind (release_component task
            (should_restore_managed_component (mc_priority m1) (needs_priority_management (sv_config sv) r))
            (restore_scheduler_baseline sv task b) m1 (m1\<lparr>mc_priority := False\<rparr>))
          (\<lambda>r2. case r2 of None \<Rightarrow> State_Monad.return None
           | Some m2 \<Rightarrow> release_component task
               (should_restore_managed_component (mc_cpuctl m2) (mr_enable_limit r))
               (restore_cpuctl_baseline sv task b) m2 (m2\<lparr>mc_cpuctl := False\<rparr>)))"
  have "hoare (holding task b) ?body (released_ok task b)" if "covers m0 (Some b)"
    by (intro hoare_bind [OF release_component_ok] released_case release_component_ok that
        covers_drop keeps_restores)
  then show "hoare (\<lambda>s. holding task b s \<and> covers m0 (Some b)) ?body (released_ok task b)"
    by (cases "covers m0 (Some b)") (auto simp: hoare_def)
qed

lemma hoare_with_identity:
  assumes "hoare (holding task b) k (\<lambda>_. rt_cache_ok)"
  shows "hoare (holding task b) (with_identity sv task k) (\<lambda>_. rt_cache_ok)"
  unfolding with_identity_def erase_stale_def on_cache_def
  by (intro hoare_bind [OF hoare_keeps_cache [OF keeps_identity]] hoare_if assms hoare_modify)
    (simp add: rt_cache_ok_def holding_def tcache_inv_erase)

lemma take_over_ok:
  assumes "covers m (Some b)" "baseline_sufficient (sv_config sv) r b"
  shows "hoare (holding task b) (take_over sv task r base m) (\<lambda>_. rt_cache_ok)"
proof -
  let ?m = "\<lparr>mc_affinity = mc_affinity m \<or> needs_affinity_management r,
     mc_priority = mc_priority m \<or> needs_priority_management (sv_config sv) r,
     mc_cpuctl = mc_cpuctl m \<or> mr_enable_limit r\<rparr>"
  have "covers ?m (Some b)" using assms by (auto simp: covers_def baseline_sufficient_def)
  then have set: "hoare (holding task b)
      (on_cache (set_managed_components (dt_pid task) (dt_tid task) ?m)) (\<lambda>_. holding task b)"
    unfolding on_cache_def by (intro hoare_modify) (simp add: holding_set_managed)
  show ?thesis
    unfolding take_over_def Let_def
    by (intro hoare_bind [OF hoare_keeps_cache] hoare_with_identity hoare_bind [OF set] hoare_if keeps_rules)
      (auto simp: on_cache_def rt_cache_ok_def holding_def tcache_inv_applied
        intro!: hoare_modify hoare_return)
qed

lemma apply_result_ok [hoare_rules]: "inv_kept rt_cache_ok (apply_result sv task r base)"
proof -
  let ?get = "gets (\<lambda>s. get_baseline (dt_pid task) (dt_tid task) (tcache s))"
  have body: "hoare (\<lambda>s. rt_cache_ok s \<and> get_baseline (dt_pid task) (dt_tid task) (tcache s) = bo)
     (case bo of None \<Rightarrow> State_Monad.return ()
         | Some b \<Rightarrow>
             if \<not> baseline_sufficient (sv_config sv) r b then State_Monad.return ()
             else State_Monad.bind (release_unmanaged sv task r b)
               (\<lambda>released. case released of None \<Rightarrow> State_Monad.return ()
                | Some m \<Rightarrow> take_over sv task r base m)) (\<lambda>_. rt_cache_ok)" for bo
  proof (cases bo)
    case None
    then show ?thesis by (simp add: hoare_def)
  next
    case (Some b)
    have last: "hoare (released_ok task b x) (case x of None \<Rightarrow> State_Monad.return ()
                | Some m \<Rightarrow> take_over sv task r base m) (\<lambda>_. rt_cache_ok)"
      if "baseline_sufficient (sv_config sv) r b" for x
    proof (cases "\<exists>m. x = Some m \<and> covers m (Some b)")
      case True
      then obtain m where "x = Some m" "covers m (Some b)" by blast
      with take_over_ok [OF this(2) that, of task base] show ?thesis
        by (auto simp: hoare_def released_ok_def)
    next
      case False
      then show ?thesis
        by (cases x) (auto simp: hoare_def released_ok_def rt_cache_ok_def holding_def)
    qed
    have "hoare (holding task b) (if \<not> baseline_sufficient (sv_config sv) r b then State_Monad.return ()
             else State_Monad.bind (release_unmanaged sv task r b)
               (\<lambda>released. case released of None \<Rightarrow> State_Monad.return ()
                | Some m \<Rightarrow> take_over sv task r base m)) (\<lambda>_. rt_cache_ok)"
      by (intro hoare_if hoare_return hoare_bind [OF release_unmanaged_ok] last)
        (simp_all add: holding_def rt_cache_ok_def)
    with Some show ?thesis by (simp add: holding_def [abs_def] rt_cache_ok_def [abs_def])
  qed
  have read: "hoare rt_cache_ok ?get (\<lambda>bo s. rt_cache_ok s \<and> get_baseline (dt_pid task) (dt_tid task) (tcache s) = bo)"
    by (intro hoare_gets) simp
  show ?thesis
    unfolding apply_result_def
    by (intro inv_kept_if restore_baseline_ok inv_kept_bind [OF capture_ok])
      (unfold inv_kept_def, rule hoare_bind [OF read body])
qed

lemma dispatch_ok: "inv_kept rt_cache_ok (process_dispatch_task services task)"
proof -
  have "inv_kept rt_cache_ok (dispatch_current sv task)" for sv :: "('a, 'b) services"
    unfolding dispatch_current_def
    by (intro hoare_rules tcache_inv_rules)
  then show ?thesis
    unfolding process_dispatch_task_def by (intro hoare_rules)
qed

subsection \<open>The throttle\<close>

text \<open>\<open>scheduled t key st\<close>: the last accepted dispatch of \<open>key\<close> was at \<open>t\<close> in state \<open>st\<close>.\<close>

definition scheduled :: "int \<Rightarrow> TaskKey \<Rightarrow> ProcessState \<Rightarrow> ScheduleTimes \<Rightarrow> bool" where
  "scheduled t key state st \<longleftrightarrow> umap_ok (last_schedule_time st) \<and> umap_ok (last_schedule_state st) \<and>
     map_of (last_schedule_time st) key = Some t \<and> map_of (last_schedule_state st) key = Some state"

definition schedule_ok :: "ScheduleTimes \<Rightarrow> bool" where
  "schedule_ok st \<longleftrightarrow> umap_ok (last_schedule_time st) \<and> umap_ok (last_schedule_state st)"

lemma cleanup_keeps_recent:
  assumes "scheduled t key state st" "elapsed_ms t now \<le> schedule_cleanup_interval_ms tm"
  shows "scheduled t key state (cleanup_expired_schedule_times tm now st)"
  using assms
  by (simp add: scheduled_def cleanup_expired_schedule_times_def Let_def umap_lookup_erase_if not_less)

lemma scheduled_counter [simp]: "scheduled t key state (st\<lparr>schedule_counter := n\<rparr>) = scheduled t key state st"
  by (simp add: scheduled_def)

lemma skip_step_accepts:
  assumes "schedule_ok st" "skip_step tm now key state st = (False, st')" "0 \<le> schedule_cleanup_interval_ms tm"
  shows "scheduled now key state st'"
proof -
  let ?st1 = "st\<lparr>last_schedule_time := AList.update key now (last_schedule_time st),
      last_schedule_state := AList.update key state (last_schedule_state st)\<rparr>"
  have "scheduled now key state ?st1" using assms(1) by (simp add: scheduled_def schedule_ok_def)
  with assms(2,3) show ?thesis
    by (auto simp: skip_step_def Let_def split: if_splits intro!: cleanup_keeps_recent)
qed

lemma skip_step_other:
  assumes "scheduled t key state st" "elapsed_ms t now \<le> schedule_cleanup_interval_ms tm" "key' \<noteq> key"
  shows "scheduled t key state (snd (skip_step tm now key' state' st))"
proof -
  let ?st1 = "st\<lparr>last_schedule_time := AList.update key' now (last_schedule_time st),
      last_schedule_state := AList.update key' state' (last_schedule_state st)\<rparr>"
  have "scheduled t key state ?st1" using assms(1,3) by (simp add: scheduled_def)
  with assms show ?thesis
    by (auto simp: skip_step_def Let_def intro!: cleanup_keeps_recent)
qed

lemma skip_step_throttles:
  assumes "scheduled t key state st" "elapsed_ms t now < min_schedule_interval_ms tm"
  shows "skip_step tm now key state st = (True, st)"
  using assms by (simp add: skip_step_def scheduled_def should_throttle_same_state_schedule_def)

lemma elapsed_mono: "t \<le> a \<Longrightarrow> a \<le> b \<Longrightarrow> elapsed_ms t a \<le> elapsed_ms t b"
  by (simp add: elapsed_ms_mono_clock NS_PER_MS_def zdiv_mono1)

lemma check_step_other:
  assumes "scheduled t key state st" "elapsed_ms t now \<le> schedule_cleanup_interval_ms tm"
  shows "scheduled t key state (snd (check_step kh tm now key' st))"
proof -
  have next_check [simp]: "scheduled t key state (st\<lparr>next_cgroup_check_time := n\<rparr>)" for n
    using assms(1) by (simp add: scheduled_def)
  have count [simp]: "scheduled t key state (s\<lparr>cgroup_check_counter := n\<rparr>) = scheduled t key state s" for s n
    by (simp add: scheduled_def)
  show ?thesis
    using assms by (auto simp: check_step_def Let_def split: option.split intro!: cleanup_keeps_recent)
qed

text \<open>
  What happens to a worker's schedule records between two dispatches of one thread: dispatches
  of other threads and cadence checks of any thread, each at its own time.
\<close>

datatype schedule_op = OpSkip int TaskKey ProcessState | OpCheck int TaskKey

fun run_schedule_op ::
  "(TaskKey \<Rightarrow> nat) \<Rightarrow> TimingConfig \<Rightarrow> schedule_op \<Rightarrow> ScheduleTimes \<Rightarrow> ScheduleTimes" where
  "run_schedule_op kh tm (OpSkip now key state) st = snd (skip_step tm now key state st)"
| "run_schedule_op kh tm (OpCheck now key) st = snd (check_step kh tm now key st)"

definition between_dispatches :: "TaskKey \<Rightarrow> int \<Rightarrow> int \<Rightarrow> schedule_op \<Rightarrow> bool" where
  "between_dispatches key t till op = (case op of
       OpSkip now key' state \<Rightarrow> key' \<noteq> key \<and> t \<le> now \<and> now \<le> till
     | OpCheck now key' \<Rightarrow> t \<le> now \<and> now \<le> till)"

lemma run_other_ops:
  assumes "scheduled t key state st" "list_all (between_dispatches key t till) ops"
    "elapsed_ms t till \<le> schedule_cleanup_interval_ms tm"
  shows "scheduled t key state (fold (run_schedule_op kh tm) ops st)"
  using assms(1,2)
proof (induction ops arbitrary: st)
  case (Cons op ops)
  have recent: "elapsed_ms t now \<le> schedule_cleanup_interval_ms tm" if "t \<le> now" "now \<le> till" for now
    using elapsed_mono [OF that] assms(3) by simp
  from Cons.prems recent have "scheduled t key state (run_schedule_op kh tm op st)"
    by (cases op) (auto simp: between_dispatches_def skip_step_other check_step_other)
  with Cons show ?case by simp
qed simp

text \<open>
  When the records live shorter than the minimum interval, the cleanup of another thread's
  dispatch drops a record that is still needed, and the throttle fails.
\<close>

lemma cleanup_defeats_throttle:
  "let tm = default_timing\<lparr>min_schedule_interval_ms := 60000, schedule_cleanup_interval_ms := 100\<rparr>;
       st = \<lparr>last_schedule_time = [((7, 8, 5, 6), 0)], last_schedule_state = [((7, 8, 5, 6), TOP)],
         next_cgroup_check_time = [], schedule_counter = 499, cgroup_check_counter = 0\<rparr>;
       st1 = snd (skip_step tm (200 * NS_PER_MS) (7, 9, 5, 6) TOP st)
   in fst (skip_step tm (300 * NS_PER_MS) (7, 8, 5, 6) TOP st) = True \<and>
      fst (skip_step tm (300 * NS_PER_MS) (7, 8, 5, 6) TOP st1) = False"
  by code_simp

end
