(* ===== verification/Restoration.thy ===== *)
theory Restoration
  imports Scan_Worker
begin

section \<open>Restoring every baseline (core/restoration\_retry.hpp, main.cpp)\<close>

text \<open>
  Before a reload and at shutdown the program puts every thread back: it walks all stored
  baselines, checks the identity of the thread around each change, and forgets a thread
  once it is restored or gone. \<open>run_restoration_with_retry\<close> is a template over two
  operations in the code and here. Main results: \<open>restore_all_thread_baselines\<close>
  returns true exactly when no baseline is left (\<open>restore_all_result\<close>), and the retry loop
  makes at most the given number of attempts, with a delay between two (\<open>retry_loop_trace\<close>).
\<close>

subsection \<open>Bounded retry\<close>

fun retry_loop :: "nat \<Rightarrow> int \<Rightarrow> ('s, bool) state \<Rightarrow> (int \<Rightarrow> ('s, unit) state) \<Rightarrow> ('s, bool) state" where
  "retry_loop 0 attempt restore_op delay_op = State_Monad.return False"
| "retry_loop (Suc n) attempt restore_op delay_op = do {
     ok \<leftarrow> restore_op;
     if ok then State_Monad.return True
     else do {
       (if 0 < n then delay_op attempt else State_Monad.return ());
       retry_loop n (attempt + 1) restore_op delay_op
     }
   }"

definition run_restoration_with_retry ::
  "int \<Rightarrow> ('s, bool) state \<Rightarrow> (int \<Rightarrow> ('s, unit) state) \<Rightarrow> ('s, bool) state" where
  "run_restoration_with_retry max_attempts restore_op delay_op =
     (if max_attempts \<le> 0 then State_Monad.return False
      else retry_loop (nat max_attempts) 1 restore_op delay_op)"

definition restore_with_bounded_retry ::
  "'w os \<Rightarrow> int \<Rightarrow> int \<Rightarrow> ('w rt, bool) state \<Rightarrow> ('w rt, bool) state" where
  "restore_with_bounded_retry os max_attempts retry_delay_ms restore_op =
     run_restoration_with_retry max_attempts restore_op
       (\<lambda>_. if 0 < retry_delay_ms then in_env (sys (os_sleep_us os (retry_delay_ms * 1000)))
            else State_Monad.return ())"

subsection \<open>All baselines\<close>

definition still_current :: "'w os \<Rightarrow> StoredThreadBaseline \<Rightarrow> ('w rt, bool) state" where
  "still_current os e = in_env (identity_matches os (sb_pid e) (sb_tid e) (sb_process_start_time e)
     (sb_thread_start_time e))"

definition discard_stale_identity :: "StoredThreadBaseline \<Rightarrow> ('w rt, unit) state" where
  "discard_stale_identity e = on_cache (erase_thread_if_identity (sb_pid e) (sb_tid e)
     (sb_process_start_time e) (sb_thread_start_time e))"

text \<open>
  One iteration of the loop; the value is false when it clears \<open>all_restored\<close>. \<open>with_current\<close>
  is \<open>if (!identity_matches()) { discard_stale_identity(); continue; }\<close>.
\<close>

definition with_current :: "'w os \<Rightarrow> StoredThreadBaseline \<Rightarrow> ('w rt, bool) state \<Rightarrow> ('w rt, bool) state" where
  "with_current os e k = do {
     current \<leftarrow> still_current os e;
     if \<not> current then do { discard_stale_identity e; State_Monad.return True } else k }"

definition forget_stored :: "StoredThreadBaseline \<Rightarrow> ThreadCache \<Rightarrow> ThreadCache" where
  "forget_stored e c = clear_managed_components (sb_pid e) (sb_tid e)
     (clear_applied_result (sb_pid e) (sb_tid e) (clear_baseline (sb_pid e) (sb_tid e) c))"

definition restore_after_cpuctl :: "'w os \<Rightarrow> StoredThreadBaseline \<Rightarrow> bool \<Rightarrow> ('w rt, bool) state" where
  "restore_after_cpuctl os e ok1 =
     (let b = sb_baseline e; tid = sb_tid e
      in with_current os e (do {
        ok2 \<leftarrow> (if bl_has_scheduler b
               then restore_scheduler os tid (bl_policy b) (bl_priority b) (bl_nice b)
               else State_Monad.return True);
        with_current os e (do {
          ok3 \<leftarrow> (if bl_has_cpuset_path b then restore_cpuset_cgroup os tid (bl_cpuset_path b)
                 else State_Monad.return True);
          with_current os e (do {
            ok4 \<leftarrow> (if bl_has_affinity b then restore_affinity os tid (bl_affinity b)
                   else State_Monad.return True);
            with_current os e
              (if ok1 \<and> ok2 \<and> ok3 \<and> ok4
               then do { on_cache (forget_stored e); State_Monad.return True }
               else State_Monad.return False) }) }) }))"

definition restore_stored :: "'w os \<Rightarrow> StoredThreadBaseline \<Rightarrow> ('w rt, bool) state" where
  "restore_stored os e =
     with_current os e
       (if bl_has_cpuctl_path (sb_baseline e)
        then with_current os e (do {
          ok1 \<leftarrow> restore_cpuctl_cgroup os (sb_tid e) (bl_cpuctl_path (sb_baseline e));
          restore_after_cpuctl os e ok1 })
        else restore_after_cpuctl os e True)"

fun restore_list :: "'w os \<Rightarrow> StoredThreadBaseline list \<Rightarrow> ('w rt, bool) state" where
  "restore_list os [] = State_Monad.return True"
| "restore_list os (e # es) = do {
     a \<leftarrow> restore_stored os e;
     b \<leftarrow> restore_list os es;
     State_Monad.return (a \<and> b) }"

definition restore_all_thread_baselines :: "'w os \<Rightarrow> ('w rt, bool) state" where
  "restore_all_thread_baselines os = do {
     es \<leftarrow> gets (\<lambda>s. get_all_baselines (tcache s));
     restore_list os es }"

subsection \<open>Shutdown\<close>

definition kShutdownRestoreAttempts :: int where "kShutdownRestoreAttempts = 3"
definition kShutdownRestoreDelayMs :: int where "kShutdownRestoreDelayMs = 50"

text \<open>The end of \<open>main\<close>, after the monitor, the router and the workers have stopped.\<close>

definition shutdown_attempts :: "'w os \<Rightarrow> ('w rt, bool) state" where
  "shutdown_attempts os = restore_with_bounded_retry os kShutdownRestoreAttempts kShutdownRestoreDelayMs
     (restore_all_thread_baselines os)"

definition shutdown_restore :: "'w os \<Rightarrow> ('w rt, int) state" where
  "shutdown_restore os = do {
     restored \<leftarrow> shutdown_attempts os;
     (if restored then on_cache clear_cache else State_Monad.return ());
     State_Monad.return (if restored then 0 else 2) }"

subsection \<open>The trace of the retry loop\<close>

datatype retry_event = RTry bool | RDelay int

definition recorded_try :: "('s, bool) state \<Rightarrow> ('s \<times> retry_event list, bool) state" where
  "recorded_try m = State (\<lambda>s. case run_state m (fst s) of (b, t) \<Rightarrow> (b, (t, snd s @ [RTry b])))"

definition recorded_delay :: "(int \<Rightarrow> ('s, unit) state) \<Rightarrow> int \<Rightarrow> ('s \<times> retry_event list, unit) state" where
  "recorded_delay d i = State (\<lambda>s. case run_state (d i) (fst s) of (_, t) \<Rightarrow> ((), (t, snd s @ [RDelay i])))"

fun retry_events :: "nat \<Rightarrow> int \<Rightarrow> bool \<Rightarrow> retry_event list" where
  "retry_events 0 i b = [RTry b]"
| "retry_events (Suc k) i b = RTry False # RDelay i # retry_events k (i + 1) b"

lemma retry_loop_trace:
  assumes "run_state (retry_loop (Suc n) i (recorded_try m) (recorded_delay d)) s = (r, s')"
  shows "\<exists>k \<le> n. snd s' = snd s @ retry_events k i r \<and> (\<not> r \<longrightarrow> k = n)"
  using assms
proof (induction n arbitrary: i s)
  case 0
  then show ?case by (auto simp: recorded_try_def split: prod.splits if_splits)
next
  case (Suc n)
  obtain b s1 where first: "run_state (recorded_try m) s = (b, s1)" by (metis surj_pair)
  have log1: "snd s1 = snd s @ [RTry b]" using first by (auto simp: recorded_try_def split: prod.splits)
  show ?case
  proof (cases b)
    case True
    with Suc.prems first log1 show ?thesis
      by (subst (asm) retry_loop.simps) (auto intro!: exI [of _ "0::nat"])
  next
    case False
    obtain s2 where delay: "run_state (recorded_delay d i) s1 = ((), s2)" by (metis old.unit.exhaust surj_pair)
    have log2: "snd s2 = snd s1 @ [RDelay i]" using delay by (auto simp: recorded_delay_def split: prod.splits)
    have "run_state (retry_loop (Suc n) (i + 1) (recorded_try m) (recorded_delay d)) s2 = (r, s')"
      using Suc.prems first delay False by (subst (asm) retry_loop.simps) simp
    from Suc.IH [OF this] obtain k where "k \<le> n" "snd s' = snd s2 @ retry_events k (i + 1) r" "\<not> r \<longrightarrow> k = n"
      by blast
    with log1 log2 False show ?thesis by (intro exI [of _ "Suc k"]) simp
  qed
qed

subsection \<open>Success means that nothing is left to restore\<close>

definition sb_key :: "StoredThreadBaseline \<Rightarrow> int \<times> int" where
  "sb_key e = (sb_pid e, sb_tid e)"

definition step_result :: "StoredThreadBaseline \<Rightarrow> ThreadCache \<Rightarrow> bool \<Rightarrow> ThreadCache \<Rightarrow> bool" where
  "step_result e c r c' \<longleftrightarrow>
     (r \<and> (c' = forget_stored e c \<or> c' = erase_thread_if_identity (sb_pid e) (sb_tid e)
             (sb_process_start_time e) (sb_thread_start_time e) c)) \<or> (\<not> r \<and> c' = c)"

lemma hoare_same_cache:
  assumes "keeps tcache m"
  shows "hoare (\<lambda>s. tcache s = c) m (\<lambda>_ s. tcache s = c)"
  using keeps_inv_kept [OF assms, of "\<lambda>x. x = c"] by (simp add: inv_kept_def)

lemma hoare_with_current:
  assumes "hoare (\<lambda>s. tcache s = c) k (\<lambda>r s. step_result e c r (tcache s))"
  shows "hoare (\<lambda>s. tcache s = c) (with_current os e k) (\<lambda>r s. step_result e c r (tcache s))"
proof -
  have "keeps tcache (still_current os e)"
    unfolding still_current_def by (rule keeps_tcache_in_env)
  note current = hoare_bind [OF hoare_same_cache [OF this]]
  have discard: "hoare (\<lambda>s. tcache s = c) (do { discard_stale_identity e; State_Monad.return True })
     (\<lambda>r s. step_result e c r (tcache s))"
    by (auto simp: hoare_def discard_stale_identity_def step_result_def)
  show ?thesis unfolding with_current_def by (intro current hoare_if discard assms)
qed

lemma restore_stored_result:
  "hoare (\<lambda>s. tcache s = c) (restore_stored os e) (\<lambda>r s. step_result e c r (tcache s))"
proof -
  have last: "hoare (\<lambda>s. tcache s = c)
      (if ok then do { on_cache (forget_stored e); State_Monad.return True } else State_Monad.return False)
      (\<lambda>r s. step_result e c r (tcache s))" for ok
    by (auto simp: hoare_def step_result_def)
  have after: "hoare (\<lambda>s. tcache s = c) (restore_after_cpuctl os e ok1) (\<lambda>r s. step_result e c r (tcache s))" for ok1
    unfolding restore_after_cpuctl_def Let_def
    by (intro hoare_with_current hoare_bind [OF hoare_same_cache] last keeps_rules)
  show ?thesis
    unfolding restore_stored_def
    by (intro hoare_with_current hoare_if hoare_bind [OF hoare_same_cache] after keeps_rules)
qed

lemma forget_stored_eq:
  "forget_stored e = on_entry (sb_pid e) (sb_tid e)
     (\<lambda>x. x\<lparr>te_baseline := None, te_applied_result := None, te_managed := no_components\<rparr>)"
  by (rule ext) (simp add: forget_stored_def clear_managed_components_def set_managed_components_def
      clear_applied_result_def clear_baseline_def on_entry_def split: option.splits)

text \<open>What is left to do: the listed entries are in the cache as they were read.\<close>

definition to_restore :: "StoredThreadBaseline list \<Rightarrow> ThreadCache \<Rightarrow> bool" where
  "to_restore es c \<longleftrightarrow> tcache_inv c \<and> distinct (map sb_key es) \<and>
     (\<forall>e \<in> set es. \<exists>x. map_of c (sb_key e) = Some x \<and> stored_baseline x = Some e)"

lemma step_other:
  "step_result e c r c' \<Longrightarrow> k \<noteq> sb_key e \<Longrightarrow> map_of c' k = map_of c k"
  by (auto simp: step_result_def forget_stored_eq map_of_on_entry erase_thread_if_identity_def sb_key_def
      split: option.splits if_splits)

lemma step_inv: "step_result e c r c' \<Longrightarrow> tcache_inv c \<Longrightarrow> tcache_inv c'"
  by (auto simp: step_result_def forget_stored_def tcache_inv_forget tcache_inv_erase)

lemma step_self:
  assumes "step_result e c r c'" "map_of c (sb_key e) = Some x" "stored_baseline x = Some e"
  shows "r \<longleftrightarrow> get_baseline (sb_pid e) (sb_tid e) c' = None"
proof -
  from assms(3) have "sb_process_start_time e = te_process_start_time x"
    "sb_thread_start_time e = te_thread_start_time x" "te_baseline x = Some (sb_baseline e)"
    by (auto simp: stored_baseline_def)
  with assms(1,2) show ?thesis
    by (auto simp: step_result_def forget_stored_eq map_of_on_entry get_baseline_def
        erase_thread_if_identity_def sb_key_def split: option.splits)
qed

lemma restore_list_result:
  assumes "to_restore es (tcache s)" "run_state (restore_list os es) s = (r, s')"
  shows "tcache_inv (tcache s') \<and>
    (\<forall>k. k \<notin> sb_key ` set es \<longrightarrow> map_of (tcache s') k = map_of (tcache s) k) \<and>
    (r \<longleftrightarrow> (\<forall>e \<in> set es. get_baseline (sb_pid e) (sb_tid e) (tcache s') = None))"
  using assms
proof (induction es arbitrary: s r s')
  case Nil
  then show ?case by (simp add: to_restore_def)
next
  case (Cons e es)
  obtain a s1 where head: "run_state (restore_stored os e) s = (a, s1)" by (metis surj_pair)
  obtain b s2 where tail: "run_state (restore_list os es) s1 = (b, s2)" by (metis surj_pair)
  have eq: "r = (a \<and> b)" "s2 = s'" using Cons.prems(2) head tail by auto
  have step: "step_result e (tcache s) a (tcache s1)"
    using hoareD [OF restore_stored_result refl head] .
  obtain x where x: "map_of (tcache s) (sb_key e) = Some x" "stored_baseline x = Some e"
    using Cons.prems(1) by (auto simp: to_restore_def)
  have "map_of (tcache s1) (sb_key e1) = map_of (tcache s) (sb_key e1)" if "e1 \<in> set es" for e1
  proof (rule step_other [OF step])
    have "sb_key e \<notin> sb_key ` set es" using Cons.prems(1) by (simp add: to_restore_def)
    with that show "sb_key e1 \<noteq> sb_key e" by (metis imageI)
  qed
  then have rest: "to_restore es (tcache s1)"
    using Cons.prems(1) step_inv [OF step] by (simp add: to_restore_def)
  note ih = Cons.IH [OF rest tail]
  have fresh: "sb_key e \<notin> sb_key ` set es" using Cons.prems(1) by (simp add: to_restore_def)
  have own: "map_of (tcache s2) (sb_key e) = map_of (tcache s1) (sb_key e)"
    using ih fresh by blast
  then have "get_baseline (sb_pid e) (sb_tid e) (tcache s2) = get_baseline (sb_pid e) (sb_tid e) (tcache s1)"
    by (simp add: get_baseline_def sb_key_def)
  with step_self [OF step x] ih eq step_other [OF step] show ?case by auto
qed

lemma to_restore_all:
  assumes "tcache_inv c"
  shows "to_restore (get_all_baselines c) c"
proof -
  have keys: "map sb_key (get_all_baselines d) = map fst (filter (\<lambda>(_, e). te_baseline e \<noteq> None) d)"
    if "\<forall>(k, e) \<in> set d. k = (te_pid e, te_tid e)" for d :: ThreadCache
    using that by (induction d) (auto simp: get_all_baselines_def stored_baseline_def sb_key_def
        split: option.splits)
  have own: "\<forall>(k, e) \<in> set c. k = (te_pid e, te_tid e)"
    using assms by (auto simp: tcache_inv_def umap_in_set_iff entry_ok_def)
  have "distinct (map sb_key (get_all_baselines c))"
    using assms by (simp add: keys [OF own] tcache_inv_def umap_ok_def distinct_map_filter)
  then show ?thesis
    using assms get_all_baselines_iff [OF assms]
    by (auto simp: to_restore_def sb_key_def stored_baseline_def)
qed

lemma restore_all_result:
  assumes inv: "tcache_inv (tcache s)" and run: "run_state (restore_all_thread_baselines os) s = (r, s')"
  shows "tcache_inv (tcache s') \<and> (r \<longleftrightarrow> get_all_baselines (tcache s') = [])"
proof -
  let ?es = "get_all_baselines (tcache s)"
  have "run_state (restore_list os ?es) s = (r, s')"
    using run by (simp add: restore_all_thread_baselines_def)
  note res = restore_list_result [OF to_restore_all [OF inv] this]
  have inv': "tcache_inv (tcache s')" using res by blast
  have "get_all_baselines (tcache s') = [] \<longleftrightarrow> (\<forall>p t. get_baseline p t (tcache s') = None)"
  proof -
    have "(\<forall>(k, e) \<in> set (tcache s'). te_baseline e = None) \<longleftrightarrow>
        (\<forall>k e. map_of (tcache s') k = Some e \<longrightarrow> te_baseline e = None)"
      using inv' by (auto simp: tcache_inv_def umap_in_set_iff)
    then show ?thesis by (auto simp: get_all_baselines_Nil_iff get_baseline_def split: option.splits)
  qed
  also have "\<dots> \<longleftrightarrow> (\<forall>e \<in> set ?es. get_baseline (sb_pid e) (sb_tid e) (tcache s') = None)"
  proof
    assume all: "\<forall>e \<in> set ?es. get_baseline (sb_pid e) (sb_tid e) (tcache s') = None"
    show "\<forall>p t. get_baseline p t (tcache s') = None"
    proof (intro allI)
      fix p t
      show "get_baseline p t (tcache s') = None"
      proof (cases "(p, t) \<in> sb_key ` set ?es")
        case True
        with all show ?thesis by (auto simp: sb_key_def)
      next
        case False
        then have same: "map_of (tcache s') (p, t) = map_of (tcache s) (p, t)" using res by blast
        have "te_baseline x = None" if "map_of (tcache s) (p, t) = Some x" for x
        proof (rule ccontr)
          assume "te_baseline x \<noteq> None"
          then obtain sb where sb: "stored_baseline x = Some sb" by (auto simp: stored_baseline_def)
          have "(p, t) = (te_pid x, te_tid x)" using tcache_invD [OF inv that] by (simp add: entry_ok_def)
          with that sb have "sb \<in> set ?es" "sb_key sb = (p, t)"
            unfolding get_all_baselines_iff [OF inv] by (auto simp: stored_baseline_def sb_key_def)
          with False show False by force
        qed
        with same show ?thesis by (simp add: get_baseline_def split: option.splits)
      qed
    qed
  qed simp
  finally show ?thesis using res by blast
qed

subsection \<open>Shutdown\<close>

lemma retry_loop_cache:
  assumes "\<And>s r s'. tcache_inv (tcache s) \<Longrightarrow> run_state m s = (r, s') \<Longrightarrow>
      tcache_inv (tcache s') \<and> (r \<longleftrightarrow> get_all_baselines (tcache s') = [])"
    and "\<And>i. keeps tcache (d i)"
    and "tcache_inv (tcache s)" "run_state (retry_loop (Suc n) i m d) s = (r, s')"
  shows "tcache_inv (tcache s') \<and> (r \<longleftrightarrow> get_all_baselines (tcache s') = [])"
  using assms(3,4)
proof (induction n arbitrary: i s)
  case 0
  obtain b s1 where first: "run_state m s = (b, s1)" by (metis surj_pair)
  from assms(1) [OF 0(1) first] 0(2) first show ?case by (auto split: if_splits)
next
  case (Suc n)
  obtain b s1 where first: "run_state m s = (b, s1)" by (metis surj_pair)
  note one = assms(1) [OF Suc.prems(1) first]
  show ?case
  proof (cases b)
    case True
    with Suc.prems(2) first one show ?thesis by (subst (asm) retry_loop.simps) auto
  next
    case False
    obtain u s2 where delay: "run_state (d i) s1 = (u, s2)" by (metis surj_pair)
    have inv: "tcache_inv (tcache s2)" using keepsD [OF assms(2) delay] one by simp
    have "run_state (retry_loop (Suc n) (i + 1) m d) s2 = (r, s')"
      using Suc.prems(2) first delay False by (subst (asm) retry_loop.simps) simp
    from Suc.IH [OF inv this] show ?thesis .
  qed
qed

lemma shutdown_attempts_result:
  assumes "tcache_inv (tcache s)" "run_state (shutdown_attempts os) s = (r, s1)"
  shows "r \<longleftrightarrow> get_all_baselines (tcache s1) = []"
proof -
  let ?delay = "\<lambda>_ :: int. if 0 < kShutdownRestoreDelayMs
      then in_env (sys (os_sleep_us os (kShutdownRestoreDelayMs * 1000))) else State_Monad.return ()"
  have delay: "keeps tcache (?delay i)" for i
    by (simp add: kShutdownRestoreDelayMs_def keeps_tcache_in_env)
  have "nat kShutdownRestoreAttempts = Suc 2" "\<not> kShutdownRestoreAttempts \<le> 0"
    by (simp_all add: kShutdownRestoreAttempts_def)
  then have "run_state (retry_loop (Suc 2) 1 (restore_all_thread_baselines os) ?delay) s = (r, s1)"
    using assms(2)
    by (simp add: shutdown_attempts_def restore_with_bounded_retry_def run_restoration_with_retry_def
        del: retry_loop.simps)
  from retry_loop_cache [OF _ delay assms(1) this] restore_all_result show ?thesis by blast
qed

text \<open>The exit code says what the attempts have left, and only a complete restoration clears the cache.\<close>

lemma shutdown_outcome:
  assumes "tcache_inv (tcache s)" "run_state (shutdown_attempts os) s = (r, s1)"
  shows "run_state (shutdown_restore os) s =
    (if get_all_baselines (tcache s1) = [] then (0, s1\<lparr>tcache := []\<rparr>) else (2, s1))"
  using assms(2) shutdown_attempts_result [OF assms] by (simp add: shutdown_restore_def clear_cache_def)

lemma shutdown_result:
  assumes inv: "tcache_inv (tcache s)" and run: "run_state (shutdown_restore os) s = (code, s')"
  shows "(code = 0 \<and> tcache s' = []) \<or> (code = 2 \<and> get_all_baselines (tcache s') \<noteq> [])"
proof -
  obtain r s1 where "run_state (shutdown_attempts os) s = (r, s1)" by (metis surj_pair)
  from shutdown_outcome [OF inv this] run show ?thesis by (auto split: if_splits)
qed

end
