(* ===== verification/Scan_Cursor.thy ===== *)
theory Scan_Cursor
  imports File_Utils
begin

section \<open>Budgets and resumable enumerations (core/scan\_cursor.hpp)\<close>

text \<open>
  A scan runs in slices: a budget holds the deadline of the current slice, and a cursor holds
  what the next slice continues from. Reading a directory can stop at any entry and go on
  later. Main result: however often an enumeration is interrupted, its outcome is that of
  reading the directory in one go (\<open>enumerate_resumes\<close>).
\<close>

subsection \<open>Budget\<close>

record ScanBudget =
  bg_deadline :: int
  bg_batch_size :: int
  bg_batch_yield_us :: int
  bg_thread_reads :: nat

text \<open>What a slice runs on: the environment of the file layer and its budget.\<close>

record 'w slice =
  sl_env :: "'w env"
  sl_budget :: ScanBudget

definition on_env :: "('w env, 'a) state \<Rightarrow> ('w slice, 'a) state" where
  "on_env m = zoom sl_env (\<lambda>e s. s\<lparr>sl_env := e\<rparr>) m"

definition new_budget :: "'w os \<Rightarrow> int \<Rightarrow> int \<Rightarrow> int \<Rightarrow> ('w env, ScanBudget) state" where
  "new_budget os budget_us configured_batch_size configured_batch_yield_us = do {
     now \<leftarrow> sys (os_now os);
     State_Monad.return \<lparr>bg_deadline = now + budget_us * 1000,
       bg_batch_size = max configured_batch_size 1,
       bg_batch_yield_us = max configured_batch_yield_us 0, bg_thread_reads = 0\<rparr> }"

definition exhausted :: "'w os \<Rightarrow> ('w slice, bool) state" where
  "exhausted os = do {
     now \<leftarrow> on_env (sys (os_now os));
     b \<leftarrow> gets sl_budget;
     State_Monad.return (bg_deadline b \<le> now) }"

definition after_thread_read :: "'w os \<Rightarrow> ('w slice, unit) state" where
  "after_thread_read os = do {
     modify (\<lambda>s. s\<lparr>sl_budget := (sl_budget s)\<lparr>bg_thread_reads := bg_thread_reads (sl_budget s) + 1\<rparr>\<rparr>);
     b \<leftarrow> gets sl_budget;
     if 0 < bg_batch_yield_us b \<and> bg_thread_reads b mod nat (bg_batch_size b) = 0
     then on_env (sys (os_sleep_us os (bg_batch_yield_us b)))
     else State_Monad.return () }"

subsection \<open>Reading a directory in slices\<close>

text \<open>
  The loop the three enumerations of the program share: while the budget lasts, take the next
  entry and keep the identifiers. The value is what is left of the stream, the identifiers so
  far, and whether the end was reached.
\<close>

fun read_entries :: "'w os \<Rightarrow> dirent list \<Rightarrow> int list \<Rightarrow> ('w slice, dirent list \<times> int list \<times> bool) state" where
  "read_entries os es ids = do {
     out \<leftarrow> exhausted os;
     if out then State_Monad.return (es, ids, False)
     else case es of
       [] \<Rightarrow> State_Monad.return ([], ids, True)
     | e # rest \<Rightarrow> do {
         after_thread_read os;
         read_entries os rest (case parse_id_entry (d_name e) of None \<Rightarrow> ids | Some i \<Rightarrow> ids @ [i]) } }"

declare read_entries.simps [simp del]

text \<open>\<open>sort\<close> and \<open>unique\<close> at the end of an enumeration, which an error of the stream empties.\<close>

definition finish_ids :: "bool \<Rightarrow> int list \<Rightarrow> int list" where
  "finish_ids stream_error ids = remdups_adj (sort (if stream_error then [] else ids))"

subsection \<open>Cursor\<close>

record ScanCursor =
  cu_pid :: int
  cu_task_dir :: "dir_stream option"
  cu_tid_enumeration_complete :: bool
  cu_tids :: "int list"
  cu_tid_index :: nat
  cu_process_name_loaded :: bool
  cu_process_name :: string
  cu_process_start_time_loaded :: bool
  cu_process_start_time :: nat
  cu_cmdline_loaded :: bool
  cu_cmdline :: string

definition reset_cursor :: ScanCursor where
  "reset_cursor = \<lparr>cu_pid = 0, cu_task_dir = None, cu_tid_enumeration_complete = False, cu_tids = [],
     cu_tid_index = 0, cu_process_name_loaded = False, cu_process_name = [],
     cu_process_start_time_loaded = False, cu_process_start_time = 0, cu_cmdline_loaded = False,
     cu_cmdline = []\<rparr>"

definition begin_pid :: "int \<Rightarrow> ScanCursor" where
  "begin_pid next_pid = reset_cursor\<lparr>cu_pid := next_pid\<rparr>"

definition open_tasks :: "'w os \<Rightarrow> ScanCursor \<Rightarrow> ('w slice, ScanCursor option) state" where
  "open_tasks os c = do {
     d \<leftarrow> on_env (sys (os_opendir os (''/proc/'' @ to_string (cu_pid c) @ ''/task'')));
     State_Monad.return (case d of None \<Rightarrow> None | Some d \<Rightarrow> Some (c\<lparr>cu_task_dir := Some d, cu_tids := []\<rparr>)) }"

definition read_tasks :: "'w os \<Rightarrow> dir_stream \<Rightarrow> ScanCursor \<Rightarrow> ('w slice, bool \<times> ScanCursor) state" where
  "read_tasks os d c = do {
     (rest, ids, ended) \<leftarrow> read_entries os (ds_entries d) (cu_tids c);
     State_Monad.return
       (if ended then (True, c\<lparr>cu_task_dir := None, cu_tids := finish_ids (ds_error d) ids,
          cu_tid_enumeration_complete := True, cu_tid_index := 0\<rparr>)
        else (False, c\<lparr>cu_task_dir := Some (d\<lparr>ds_entries := rest\<rparr>), cu_tids := ids\<rparr>)) }"

definition enumerate_tids :: "'w os \<Rightarrow> ScanCursor \<Rightarrow> ('w slice, bool \<times> ScanCursor) state" where
  "enumerate_tids os c =
     (if cu_tid_enumeration_complete c then State_Monad.return (True, c)
      else if cu_pid c \<le> 0 then State_Monad.return (False, c)
      else case cu_task_dir c of
        Some d \<Rightarrow> read_tasks os d c
      | None \<Rightarrow> do {
          opened \<leftarrow> open_tasks os c;
          (case opened of
             None \<Rightarrow> State_Monad.return (True, c\<lparr>cu_tid_enumeration_complete := True\<rparr>)
           | Some c1 \<Rightarrow> read_tasks os (the (cu_task_dir c1)) c1) })"

subsection \<open>An interrupted enumeration gives what an uninterrupted one gives\<close>

definition entry_ids :: "dirent list \<Rightarrow> int list" where
  "entry_ids es = List.map_filter (\<lambda>e. parse_id_entry (d_name e)) es"

lemma entry_ids_simps [simp]:
  "entry_ids [] = []"
  "entry_ids (e # es) = (case parse_id_entry (d_name e) of None \<Rightarrow> entry_ids es | Some i \<Rightarrow> i # entry_ids es)"
  by (simp_all add: entry_ids_def List.map_filter_def split: option.split)

lemma read_entries_run:
  assumes "run_state (read_entries os es ids) s = ((rest, ids', ended), s')"
  shows "ids' @ entry_ids rest = ids @ entry_ids es" "ended \<longrightarrow> rest = []" "suffix rest es"
proof -
  have "ids' @ entry_ids rest = ids @ entry_ids es \<and> (ended \<longrightarrow> rest = []) \<and> suffix rest es"
    using assms
  proof (induction es arbitrary: ids s)
    case Nil
    then show ?case
      by (subst (asm) read_entries.simps) (auto split: prod.splits if_splits)
  next
    case (Cons e es)
    obtain out s1 where out: "run_state (exhausted os) s = (out, s1)" by (metis surj_pair)
    show ?case
    proof (cases out)
      case True
      with Cons.prems out show ?thesis
        by (subst (asm) read_entries.simps) simp
    next
      case False
      obtain u s2 where "run_state (after_thread_read os) s1 = (u, s2)" by (metis surj_pair)
      with Cons.prems out False have "run_state (read_entries os es
          (case parse_id_entry (d_name e) of None \<Rightarrow> ids | Some i \<Rightarrow> ids @ [i])) s2 = ((rest, ids', ended), s')"
        by (subst (asm) read_entries.simps) simp
      from Cons.IH [OF this] show ?thesis
        by (auto simp: suffix_Cons split: option.splits)
    qed
  qed
  then show "ids' @ entry_ids rest = ids @ entry_ids es" "ended \<longrightarrow> rest = []" "suffix rest es" by blast+
qed

text \<open>
  \<open>enumeration_of d c\<close>: the cursor is somewhere inside reading the stream \<open>d\<close>, or done.
\<close>

definition enumeration_of :: "dir_stream \<Rightarrow> ScanCursor \<Rightarrow> bool" where
  "enumeration_of d c \<longleftrightarrow>
     (if cu_tid_enumeration_complete c
      then cu_tids c = finish_ids (ds_error d) (entry_ids (ds_entries d))
      else 0 < cu_pid c \<and> (\<exists>d'. cu_task_dir c = Some d' \<and> ds_error d' = ds_error d \<and>
             cu_tids c @ entry_ids (ds_entries d') = entry_ids (ds_entries d)))"

lemma read_tasks_run:
  assumes "run_state (read_tasks os d' c) s = ((b, c'), s')" "ds_error d' = ds_error d"
    and "cu_tids c @ entry_ids (ds_entries d') = entry_ids (ds_entries d)" "0 < cu_pid c"
    and "\<not> cu_tid_enumeration_complete c"
  shows "enumeration_of d c'" "b = cu_tid_enumeration_complete c'" "cu_pid c' = cu_pid c"
proof -
  obtain rest ids ended s1 where
    run: "run_state (read_entries os (ds_entries d') (cu_tids c)) s = ((rest, ids, ended), s1)"
    by (metis surj_pair)
  have res: "(b, c') = (if ended then (True, c\<lparr>cu_task_dir := None, cu_tids := finish_ids (ds_error d') ids,
          cu_tid_enumeration_complete := True, cu_tid_index := 0\<rparr>)
        else (False, c\<lparr>cu_task_dir := Some (d'\<lparr>ds_entries := rest\<rparr>), cu_tids := ids\<rparr>))"
    using assms(1) by (simp add: read_tasks_def run)
  note reads = read_entries_run [OF run]
  show "enumeration_of d c'" "b = cu_tid_enumeration_complete c'" "cu_pid c' = cu_pid c"
    using res reads(1,2) assms(2-5) by (auto simp: enumeration_of_def split: if_splits)
qed

lemma enumerate_step:
  assumes "enumeration_of d c" "run_state (enumerate_tids os c) s = ((b, c'), s')"
  shows "enumeration_of d c'" "b = cu_tid_enumeration_complete c'"
proof -
  have "enumeration_of d c' \<and> b = cu_tid_enumeration_complete c'"
  proof (cases "cu_tid_enumeration_complete c")
    case True
    with assms show ?thesis by (simp add: enumerate_tids_def)
  next
    case False
    with assms(1) obtain d' where d': "0 < cu_pid c" "cu_task_dir c = Some d'" "ds_error d' = ds_error d"
      "cu_tids c @ entry_ids (ds_entries d') = entry_ids (ds_entries d)"
      by (auto simp: enumeration_of_def)
    with False assms(2) have "run_state (read_tasks os d' c) s = ((b, c'), s')"
      by (simp add: enumerate_tids_def)
    from read_tasks_run [OF this d'(3,4,1) False] show ?thesis by blast
  qed
  then show "enumeration_of d c'" "b = cu_tid_enumeration_complete c'" by blast+
qed

text \<open>
  The first call for a process opens the stream; \<open>slices\<close> are the later calls, each with the
  budget of its own slice.
\<close>

fun enumerate_slices :: "'w os \<Rightarrow> ScanBudget list \<Rightarrow> ScanCursor \<Rightarrow> ('w slice, bool \<times> ScanCursor) state" where
  "enumerate_slices os [] c = State_Monad.return (cu_tid_enumeration_complete c, c)"
| "enumerate_slices os (b # bs) c = do {
     modify (\<lambda>s. s\<lparr>sl_budget := b\<rparr>);
     (complete, c1) \<leftarrow> enumerate_tids os c;
     enumerate_slices os bs c1 }"

lemma enumerate_slices_run:
  assumes "enumeration_of d c" "run_state (enumerate_slices os bs c) s = ((b, c'), s')"
  shows "enumeration_of d c' \<and> b = cu_tid_enumeration_complete c'"
  using assms
proof (induction bs arbitrary: c s)
  case (Cons x bs)
  obtain b1 c1 s1 where step: "run_state (enumerate_tids os c) (s\<lparr>sl_budget := x\<rparr>) = ((b1, c1), s1)"
    by (metis surj_pair)
  from Cons.prems(2) step have "run_state (enumerate_slices os bs c1) s1 = ((b, c'), s')" by simp
  from Cons.IH [OF enumerate_step(1) [OF Cons.prems(1) step] this] show ?case .
qed simp

lemma open_tasks_starts:
  assumes "run_state (open_tasks os (begin_pid pid)) s = (Some c, s')" "0 < pid"
  shows "\<exists>d. cu_task_dir c = Some d \<and> enumeration_of d c \<and> cu_pid c = pid"
  using assms
  by (auto simp: open_tasks_def begin_pid_def reset_cursor_def enumeration_of_def
      split: prod.splits option.splits)

lemma enumerate_resumes:
  assumes "run_state (open_tasks os (begin_pid pid)) s0 = (Some c, s1)" "0 < pid"
    and "cu_task_dir c = Some d"
    and "run_state (enumerate_slices os bs c) s = ((True, c'), s')"
  shows "cu_tids c' = finish_ids (ds_error d) (entry_ids (ds_entries d))"
proof -
  from open_tasks_starts [OF assms(1,2)] assms(3) have "enumeration_of d c" by simp
  from enumerate_slices_run [OF this assms(4)] show ?thesis by (simp add: enumeration_of_def)
qed

lemma sorted_distinct_remdups_adj: "sorted xs \<Longrightarrow> distinct (remdups_adj (xs :: int list))"
  by (induction xs rule: remdups_adj.induct) fastforce+

lemma finish_ids_sorted: "sorted (finish_ids e ids)" "distinct (finish_ids e ids)"
  unfolding finish_ids_def by (simp_all add: sorted_remdups_adj sorted_distinct_remdups_adj)

lemma set_finish_ids: "set (finish_ids e ids) = (if e then {} else set ids)"
  by (simp add: finish_ids_def)

subsection \<open>A slice that has budget makes progress\<close>

lemma read_entries_progress:
  assumes "run_state (exhausted os) s = (False, s1)"
    and "run_state (read_entries os (e # es) ids) s = ((rest, ids', ended), s')"
  shows "suffix rest es"
proof -
  obtain u s2 where "run_state (after_thread_read os) s1 = (u, s2)" by (metis surj_pair)
  with assms(1) assms(2) [unfolded read_entries.simps [of os "e # es"]]
  have "run_state (read_entries os es
      (case parse_id_entry (d_name e) of None \<Rightarrow> ids | Some i \<Rightarrow> ids @ [i])) s2 = ((rest, ids', ended), s')"
    by simp
  from read_entries_run(3) [OF this] show ?thesis .
qed

end
