(* ===== verification/Dispatch.thy ===== *)
theory Dispatch
  imports Scan_Cursor Task_Queue
begin

section \<open>Dispatching processes to the workers (main.cpp)\<close>

text \<open>
  \<open>dispatch_pids_to_workers\<close> walks the threads of a set of processes and offers each to a worker
  chosen by a hash of its identity. It gives up its slice whenever the budget is exhausted or a
  queue is full, and resumes at the same thread. The workers are a pool with one operation,
  enqueue on the worker of an index; \<open>std::hash\<close> is part of the pool. Main
  results: no thread is offered twice in a cycle (\<open>dispatch_distinct\<close>), and on
  processes that do not change meanwhile, however often the walk is interrupted, the workers
  get every live thread, in order (\<open>dispatch_calls_complete\<close>).
\<close>

unbundle bit_operations_syntax

subsection \<open>State\<close>

record 'q pool =
  pl_size :: nat
  pl_enqueue :: "nat \<Rightarrow> DispatchTask \<Rightarrow> 'q \<Rightarrow> EnqueueResult \<times> 'q"
  pl_hash_int :: "int \<Rightarrow> 64 word"
  pl_hash_u64 :: "nat \<Rightarrow> 64 word"

record ('w, 'q) scanner =
  sn_slice :: "'w slice"
  sn_workers :: 'q
  sn_cursor :: ScanCursor
  sn_processed_tids :: "int set"
  sn_full_rescan_needed :: bool

definition on_slice :: "('w slice, 'a) state \<Rightarrow> (('w, 'q) scanner, 'a) state" where
  "on_slice m = zoom sn_slice (\<lambda>x s. s\<lparr>sn_slice := x\<rparr>) m"

definition set_cursor :: "(ScanCursor \<Rightarrow> ScanCursor) \<Rightarrow> (('w, 'q) scanner, unit) state" where
  "set_cursor f = modify (\<lambda>s. s\<lparr>sn_cursor := f (sn_cursor s)\<rparr>)"

definition request_rescan :: "(('w, 'q) scanner, unit) state" where
  "request_rescan = modify (\<lambda>s. s\<lparr>sn_full_rescan_needed := True\<rparr>)"

subsection \<open>Choosing a worker\<close>

definition worker_hash :: "'q pool \<Rightarrow> int \<Rightarrow> int \<Rightarrow> nat \<Rightarrow> nat \<Rightarrow> 64 word" where
  "worker_hash pool pid tid process_start thread_start =
     hash_combine (hash_combine (hash_combine (pl_hash_int pool pid) (pl_hash_int pool tid))
       (pl_hash_u64 pool process_start)) (pl_hash_u64 pool thread_start)"

definition worker_index :: "'q pool \<Rightarrow> DispatchTask \<Rightarrow> nat" where
  "worker_index pool t = unat (worker_hash pool (dt_pid t) (dt_tid t) (dt_process_start_time t)
     (dt_thread_start_time t)) mod pl_size pool"

text \<open>The same computed on integers, so that the evaluation of a witness never counts up to a hash.\<close>

lemma worker_index_code [code]:
  "worker_index pool t = nat (uint (worker_hash pool (dt_pid t) (dt_tid t) (dt_process_start_time t)
     (dt_thread_start_time t)) mod int (pl_size pool))"
  by (simp add: worker_index_def nat_mod_distrib)

subsection \<open>One thread\<close>

definition offer_task :: "'q pool \<Rightarrow> DispatchTask \<Rightarrow> (('w, 'q) scanner, EnqueueResult) state" where
  "offer_task pool t = zoom sn_workers (\<lambda>q s. s\<lparr>sn_workers := q\<rparr>)
     (State (pl_enqueue pool (worker_index pool t) t))"

definition step_back :: "(('w, 'q) scanner, unit) state" where
  "step_back = set_cursor (\<lambda>c. c\<lparr>cu_tid_index := cu_tid_index c - 1\<rparr>)"

text \<open>The body of the loop over the threads; the value is true for \<open>return true\<close>.\<close>

definition dispatch_tid ::
  "'w os \<Rightarrow> 'q pool \<Rightarrow> int \<Rightarrow> ProcessState \<Rightarrow> string \<Rightarrow> (('w, 'q) scanner, bool) state" where
  "dispatch_tid os pool pid st cpuset_base = do {
     out \<leftarrow> on_slice (exhausted os);
     if out then State_Monad.return True
     else do {
       c \<leftarrow> gets sn_cursor;
       let tid = cu_tids c ! cu_tid_index c;
       set_cursor (\<lambda>c. c\<lparr>cu_tid_index := cu_tid_index c + 1\<rparr>);
       processed \<leftarrow> gets sn_processed_tids;
       if tid \<in> processed then State_Monad.return False
       else do {
         thread_name \<leftarrow> on_slice (on_env (get_thread_name os pid tid));
         on_slice (after_thread_read os);
         if thread_name = dead_name then State_Monad.return False
         else do {
           out2 \<leftarrow> on_slice (exhausted os);
           if out2 then do { step_back; State_Monad.return True }
           else do {
             thread_start \<leftarrow> on_slice (on_env (get_thread_start_time os pid tid));
             on_slice (after_thread_read os);
             if thread_start = 0 then State_Monad.return False
             else do {
               verified \<leftarrow> on_slice (on_env (get_process_start_time os pid));
               on_slice (after_thread_read os);
               if verified \<noteq> cu_process_start_time c
               then do { set_cursor (\<lambda>_. reset_cursor); request_rescan; State_Monad.return True }
               else do {
                 out3 \<leftarrow> on_slice (exhausted os);
                 if out3 then do { step_back; State_Monad.return True }
                 else do {
                   result \<leftarrow> offer_task pool \<lparr>dt_pid = pid, dt_tid = tid,
                     dt_process_start_time = cu_process_start_time c,
                     dt_thread_start_time = thread_start, dt_thread_name = thread_name, dt_state = st,
                     dt_cpuset_base = cpuset_base, dt_proc_name = cu_process_name c,
                     dt_cmdline = cu_cmdline c\<rparr>;
                   if result = QueueFull \<or> result = Stopped
                   then do { step_back; request_rescan; State_Monad.return True }
                   else do {
                     modify (\<lambda>s. s\<lparr>sn_processed_tids := insert tid (sn_processed_tids s)\<rparr>);
                     State_Monad.return False } } } } } } } } }"

text \<open>Every iteration that does not return moves the index by one: the argument counts what is left.\<close>

fun dispatch_tids ::
  "'w os \<Rightarrow> 'q pool \<Rightarrow> int \<Rightarrow> ProcessState \<Rightarrow> string \<Rightarrow> nat \<Rightarrow> (('w, 'q) scanner, bool) state" where
  "dispatch_tids os pool pid st cpuset_base 0 = State_Monad.return False"
| "dispatch_tids os pool pid st cpuset_base (Suc n) = do {
     stop \<leftarrow> dispatch_tid os pool pid st cpuset_base;
     if stop then State_Monad.return True else dispatch_tids os pool pid st cpuset_base n }"

subsection \<open>One process\<close>

definition load_process_name :: "'w os \<Rightarrow> int \<Rightarrow> (('w, 'q) scanner, unit) state" where
  "load_process_name os pid = do {
     c \<leftarrow> gets sn_cursor;
     if cu_process_name_loaded c then State_Monad.return ()
     else do {
       name \<leftarrow> on_slice (on_env (get_process_name_from_status os pid));
       set_cursor (\<lambda>c. c\<lparr>cu_process_name := name, cu_process_name_loaded := True\<rparr>);
       on_slice (after_thread_read os) } }"

definition load_process_start_time :: "'w os \<Rightarrow> int \<Rightarrow> (('w, 'q) scanner, unit) state" where
  "load_process_start_time os pid = do {
     c \<leftarrow> gets sn_cursor;
     if cu_process_start_time_loaded c then State_Monad.return ()
     else do {
       t \<leftarrow> on_slice (on_env (get_process_start_time os pid));
       set_cursor (\<lambda>c. c\<lparr>cu_process_start_time := t, cu_process_start_time_loaded := True\<rparr>);
       on_slice (after_thread_read os) } }"

definition load_cmdline :: "'w os \<Rightarrow> int \<Rightarrow> (('w, 'q) scanner, unit) state" where
  "load_cmdline os pid = do {
     c \<leftarrow> gets sn_cursor;
     if cu_cmdline_loaded c then State_Monad.return ()
     else do {
       l \<leftarrow> on_slice (on_env (get_process_cmdline os pid));
       set_cursor (\<lambda>c. c\<lparr>cu_cmdline := l, cu_cmdline_loaded := True\<rparr>);
       on_slice (after_thread_read os) } }"

definition enumerate_current :: "'w os \<Rightarrow> (('w, 'q) scanner, bool) state" where
  "enumerate_current os = do {
     c \<leftarrow> gets sn_cursor;
     (complete, c1) \<leftarrow> on_slice (enumerate_tids os c);
     set_cursor (\<lambda>_. c1);
     State_Monad.return complete }"

definition dispatch_threads ::
  "'w os \<Rightarrow> 'q pool \<Rightarrow> int \<Rightarrow> ProcessState \<Rightarrow> string \<Rightarrow> (('w, 'q) scanner, bool) state" where
  "dispatch_threads os pool pid st cpuset_base = do {
     out \<leftarrow> on_slice (exhausted os);
     if out then State_Monad.return True
     else do {
       load_process_start_time os pid;
       c \<leftarrow> gets sn_cursor;
       if cu_process_start_time c = 0 then State_Monad.return False
       else do {
         out2 \<leftarrow> on_slice (exhausted os);
         if out2 then State_Monad.return True
         else do {
           load_cmdline os pid;
           c \<leftarrow> gets sn_cursor;
           dispatch_tids os pool pid st cpuset_base (length (cu_tids c) - cu_tid_index c) } } } }"

definition dispatch_process ::
  "'w os \<Rightarrow> 'q pool \<Rightarrow> int \<Rightarrow> ProcessState \<Rightarrow> string \<Rightarrow> (('w, 'q) scanner, bool) state" where
  "dispatch_process os pool pid st cpuset_base = do {
     c \<leftarrow> gets sn_cursor;
     (if cu_pid c \<noteq> pid then set_cursor (\<lambda>_. begin_pid pid) else State_Monad.return ());
     complete \<leftarrow> enumerate_current os;
     if \<not> complete then State_Monad.return True
     else do {
       out \<leftarrow> on_slice (exhausted os);
       if out then State_Monad.return True
       else do {
         load_process_name os pid;
         c \<leftarrow> gets sn_cursor;
         if cu_process_name c = dead_name then State_Monad.return False
         else dispatch_threads os pool pid st cpuset_base } } }"

subsection \<open>A set of processes\<close>

fun dispatch_list ::
  "'w os \<Rightarrow> 'q pool \<Rightarrow> int list \<Rightarrow> ProcessState \<Rightarrow> string \<Rightarrow> (('w, 'q) scanner, bool) state" where
  "dispatch_list os pool [] st cpuset_base = State_Monad.return False"
| "dispatch_list os pool (pid # pids) st cpuset_base = do {
     stop \<leftarrow> dispatch_process os pool pid st cpuset_base;
     if stop then State_Monad.return True
     else do {
       set_cursor (\<lambda>_. reset_cursor);
       dispatch_list os pool pids st cpuset_base } }"

text \<open>\<open>lower_bound\<close> on a \<open>std::set<int>\<close>: a set of processes is walked in ascending order.\<close>

definition resume_at :: "int \<Rightarrow> int set \<Rightarrow> int list" where
  "resume_at pid pids =
     (if 0 < pid then dropWhile (\<lambda>p. p < pid) (sorted_list_of_set pids) else sorted_list_of_set pids)"

definition dispatch_pids_to_workers ::
  "'w os \<Rightarrow> 'q pool \<Rightarrow> int set \<Rightarrow> ProcessState \<Rightarrow> string \<Rightarrow> (('w, 'q) scanner, bool) state" where
  "dispatch_pids_to_workers os pool pids st cpuset_base =
     (if pl_size pool = 0 \<or> pids = {}
      then do { set_cursor (\<lambda>_. reset_cursor); State_Monad.return False }
      else do {
        c \<leftarrow> gets sn_cursor;
        let todo = resume_at (cu_pid c) pids;
        if todo = [] then do { set_cursor (\<lambda>_. reset_cursor); State_Monad.return False }
        else do {
          (if 0 < cu_pid c \<and> hd todo \<noteq> cu_pid c then set_cursor (\<lambda>_. reset_cursor)
           else State_Monad.return ());
          dispatch_list os pool todo st cpuset_base } })"

definition dispatch_pinned_to_workers :: "'w os \<Rightarrow> 'q pool \<Rightarrow> int set \<Rightarrow> (('w, 'q) scanner, bool) state" where
  "dispatch_pinned_to_workers os pool pids = dispatch_pids_to_workers os pool pids TOP ''/dev/cpuset''"

definition dispatch_topfore_to_workers :: "'w os \<Rightarrow> 'q pool \<Rightarrow> int set \<Rightarrow> (('w, 'q) scanner, bool) state" where
  "dispatch_topfore_to_workers os pool pids = dispatch_pids_to_workers os pool pids TOP ''/dev/cpuset''"

definition dispatch_top_app_to_workers :: "'w os \<Rightarrow> 'q pool \<Rightarrow> int set \<Rightarrow> (('w, 'q) scanner, bool) state" where
  "dispatch_top_app_to_workers os pool pids = dispatch_pids_to_workers os pool pids TOP ''/dev/cpuset''"

definition dispatch_foreground_to_workers :: "'w os \<Rightarrow> 'q pool \<Rightarrow> int set \<Rightarrow> (('w, 'q) scanner, bool) state" where
  "dispatch_foreground_to_workers os pool pids = dispatch_pids_to_workers os pool pids FG ''/dev/cpuset''"

definition dispatch_background_to_workers :: "'w os \<Rightarrow> 'q pool \<Rightarrow> int set \<Rightarrow> (('w, 'q) scanner, bool) state" where
  "dispatch_background_to_workers os pool pids = dispatch_pids_to_workers os pool pids BG ''/dev/cpuset''"

text \<open>The pool of the program: four scan workers.\<close>

definition scan_workers :: "(int \<Rightarrow> 64 word) \<Rightarrow> (nat \<Rightarrow> 64 word) \<Rightarrow> WorkerQueue list \<Rightarrow> WorkerQueue list pool" where
  "scan_workers hash_int hash_u64 ws = \<lparr>pl_size = length ws,
     pl_enqueue = (\<lambda>i t ws. case enqueue t (ws ! i) of (r, q) \<Rightarrow> (r, ws[i := q])),
     pl_hash_int = hash_int, pl_hash_u64 = hash_u64\<rparr>"

subsection \<open>Frames\<close>

lemma wp_on_slice: "(\<And>a x. Q a (s\<lparr>sn_slice := x\<rparr>)) \<Longrightarrow> wp (on_slice m) Q s"
  unfolding on_slice_def by (rule wp_zoom) (simp add: wp_iff)

lemma wp_set_cursor [wp_rules]: "Q () (s\<lparr>sn_cursor := f (sn_cursor s)\<rparr>) \<Longrightarrow> wp (set_cursor f) Q s"
  unfolding set_cursor_def by (rule wp_modify)

lemma wp_request_rescan [wp_rules]: "Q () (s\<lparr>sn_full_rescan_needed := True\<rparr>) \<Longrightarrow> wp request_rescan Q s"
  unfolding request_rescan_def by (rule wp_modify)

subsection \<open>Recording what the workers accept\<close>

definition accepted :: "EnqueueResult \<Rightarrow> bool" where
  "accepted r \<longleftrightarrow> r = Queued \<or> r = Updated"

lemma not_accepted_iff: "r = QueueFull \<or> r = Stopped \<longleftrightarrow> \<not> accepted r"
  by (cases r) (simp_all add: accepted_def)

text \<open>The same pool with a log of the accepted tasks.\<close>

definition recorded_pool :: "'q pool \<Rightarrow> ('q \<times> DispatchTask list) pool" where
  "recorded_pool p = \<lparr>pl_size = pl_size p,
     pl_enqueue = (\<lambda>i t (q, log). case pl_enqueue p i t q of
        (r, q') \<Rightarrow> (r, (q', if accepted r then log @ [t] else log))),
     pl_hash_int = pl_hash_int p, pl_hash_u64 = pl_hash_u64 p\<rparr>"

lemma wp_offer_recorded:
  assumes "\<And>q. Q Queued (s\<lparr>sn_workers := (q, snd (sn_workers s) @ [t])\<rparr>)"
    and "\<And>q. Q Updated (s\<lparr>sn_workers := (q, snd (sn_workers s) @ [t])\<rparr>)"
    and "\<And>r q. \<not> accepted r \<Longrightarrow> Q r (s\<lparr>sn_workers := (q, snd (sn_workers s))\<rparr>)"
  shows "wp (offer_task (recorded_pool p) t) Q s"
proof -
  obtain r q where run: "pl_enqueue p (worker_index (recorded_pool p) t) t (fst (sn_workers s)) = (r, q)"
    by (metis surj_pair)
  obtain q0 log where w: "sn_workers s = (q0, log)" by (metis surj_pair)
  show ?thesis
  proof (cases "accepted r")
    case True
    with run w assms(1,2) [of q] show ?thesis
      by (cases r) (simp_all add: offer_task_def recorded_pool_def wp_def accepted_def)
  next
    case False
    with run w assms(3) [OF False, of q] show ?thesis
      by (simp add: offer_task_def recorded_pool_def wp_def)
  qed
qed

subsection \<open>What a walk of the processes keeps\<close>

text \<open>
  Whatever is offered is the task of a live thread of a process of the set, in the state the cycle
  dispatches, and its thread was not processed before. A property of the processed threads and the
  accepted tasks that such an acceptance keeps is kept by the whole walk.
\<close>

definition task_fits :: "int set \<Rightarrow> ProcessState \<Rightarrow> string \<Rightarrow> DispatchTask \<Rightarrow> bool" where
  "task_fits pids st cpuset_base t \<longleftrightarrow> dt_pid t \<in> pids \<and> dt_state t = st \<and> dt_cpuset_base t = cpuset_base \<and>
     dt_process_start_time t \<noteq> 0 \<and> dt_thread_start_time t \<noteq> 0 \<and>
     dt_thread_name t \<noteq> dead_name \<and> dt_proc_name t \<noteq> dead_name"

definition monitored ::
  "(int set \<Rightarrow> DispatchTask list \<Rightarrow> bool) \<Rightarrow> ('w, 'q \<times> DispatchTask list) scanner \<Rightarrow> bool" where
  "monitored keep s \<longleftrightarrow> keep (sn_processed_tids s) (snd (sn_workers s))"

lemma monitored_frame [simp]:
  "monitored keep (s\<lparr>sn_slice := x\<rparr>) = monitored keep s"
  "monitored keep (s\<lparr>sn_cursor := c\<rparr>) = monitored keep s"
  "monitored keep (s\<lparr>sn_full_rescan_needed := b\<rparr>) = monitored keep s"
  by (simp_all add: monitored_def)

lemma monitored_refused:
  "monitored keep s \<Longrightarrow> monitored keep (s\<lparr>sn_workers := (q, snd (sn_workers s))\<rparr>)"
  by (simp add: monitored_def)

text \<open>The cursor's data of the process was checked before its threads are offered.\<close>

definition cursor_live :: "ScanCursor \<Rightarrow> bool" where
  "cursor_live c \<longleftrightarrow> cu_process_start_time c \<noteq> 0 \<and> cu_process_name c \<noteq> dead_name"

lemma cursor_live_index [simp]: "cursor_live (c\<lparr>cu_tid_index := i\<rparr>) = cursor_live c"
  by (simp add: cursor_live_def)

lemma wp_step_back [wp_rules]:
  "Q () (s\<lparr>sn_cursor := (sn_cursor s)\<lparr>cu_tid_index := cu_tid_index (sn_cursor s) - 1\<rparr>\<rparr>) \<Longrightarrow> wp step_back Q s"
  unfolding step_back_def by (rule wp_set_cursor)

lemma resume_at_subset: "set (resume_at pid pids) \<subseteq> pids"
  by (cases "finite pids") (auto simp: resume_at_def dest: set_dropWhileD)

locale dispatch_monitor =
  fixes keep :: "int set \<Rightarrow> DispatchTask list \<Rightarrow> bool"
    and pids :: "int set" and st :: ProcessState and base :: string
  assumes keep_accepted: "keep processed log \<Longrightarrow> task_fits pids st base t \<Longrightarrow> dt_tid t \<notin> processed \<Longrightarrow>
      keep (insert (dt_tid t) processed) (log @ [t])"
begin

lemma keep_offered:
  assumes "keep processed log" "tid \<notin> processed" "pid \<in> pids" "0 < ps" "0 < ts"
    "name \<noteq> dead_name" "proc \<noteq> dead_name"
  shows "keep (insert tid processed) (log @ [\<lparr>dt_pid = pid, dt_tid = tid, dt_process_start_time = ps,
    dt_thread_start_time = ts, dt_thread_name = name, dt_state = st, dt_cpuset_base = base,
    dt_proc_name = proc, dt_cmdline = line\<rparr>])"
  using keep_accepted [OF assms(1), of "\<lparr>dt_pid = pid, dt_tid = tid, dt_process_start_time = ps,
    dt_thread_start_time = ts, dt_thread_name = name, dt_state = st, dt_cpuset_base = base,
    dt_proc_name = proc, dt_cmdline = line\<rparr>"] assms
  by (simp add: task_fits_def)

lemma dispatch_tid_monitored:
  assumes "monitored keep s" "cursor_live (sn_cursor s)" "pid \<in> pids"
  shows "wp (dispatch_tid os (recorded_pool p) pid st base)
    (\<lambda>stop s'. monitored keep s' \<and> (\<not> stop \<longrightarrow> cursor_live (sn_cursor s'))) s"
  unfolding dispatch_tid_def
  using assms
  by (intro wp_rules wp_on_slice wp_offer_recorded)
    (simp_all add: monitored_refused not_accepted_iff,
     auto simp: monitored_def cursor_live_def accepted_def intro: keep_offered)

lemma dispatch_tids_monitored:
  assumes "monitored keep s" "cursor_live (sn_cursor s)" "pid \<in> pids"
  shows "wp (dispatch_tids os (recorded_pool p) pid st base n) (\<lambda>stop. monitored keep) s"
  using assms(1,2)
proof (induction n arbitrary: s)
  case 0
  then show ?case by (simp add: wp_def)
next
  case (Suc n)
  show ?case
    unfolding dispatch_tids.simps
    by (rule wp_bind, rule wp_conseq [OF dispatch_tid_monitored [OF Suc.prems assms(3)]])
      (auto intro!: wp_rules Suc.IH)
qed

text \<open>
  The sub-operations as rules for a walk through their callers: each keeps the invariant, and the
  later loads keep what the earlier ones established.
\<close>

lemma wp_loads:
  assumes "monitored keep s"
  shows "(\<And>s'. monitored keep s' \<Longrightarrow> Q () s') \<Longrightarrow> wp (load_process_name os pid) Q s"
    and "(\<And>s'. monitored keep s' \<Longrightarrow>
        cu_process_name (sn_cursor s') = cu_process_name (sn_cursor s) \<Longrightarrow> Q () s') \<Longrightarrow>
      wp (load_process_start_time os pid) Q s"
    and "(\<And>s'. monitored keep s' \<Longrightarrow>
        cursor_live (sn_cursor s') = cursor_live (sn_cursor s) \<Longrightarrow> Q () s') \<Longrightarrow> wp (load_cmdline os pid) Q s"
    and "(\<And>b s'. monitored keep s' \<Longrightarrow> R b s') \<Longrightarrow> wp (enumerate_current os) R s"
  unfolding load_process_name_def load_process_start_time_def load_cmdline_def enumerate_current_def
  by (intro wp_rules wp_on_slice; simp add: assms cursor_live_def)+

lemma dispatch_threads_monitored:
  assumes "monitored keep s" "cu_process_name (sn_cursor s) \<noteq> dead_name" "pid \<in> pids"
  shows "wp (dispatch_threads os (recorded_pool p) pid st base) (\<lambda>stop. monitored keep) s"
  unfolding dispatch_threads_def
  using assms
  by (intro wp_rules wp_on_slice wp_loads dispatch_tids_monitored)
    (simp_all add: cursor_live_def)

lemma dispatch_process_monitored:
  assumes "monitored keep s" "pid \<in> pids"
  shows "wp (dispatch_process os (recorded_pool p) pid st base) (\<lambda>stop. monitored keep) s"
  unfolding dispatch_process_def
  using assms
  by (intro wp_rules wp_on_slice wp_loads dispatch_threads_monitored) simp_all

lemma dispatch_list_monitored:
  assumes "monitored keep s" "set ps \<subseteq> pids"
  shows "wp (dispatch_list os (recorded_pool p) ps st base) (\<lambda>stop. monitored keep) s"
  using assms
proof (induction ps arbitrary: s)
  case Nil
  then show ?case by (simp add: wp_def)
next
  case (Cons pid ps)
  have "pid \<in> pids" using Cons.prems by simp
  show ?case
    unfolding dispatch_list.simps
    by (rule wp_bind, rule wp_conseq [OF dispatch_process_monitored [OF Cons.prems(1) \<open>pid \<in> pids\<close>]])
      (use Cons.prems(2) in \<open>auto intro!: wp_rules Cons.IH\<close>)
qed

lemma dispatch_monitored:
  assumes "monitored keep s"
  shows "wp (dispatch_pids_to_workers os (recorded_pool p) pids st base) (\<lambda>stop. monitored keep) s"
  unfolding dispatch_pids_to_workers_def
  using assms resume_at_subset
  by (intro wp_rules dispatch_list_monitored) simp_all

end

text \<open>
  The same for a property of the state itself: what time passing, the cursor, the processed threads, a
  request for a rescan and an offer to a worker keep, the whole walk keeps.
\<close>

locale scanner_invariant =
  fixes P :: "('w, 'q) scanner \<Rightarrow> bool" and pool :: "'q pool"
  assumes kept_slice: "P s \<Longrightarrow> P (s\<lparr>sn_slice := x\<rparr>)"
    and kept_cursor: "P s \<Longrightarrow> P (s\<lparr>sn_cursor := c\<rparr>)"
    and kept_processed: "P s \<Longrightarrow> P (s\<lparr>sn_processed_tids := tids\<rparr>)"
    and kept_rescan: "P s \<Longrightarrow> P (s\<lparr>sn_full_rescan_needed := True\<rparr>)"
    and kept_offer: "P s \<Longrightarrow> pl_enqueue pool i t (sn_workers s) = (r, q) \<Longrightarrow> P (s\<lparr>sn_workers := q\<rparr>)"
begin

lemma kept_steps:
  "inv_kept P (on_slice m)" "inv_kept P (set_cursor f)" "inv_kept P step_back" "inv_kept P request_rescan"
  "inv_kept P (offer_task pool t)" "inv_kept P (modify (\<lambda>s. s\<lparr>sn_processed_tids := g s\<rparr>))"
  unfolding on_slice_def step_back_def set_cursor_def request_rescan_def offer_task_def
  by (auto intro!: inv_keptI kept_slice kept_cursor kept_processed kept_rescan intro: kept_offer
      split: prod.splits)

lemma kept_dispatch: "inv_kept P (dispatch_pids_to_workers os pool pids st base)"
proof -
  have tid: "inv_kept P (dispatch_tid os pool pid st base)" for pid
    unfolding dispatch_tid_def by (intro hoare_rules kept_steps)
  have tids: "inv_kept P (dispatch_tids os pool pid st base n)" for pid n
    by (induction n) (auto intro!: hoare_rules tid)
  have loads: "inv_kept P (load_process_name os pid)" "inv_kept P (load_cmdline os pid)"
    "inv_kept P (load_process_start_time os pid)" "inv_kept P (enumerate_current os)" for pid
    unfolding load_process_name_def load_cmdline_def load_process_start_time_def enumerate_current_def
    by (intro hoare_rules kept_steps)+
  have process: "inv_kept P (dispatch_process os pool pid st base)" for pid
    unfolding dispatch_process_def dispatch_threads_def by (intro hoare_rules kept_steps loads tids)
  have pids: "inv_kept P (dispatch_list os pool ps st base)" for ps
    by (induction ps) (auto intro!: hoare_rules kept_steps process)
  show ?thesis unfolding dispatch_pids_to_workers_def by (intro hoare_rules kept_steps pids)
qed

end

interpretation rescan: scanner_invariant sn_full_rescan_needed pool for pool
  by unfold_locales simp_all

subsection \<open>No thread is offered twice in a cycle\<close>

text \<open>
  What holds of the accepted tasks while a cycle runs: one task per thread, none of a
  thread that was processed before, all of them recorded as processed, each of a live thread of
  a process of the cycle, in the state the cycle dispatches.
\<close>

definition offered_once ::
  "int set \<Rightarrow> ProcessState \<Rightarrow> string \<Rightarrow> int set \<Rightarrow> int set \<Rightarrow> DispatchTask list \<Rightarrow> bool" where
  "offered_once pids st cpuset_base done processed log \<longleftrightarrow>
     distinct (map dt_tid log) \<and> set (map dt_tid log) \<inter> done = {} \<and>
     processed = done \<union> set (map dt_tid log) \<and> list_all (task_fits pids st cpuset_base) log"

interpretation once: dispatch_monitor "offered_once pids st base d" pids st base for pids st base d
  by unfold_locales (auto simp: offered_once_def)

definition cycle_inv ::
  "int set \<Rightarrow> ProcessState \<Rightarrow> string \<Rightarrow> int set \<Rightarrow> ('w, 'q \<times> DispatchTask list) scanner \<Rightarrow> bool" where
  "cycle_inv pids st cpuset_base done = monitored (offered_once pids st cpuset_base done)"

lemma dispatch_distinct:
  assumes "cycle_inv pids st base d s"
  shows "wp (dispatch_pids_to_workers os (recorded_pool p) pids st base) (\<lambda>stop. cycle_inv pids st base d) s"
  using assms unfolding cycle_inv_def by (rule once.dispatch_monitored)

subsection \<open>Nothing is missed on processes that do not change\<close>

text \<open>What \<open>/proc\<close> says of the processes while it does not change.\<close>

record proc_table =
  pt_name :: "int \<Rightarrow> string"
  pt_start :: "int \<Rightarrow> nat"
  pt_cmdline :: "int \<Rightarrow> string"
  pt_dir :: "int \<Rightarrow> dir_stream option"
  pt_thread_name :: "int \<Rightarrow> int \<Rightarrow> string"
  pt_thread_start :: "int \<Rightarrow> int \<Rightarrow> nat"

definition answers :: "('s, 'a) state \<Rightarrow> 'a \<Rightarrow> bool" where
  "answers m v \<longleftrightarrow> (\<forall>s. fst (run_state m s) = v)"

definition reads_table :: "'w os \<Rightarrow> proc_table \<Rightarrow> bool" where
  "reads_table os T \<longleftrightarrow> (\<forall>pid. answers (get_process_name_from_status os pid) (pt_name T pid) \<and>
     answers (get_process_start_time os pid) (pt_start T pid) \<and>
     answers (get_process_cmdline os pid) (pt_cmdline T pid) \<and>
     answers (os_opendir os (''/proc/'' @ to_string pid @ ''/task'')) (pt_dir T pid) \<and>
     (\<forall>tid. answers (get_thread_name os pid tid) (pt_thread_name T pid tid) \<and>
        answers (get_thread_start_time os pid tid) (pt_thread_start T pid tid)))"

definition table_tids :: "proc_table \<Rightarrow> int \<Rightarrow> int list" where
  "table_tids T pid = (case pt_dir T pid of None \<Rightarrow> []
     | Some d \<Rightarrow> finish_ids (ds_error d) (entry_ids (ds_entries d)))"

definition live_process :: "proc_table \<Rightarrow> int \<Rightarrow> bool" where
  "live_process T pid \<longleftrightarrow> pt_name T pid \<noteq> dead_name \<and> pt_start T pid \<noteq> 0"

definition table_threads :: "proc_table \<Rightarrow> int list \<Rightarrow> (int \<times> int) list" where
  "table_threads T pids =
     concat (map (\<lambda>pid. if live_process T pid then map (Pair pid) (table_tids T pid) else []) pids)"

definition thread_task :: "proc_table \<Rightarrow> ProcessState \<Rightarrow> string \<Rightarrow> int \<Rightarrow> int \<Rightarrow> DispatchTask option" where
  "thread_task T st cpuset_base pid tid =
     (if pt_thread_name T pid tid = dead_name \<or> pt_thread_start T pid tid = 0 then None
      else Some \<lparr>dt_pid = pid, dt_tid = tid, dt_process_start_time = pt_start T pid,
             dt_thread_start_time = pt_thread_start T pid tid,
             dt_thread_name = pt_thread_name T pid tid, dt_state = st, dt_cpuset_base = cpuset_base,
             dt_proc_name = pt_name T pid, dt_cmdline = pt_cmdline T pid\<rparr>)"

text \<open>The tasks of a list of threads: the live ones, each identifier once.\<close>

fun expected_tasks ::
  "proc_table \<Rightarrow> ProcessState \<Rightarrow> string \<Rightarrow> int set \<Rightarrow> (int \<times> int) list \<Rightarrow> DispatchTask list" where
  "expected_tasks T st base processed [] = []"
| "expected_tasks T st base processed ((pid, tid) # r) =
     (if tid \<in> processed then expected_tasks T st base processed r
      else case thread_task T st base pid tid of
        None \<Rightarrow> expected_tasks T st base processed r
      | Some t \<Rightarrow> t # expected_tasks T st base (insert tid processed) r)"

definition place_ok :: "proc_table \<Rightarrow> ScanCursor \<Rightarrow> bool" where
  "place_ok T c \<longleftrightarrow>
     (if cu_tid_enumeration_complete c
      then cu_tids c = table_tids T (cu_pid c) \<and> cu_tid_index c \<le> length (cu_tids c)
      else cu_tid_index c = 0 \<and>
        (case cu_task_dir c of None \<Rightarrow> cu_tids c = []
         | Some d' \<Rightarrow> \<exists>d. pt_dir T (cu_pid c) = Some d \<and> enumeration_of d c))"

lemma place_ok_data [simp]:
  "place_ok T (c\<lparr>cu_process_name := n, cu_process_name_loaded := b\<rparr>) = place_ok T c"
  "place_ok T (c\<lparr>cu_process_start_time := m, cu_process_start_time_loaded := b\<rparr>) = place_ok T c"
  "place_ok T (c\<lparr>cu_cmdline := l, cu_cmdline_loaded := b\<rparr>) = place_ok T c"
  by (simp_all add: place_ok_def enumeration_of_def cong: if_cong option.case_cong)

definition cursor_ok :: "proc_table \<Rightarrow> ScanCursor \<Rightarrow> bool" where
  "cursor_ok T c \<longleftrightarrow> place_ok T c \<and>
     (cu_process_name_loaded c \<longrightarrow> cu_process_name c = pt_name T (cu_pid c)) \<and>
     (cu_process_start_time_loaded c \<longrightarrow> cu_process_start_time c = pt_start T (cu_pid c)) \<and>
     (cu_cmdline_loaded c \<longrightarrow> cu_cmdline c = pt_cmdline T (cu_pid c))"

definition rest_of_process :: "proc_table \<Rightarrow> ScanCursor \<Rightarrow> (int \<times> int) list" where
  "rest_of_process T c = (if live_process T (cu_pid c)
     then map (Pair (cu_pid c)) (drop (cu_tid_index c) (table_tids T (cu_pid c))) else [])"

text \<open>What the walk has still to do of the processes \<open>ps\<close>, the first being the current one.\<close>

definition rest_of_walk :: "proc_table \<Rightarrow> ScanCursor \<Rightarrow> int list \<Rightarrow> (int \<times> int) list" where
  "rest_of_walk T c ps = (case ps of [] \<Rightarrow> []
     | p # ps' \<Rightarrow> (if cu_pid c = p then rest_of_process T c else table_threads T [p]) @ table_threads T ps')"

text \<open>
  The invariant: the tasks accepted so far and those still expected are together the list \<open>goal\<close>.
\<close>

definition walk_inv ::
  "proc_table \<Rightarrow> ProcessState \<Rightarrow> string \<Rightarrow> DispatchTask list \<Rightarrow> int list
     \<Rightarrow> ('w, 'q \<times> DispatchTask list) scanner \<Rightarrow> bool" where
  "walk_inv T st base goal ps s \<longleftrightarrow> cursor_ok T (sn_cursor s) \<and>
     snd (sn_workers s) @ expected_tasks T st base (sn_processed_tids s) (rest_of_walk T (sn_cursor s) ps) = goal"

lemma wp_answer:
  "answers m v \<Longrightarrow> (\<And>x. Q v (s\<lparr>sn_slice := x\<rparr>)) \<Longrightarrow> wp (on_slice (on_env m)) Q s"
  unfolding on_slice_def on_env_def
  by (intro wp_zoom) (simp add: wp_iff answers_def, metis fst_conv)

lemma wp_quiet:
  "(\<And>a x. Q a (s\<lparr>sn_slice := x\<rparr>)) \<Longrightarrow> wp (on_slice (exhausted os)) Q s"
  "(\<And>a x. R a (s\<lparr>sn_slice := x\<rparr>)) \<Longrightarrow> wp (on_slice (after_thread_read os)) R s"
  by (rule wp_on_slice, simp)+

lemma wp_reads:
  assumes "reads_table os T"
  shows "(\<And>x. Q (pt_name T pid) (s\<lparr>sn_slice := x\<rparr>)) \<Longrightarrow> wp (on_slice (on_env (get_process_name_from_status os pid))) Q s"
    and "(\<And>x. R (pt_start T pid) (s\<lparr>sn_slice := x\<rparr>)) \<Longrightarrow> wp (on_slice (on_env (get_process_start_time os pid))) R s"
    and "(\<And>x. Q (pt_cmdline T pid) (s\<lparr>sn_slice := x\<rparr>)) \<Longrightarrow> wp (on_slice (on_env (get_process_cmdline os pid))) Q s"
    and "(\<And>x. Q (pt_thread_name T pid tid) (s\<lparr>sn_slice := x\<rparr>)) \<Longrightarrow> wp (on_slice (on_env (get_thread_name os pid tid))) Q s"
    and "(\<And>x. R (pt_thread_start T pid tid) (s\<lparr>sn_slice := x\<rparr>)) \<Longrightarrow> wp (on_slice (on_env (get_thread_start_time os pid tid))) R s"
  using assms by (auto simp: reads_table_def intro: wp_answer)

definition ready :: "proc_table \<Rightarrow> int \<Rightarrow> ScanCursor \<Rightarrow> bool" where
  "ready T pid c \<longleftrightarrow> cursor_ok T c \<and> cu_pid c = pid \<and> cu_tid_enumeration_complete c \<and>
     cu_process_name_loaded c \<and> cu_process_start_time_loaded c \<and> cu_cmdline_loaded c \<and> live_process T pid"

lemma ready_index:
  "ready T pid c \<Longrightarrow> i \<le> length (cu_tids c) \<Longrightarrow> ready T pid (c\<lparr>cu_tid_index := i\<rparr>)"
  by (simp add: ready_def cursor_ok_def place_ok_def)

lemma rest_of_walk_step:
  assumes "ready T pid c" "cu_tid_index c < length (cu_tids c)"
  shows "rest_of_walk T c (pid # ps) =
    (pid, cu_tids c ! cu_tid_index c) # rest_of_walk T (c\<lparr>cu_tid_index := Suc (cu_tid_index c)\<rparr>) (pid # ps)"
proof -
  have tids: "cu_tids c = table_tids T pid" "cu_pid c = pid" "live_process T pid"
    using assms(1) by (auto simp: ready_def cursor_ok_def place_ok_def)
  with assms(2) have "drop (cu_tid_index c) (table_tids T pid) =
      cu_tids c ! cu_tid_index c # drop (Suc (cu_tid_index c)) (table_tids T pid)"
    by (simp add: Cons_nth_drop_Suc)
  with tids show ?thesis by (simp add: rest_of_walk_def rest_of_process_def)
qed

lemma walk_tid:
  assumes table: "reads_table os T"
    and inv: "walk_inv T st base goal (pid # ps) s" and ready: "ready T pid (sn_cursor s)"
    and less: "cu_tid_index (sn_cursor s) < length (cu_tids (sn_cursor s))"
  shows "wp (dispatch_tid os (recorded_pool p) pid st base)
    (\<lambda>stop s'. walk_inv T st base goal (pid # ps) s' \<and> ready T pid (sn_cursor s') \<and>
       cu_tids (sn_cursor s') = cu_tids (sn_cursor s) \<and>
       cu_tid_index (sn_cursor s') = (if stop then cu_tid_index (sn_cursor s) else Suc (cu_tid_index (sn_cursor s)))) s"
proof -
  define c where "c = sn_cursor s"
  define c1 where "c1 = c\<lparr>cu_tid_index := Suc (cu_tid_index c)\<rparr>"
  define tid where "tid = cu_tids c ! cu_tid_index c"
  define rest where "rest = rest_of_walk T c1 (pid # ps)"
  have data: "cu_process_start_time c = pt_start T pid" "cu_process_name c = pt_name T pid"
    "cu_cmdline c = pt_cmdline T pid" "cursor_ok T c"
    using ready by (auto simp: ready_def cursor_ok_def place_ok_def c_def)
  have ready1: "ready T pid c1" using ready_index [OF ready, of "Suc (cu_tid_index c)"] less by (simp add: c1_def c_def)
  then have ok1: "cursor_ok T c1" by (simp add: ready_def)
  have total: "snd (sn_workers s) @ expected_tasks T st base (sn_processed_tids s) ((pid, tid) # rest) = goal"
    using inv rest_of_walk_step [OF ready less, of ps] by (simp add: walk_inv_def rest_def c1_def tid_def c_def)
  have undo: "c\<lparr>cu_tid_index := cu_tid_index c\<rparr> = c" by simp
  show ?thesis
    unfolding dispatch_tid_def
    using inv ready total data ready1 ok1
    by (intro wp_rules wp_quiet wp_reads [OF table] wp_offer_recorded)
      (simp_all add: walk_inv_def c_def [symmetric] tid_def [symmetric] rest_def c1_def undo
        thread_task_def not_accepted_iff accepted_def)
qed

lemma walk_tids:
  assumes table: "reads_table os T"
    and "walk_inv T st base goal (pid # ps) s" "ready T pid (sn_cursor s)"
    and "cu_tid_index (sn_cursor s) + n = length (cu_tids (sn_cursor s))"
  shows "wp (dispatch_tids os (recorded_pool p) pid st base n)
    (\<lambda>stop s'. walk_inv T st base goal (pid # ps) s' \<and> ready T pid (sn_cursor s') \<and>
       (\<not> stop \<longrightarrow> cu_tid_index (sn_cursor s') = length (cu_tids (sn_cursor s')))) s"
  using assms(2-)
proof (induction n arbitrary: s)
  case 0
  then show ?case by (simp add: wp_def)
next
  case (Suc n)
  have less: "cu_tid_index (sn_cursor s) < length (cu_tids (sn_cursor s))" using Suc.prems(3) by simp
  show ?case
    unfolding dispatch_tids.simps
    by (rule wp_bind, rule wp_conseq [OF walk_tid [OF table Suc.prems(1,2) less]])
      (use Suc.prems(3) in \<open>auto intro!: wp_rules Suc.IH\<close>)
qed

text \<open>What a cursor knows of its process, apart from the place in the walk.\<close>

definition process_data :: "ScanCursor \<Rightarrow> bool \<times> string \<times> bool \<times> nat \<times> bool \<times> string" where
  "process_data c = (cu_process_name_loaded c, cu_process_name c, cu_process_start_time_loaded c,
     cu_process_start_time c, cu_cmdline_loaded c, cu_cmdline c)"

lemma read_tasks_data:
  assumes "run_state (read_tasks os d c) s = ((b, c'), s')"
  shows "process_data c' = process_data c" "cu_tid_index c' = 0 \<or> cu_tid_index c' = cu_tid_index c"
  using assms by (auto simp: read_tasks_def process_data_def split: prod.splits if_splits)

lemma cursor_okI:
  assumes "enumeration_of d c" "pt_dir T (cu_pid c) = Some d" "cu_tid_index c = 0"
    and "cu_process_name_loaded c \<Longrightarrow> cu_process_name c = pt_name T (cu_pid c)"
    and "cu_process_start_time_loaded c \<Longrightarrow> cu_process_start_time c = pt_start T (cu_pid c)"
    and "cu_cmdline_loaded c \<Longrightarrow> cu_cmdline c = pt_cmdline T (cu_pid c)"
  shows "cursor_ok T c"
  using assms
  by (auto simp: cursor_ok_def place_ok_def enumeration_of_def table_tids_def split: option.split)

lemma read_tasks_table:
  assumes "cursor_ok T c" "0 < cu_pid c" "\<not> cu_tid_enumeration_complete c"
    and "pt_dir T (cu_pid c) = Some d" "ds_error d' = ds_error d"
    and "cu_tids c @ entry_ids (ds_entries d') = entry_ids (ds_entries d)"
    and "run_state (read_tasks os d' c) s = ((b, c'), s')"
  shows "cursor_ok T c' \<and> cu_pid c' = cu_pid c \<and> cu_tid_index c' = cu_tid_index c \<and>
    b = cu_tid_enumeration_complete c' \<and> process_data c' = process_data c"
proof -
  note run = read_tasks_run [OF assms(7,5,6,2,3)]
  note data = read_tasks_data [OF assms(7)]
  have index: "cu_tid_index c = 0" using assms(1,3) by (simp add: cursor_ok_def place_ok_def)
  have "cursor_ok T c'"
  proof (rule cursor_okI [OF run(1)])
    show "pt_dir T (cu_pid c') = Some d" using assms(4) run(3) by simp
    show "cu_tid_index c' = 0" using data(2) index by simp
  qed (use assms(1) data(1) run(3) in \<open>auto simp: cursor_ok_def place_ok_def process_data_def\<close>)
  with run data index show ?thesis by auto
qed

lemma enumerate_table:
  assumes table: "reads_table os T" and ok: "cursor_ok T c" "0 < cu_pid c"
    and run: "run_state (enumerate_tids os c) s = ((b, c'), s')"
  shows "cursor_ok T c' \<and> cu_pid c' = cu_pid c \<and> cu_tid_index c' = cu_tid_index c \<and>
    b = cu_tid_enumeration_complete c' \<and> process_data c' = process_data c"
proof (cases "cu_tid_enumeration_complete c")
  case True
  with run ok show ?thesis by (simp add: enumerate_tids_def)
next
  case incomplete: False
  show ?thesis
  proof (cases "cu_task_dir c")
    case (Some d')
    with ok incomplete obtain d where d: "pt_dir T (cu_pid c) = Some d" "enumeration_of d c"
      by (auto simp: cursor_ok_def place_ok_def)
    then have "ds_error d' = ds_error d" "cu_tids c @ entry_ids (ds_entries d') = entry_ids (ds_entries d)"
      using incomplete Some by (auto simp: enumeration_of_def)
    from read_tasks_table [OF ok incomplete d(1) this] run incomplete Some ok(2) show ?thesis
      by (simp add: enumerate_tids_def)
  next
    case None
    have index: "cu_tid_index c = 0" "cu_tids c = []" using ok incomplete None by (simp_all add: cursor_ok_def place_ok_def)
    obtain w where opened: "run_state (on_env (sys (os_opendir os (''/proc/'' @ to_string (cu_pid c) @ ''/task'')))) s =
        (pt_dir T (cu_pid c), w)"
    proof -
      let ?m = "os_opendir os (''/proc/'' @ to_string (cu_pid c) @ ''/task'')"
      obtain r v where m: "run_state ?m (world (sl_env s)) = (r, v)" by (metis surj_pair)
      have "answers ?m (pt_dir T (cu_pid c))" using table by (simp add: reads_table_def)
      from spec [OF this [unfolded answers_def], of "world (sl_env s)"] m have "r = pt_dir T (cu_pid c)" by simp
      with m that show ?thesis by (simp add: on_env_def)
    qed
    show ?thesis
    proof (cases "pt_dir T (cu_pid c)")
      case no_dir: None
      with run incomplete None ok opened have "c' = c\<lparr>cu_tid_enumeration_complete := True\<rparr>" "b"
        by (simp_all add: enumerate_tids_def open_tasks_def)
      with ok incomplete None no_dir index show ?thesis
        by (simp add: cursor_ok_def place_ok_def table_tids_def process_data_def)
    next
      case (Some d)
      let ?c = "c\<lparr>cu_task_dir := Some d, cu_tids := []\<rparr>"
      have run1: "run_state (read_tasks os d ?c) w = ((b, c'), s')"
        using run incomplete None ok opened Some by (simp add: enumerate_tids_def open_tasks_def)
      have "cursor_ok T ?c"
        using ok incomplete Some index by (auto simp: cursor_ok_def place_ok_def enumeration_of_def)
      from read_tasks_table [OF this _ _ _ refl _ run1] ok incomplete Some index show ?thesis
        by (simp add: process_data_def)
    qed
  qed
qed

text \<open>A cursor step that keeps the place of the walk keeps the invariant.\<close>

definition same_place :: "('w, 'q) scanner \<Rightarrow> ('w, 'q) scanner \<Rightarrow> bool" where
  "same_place s s' \<longleftrightarrow> sn_workers s' = sn_workers s \<and> sn_processed_tids s' = sn_processed_tids s \<and>
     cu_pid (sn_cursor s') = cu_pid (sn_cursor s) \<and> cu_tid_index (sn_cursor s') = cu_tid_index (sn_cursor s)"

lemma same_place_inv:
  assumes "walk_inv T st base goal ps s" "same_place s s'" "cursor_ok T (sn_cursor s')"
  shows "walk_inv T st base goal ps s'"
proof -
  have "rest_of_walk T (sn_cursor s') ps = rest_of_walk T (sn_cursor s) ps"
    using assms(2) by (cases ps) (simp_all add: same_place_def rest_of_walk_def rest_of_process_def)
  with assms show ?thesis by (simp add: walk_inv_def same_place_def)
qed

lemma walk_enumerate:
  assumes "reads_table os T" "cursor_ok T (sn_cursor s)" "0 < cu_pid (sn_cursor s)"
  shows "wp (enumerate_current os) (\<lambda>b s'. same_place s s' \<and> cursor_ok T (sn_cursor s') \<and>
    b = cu_tid_enumeration_complete (sn_cursor s') \<and> process_data (sn_cursor s') = process_data (sn_cursor s)) s"
proof -
  obtain b c' x where run: "run_state (enumerate_tids os (sn_cursor s)) (sn_slice s) = ((b, c'), x)"
    by (metis surj_pair)
  from enumerate_table [OF assms run] run show ?thesis
    by (simp add: enumerate_current_def wp_def on_slice_def set_cursor_def same_place_def)
qed

lemma walk_inv_slice [simp]: "walk_inv T st base goal ps (s\<lparr>sn_slice := x\<rparr>) = walk_inv T st base goal ps s"
  by (simp add: walk_inv_def)

lemma walk_inv_cursor_ok: "walk_inv T st base goal ps s \<Longrightarrow> cursor_ok T (sn_cursor s)"
  by (simp add: walk_inv_def)

text \<open>
  The sub-operations as rules: each keeps the invariant and what the earlier ones loaded.
\<close>

lemma wp_walk_loads:
  assumes table: "reads_table os T" and inv: "walk_inv T st base goal ps s" "cu_pid (sn_cursor s) = pid"
  shows "(\<And>s'. walk_inv T st base goal ps s' \<Longrightarrow> cu_pid (sn_cursor s') = pid \<Longrightarrow>
        cu_tid_enumeration_complete (sn_cursor s') = cu_tid_enumeration_complete (sn_cursor s) \<Longrightarrow>
        cu_process_name_loaded (sn_cursor s') \<Longrightarrow> Q () s') \<Longrightarrow>
      wp (load_process_name os pid) Q s"
    and "(\<And>s'. walk_inv T st base goal ps s' \<Longrightarrow> cu_pid (sn_cursor s') = pid \<Longrightarrow>
        cu_tid_enumeration_complete (sn_cursor s') = cu_tid_enumeration_complete (sn_cursor s) \<Longrightarrow>
        cu_process_name_loaded (sn_cursor s') = cu_process_name_loaded (sn_cursor s) \<Longrightarrow>
        cu_process_start_time_loaded (sn_cursor s') \<Longrightarrow> Q () s') \<Longrightarrow>
      wp (load_process_start_time os pid) Q s"
    and "(\<And>s'. walk_inv T st base goal ps s' \<Longrightarrow> cu_pid (sn_cursor s') = pid \<Longrightarrow>
        cu_tid_enumeration_complete (sn_cursor s') = cu_tid_enumeration_complete (sn_cursor s) \<Longrightarrow>
        cu_process_name_loaded (sn_cursor s') = cu_process_name_loaded (sn_cursor s) \<Longrightarrow>
        cu_process_start_time_loaded (sn_cursor s') = cu_process_start_time_loaded (sn_cursor s) \<Longrightarrow>
        cu_cmdline_loaded (sn_cursor s') \<Longrightarrow> Q () s') \<Longrightarrow>
      wp (load_cmdline os pid) Q s"
proof -
  have load: "wp (load_process_name os pid) (\<lambda>_ s'. same_place s s' \<and> cursor_ok T (sn_cursor s') \<and>
      cu_tid_enumeration_complete (sn_cursor s') = cu_tid_enumeration_complete (sn_cursor s) \<and>
      cu_process_name_loaded (sn_cursor s')) s"
    "wp (load_process_start_time os pid) (\<lambda>_ s'. same_place s s' \<and> cursor_ok T (sn_cursor s') \<and>
      cu_tid_enumeration_complete (sn_cursor s') = cu_tid_enumeration_complete (sn_cursor s) \<and>
      cu_process_name_loaded (sn_cursor s') = cu_process_name_loaded (sn_cursor s) \<and>
      cu_process_start_time_loaded (sn_cursor s')) s"
    "wp (load_cmdline os pid) (\<lambda>_ s'. same_place s s' \<and> cursor_ok T (sn_cursor s') \<and>
      cu_tid_enumeration_complete (sn_cursor s') = cu_tid_enumeration_complete (sn_cursor s) \<and>
      cu_process_name_loaded (sn_cursor s') = cu_process_name_loaded (sn_cursor s) \<and>
      cu_process_start_time_loaded (sn_cursor s') = cu_process_start_time_loaded (sn_cursor s) \<and>
      cu_cmdline_loaded (sn_cursor s')) s"
    unfolding load_process_name_def load_process_start_time_def load_cmdline_def
    using walk_inv_cursor_ok [OF inv(1)] inv(2)
    by (intro wp_rules wp_quiet wp_reads [OF table]; simp add: same_place_def cursor_ok_def)+
  show "wp (load_process_name os pid) Q s"
    if "\<And>s'. walk_inv T st base goal ps s' \<Longrightarrow> cu_pid (sn_cursor s') = pid \<Longrightarrow>
        cu_tid_enumeration_complete (sn_cursor s') = cu_tid_enumeration_complete (sn_cursor s) \<Longrightarrow>
        cu_process_name_loaded (sn_cursor s') \<Longrightarrow> Q () s'"
    using that same_place_inv [OF inv(1)] inv(2) by (intro wp_conseq [OF load(1)]) (auto simp: same_place_def)
  show "wp (load_process_start_time os pid) Q s"
    if "\<And>s'. walk_inv T st base goal ps s' \<Longrightarrow> cu_pid (sn_cursor s') = pid \<Longrightarrow>
        cu_tid_enumeration_complete (sn_cursor s') = cu_tid_enumeration_complete (sn_cursor s) \<Longrightarrow>
        cu_process_name_loaded (sn_cursor s') = cu_process_name_loaded (sn_cursor s) \<Longrightarrow>
        cu_process_start_time_loaded (sn_cursor s') \<Longrightarrow> Q () s'"
    using that same_place_inv [OF inv(1)] inv(2) by (intro wp_conseq [OF load(2)]) (auto simp: same_place_def)
  show "wp (load_cmdline os pid) Q s"
    if "\<And>s'. walk_inv T st base goal ps s' \<Longrightarrow> cu_pid (sn_cursor s') = pid \<Longrightarrow>
        cu_tid_enumeration_complete (sn_cursor s') = cu_tid_enumeration_complete (sn_cursor s) \<Longrightarrow>
        cu_process_name_loaded (sn_cursor s') = cu_process_name_loaded (sn_cursor s) \<Longrightarrow>
        cu_process_start_time_loaded (sn_cursor s') = cu_process_start_time_loaded (sn_cursor s) \<Longrightarrow>
        cu_cmdline_loaded (sn_cursor s') \<Longrightarrow> Q () s'"
    using that same_place_inv [OF inv(1)] inv(2) by (intro wp_conseq [OF load(3)]) (auto simp: same_place_def)
qed

definition process_post ::
  "proc_table \<Rightarrow> ProcessState \<Rightarrow> string \<Rightarrow> DispatchTask list \<Rightarrow> int \<Rightarrow> int list \<Rightarrow> bool
     \<Rightarrow> ('w, 'q \<times> DispatchTask list) scanner \<Rightarrow> bool" where
  "process_post T st base goal pid ps stop s \<longleftrightarrow> walk_inv T st base goal (pid # ps) s \<and>
     cu_pid (sn_cursor s) = pid \<and> (\<not> stop \<longrightarrow> rest_of_process T (sn_cursor s) = [])"

lemma wp_walk_tids:
  assumes "reads_table os T" "walk_inv T st base goal (pid # ps) s" "ready T pid (sn_cursor s)"
  shows "wp (dispatch_tids os (recorded_pool p) pid st base
      (length (cu_tids (sn_cursor s)) - cu_tid_index (sn_cursor s))) (process_post T st base goal pid ps) s"
proof (rule wp_conseq [OF walk_tids [OF assms]])
  show "cu_tid_index (sn_cursor s) + (length (cu_tids (sn_cursor s)) - cu_tid_index (sn_cursor s)) =
      length (cu_tids (sn_cursor s))"
    using assms(3) by (auto simp: ready_def cursor_ok_def place_ok_def)
qed (auto simp: process_post_def ready_def rest_of_process_def cursor_ok_def place_ok_def)

lemma loaded_data:
  assumes "walk_inv T st base goal ps s"
  shows "cu_process_name_loaded (sn_cursor s) \<Longrightarrow> cu_process_name (sn_cursor s) = pt_name T (cu_pid (sn_cursor s))"
    and "cu_process_start_time_loaded (sn_cursor s) \<Longrightarrow>
      cu_process_start_time (sn_cursor s) = pt_start T (cu_pid (sn_cursor s))"
  using walk_inv_cursor_ok [OF assms] by (simp_all add: cursor_ok_def)

lemma walk_threads:
  assumes table: "reads_table os T" and "walk_inv T st base goal (pid # ps) s"
    and "cu_pid (sn_cursor s) = pid" "cu_tid_enumeration_complete (sn_cursor s)"
    and "cu_process_name_loaded (sn_cursor s)" "pt_name T pid \<noteq> dead_name"
  shows "wp (dispatch_threads os (recorded_pool p) pid st base) (process_post T st base goal pid ps) s"
  unfolding dispatch_threads_def
  using assms
  by (intro wp_rules wp_quiet wp_walk_tids [OF table]
      wp_walk_loads [OF table, where st = st and base = base and goal = goal and ps = "pid # ps"])
    (simp_all add: process_post_def,
     auto simp: rest_of_process_def live_process_def ready_def walk_inv_cursor_ok loaded_data)

lemma wp_walk_enumerate:
  assumes "reads_table os T" "walk_inv T st base goal ps s" "cu_pid (sn_cursor s) = pid" "0 < pid"
    and "\<And>s'. walk_inv T st base goal ps s' \<Longrightarrow> cu_pid (sn_cursor s') = pid \<Longrightarrow>
      Q (cu_tid_enumeration_complete (sn_cursor s')) s'"
  shows "wp (enumerate_current os) Q s"
  using walk_enumerate [OF assms(1) walk_inv_cursor_ok [OF assms(2)]] assms(3-) same_place_inv [OF assms(2)]
  by (auto elim!: wp_conseq simp: same_place_def)

lemma begin_pid_fresh [simp]:
  "cu_pid (begin_pid pid) = pid" "cursor_ok T (begin_pid pid)"
  "rest_of_process T (begin_pid pid) = table_threads T [pid]"
  by (simp_all add: begin_pid_def reset_cursor_def cursor_ok_def place_ok_def rest_of_process_def
      table_threads_def)

lemma walk_inv_begin:
  assumes "walk_inv T st base goal (pid # ps) s" "cu_pid (sn_cursor s) \<noteq> pid"
  shows "walk_inv T st base goal (pid # ps) (s\<lparr>sn_cursor := begin_pid pid\<rparr>)"
proof -
  have "rest_of_walk T (begin_pid pid) (pid # ps) = rest_of_walk T (sn_cursor s) (pid # ps)"
    using assms(2) by (simp add: rest_of_walk_def)
  with assms(1) show ?thesis by (simp add: walk_inv_def)
qed

lemma walk_process:
  assumes table: "reads_table os T" and "walk_inv T st base goal (pid # ps) s" "0 < pid"
  shows "wp (dispatch_process os (recorded_pool p) pid st base) (process_post T st base goal pid ps) s"
  unfolding dispatch_process_def
  using assms
  by (intro wp_rules wp_quiet walk_threads [OF table]
      wp_walk_enumerate [OF table, where st = st and base = base and goal = goal and ps = "pid # ps" and pid = pid]
      wp_walk_loads [OF table, where st = st and base = base and goal = goal and ps = "pid # ps"])
    (simp_all add: process_post_def walk_inv_begin,
     auto simp: rest_of_process_def live_process_def loaded_data)

lemma reset_fresh [simp]: "cu_pid reset_cursor = 0" "cursor_ok T reset_cursor"
  by (simp_all add: reset_cursor_def cursor_ok_def place_ok_def)

lemma rest_of_walk_away: "cu_pid c \<noteq> p \<Longrightarrow> rest_of_walk T c (p # ps) = table_threads T (p # ps)"
  by (simp add: rest_of_walk_def table_threads_def)

lemma process_done:
  assumes "process_post T st base goal pid ps False s" "list_all (\<lambda>p. 0 < p) ps"
  shows "walk_inv T st base goal ps (s\<lparr>sn_cursor := reset_cursor\<rparr>)"
proof -
  have "rest_of_walk T (sn_cursor s) (pid # ps) = table_threads T ps"
    using assms(1) by (simp add: process_post_def rest_of_walk_def)
  moreover have "rest_of_walk T reset_cursor ps = table_threads T ps"
    using assms(2) by (cases ps) (simp_all add: rest_of_walk_away, simp add: rest_of_walk_def table_threads_def)
  ultimately show ?thesis using assms(1) by (simp add: process_post_def walk_inv_def)
qed

text \<open>
  The walk either ends with everything accepted, or stops inside a process of the list.
\<close>

definition walk_post ::
  "proc_table \<Rightarrow> ProcessState \<Rightarrow> string \<Rightarrow> DispatchTask list \<Rightarrow> int list \<Rightarrow> bool
     \<Rightarrow> ('w, 'q \<times> DispatchTask list) scanner \<Rightarrow> bool" where
  "walk_post T st base goal ps stop s \<longleftrightarrow>
     (if stop then \<exists>pid ps'. suffix (pid # ps') ps \<and> walk_inv T st base goal (pid # ps') s \<and>
                    cu_pid (sn_cursor s) = pid
      else snd (sn_workers s) = goal)"

lemma walk_list:
  assumes table: "reads_table os T" and "walk_inv T st base goal ps s" "list_all (\<lambda>p. 0 < p) ps"
  shows "wp (dispatch_list os (recorded_pool p) ps st base) (walk_post T st base goal ps) s"
  using assms(2,3)
proof (induction ps arbitrary: s)
  case Nil
  then show ?case by (simp add: wp_def walk_post_def walk_inv_def rest_of_walk_def)
next
  case (Cons pid ps)
  from Cons.prems have pos: "0 < pid" "list_all (\<lambda>p. 0 < p) ps" by simp_all
  have longer: "walk_post T st base goal (pid # ps) stop s'" if "walk_post T st base goal ps stop s'" for stop s'
    using that by (auto simp: walk_post_def suffix_Cons split: if_splits)
  show ?case
    unfolding dispatch_list.simps
  proof (rule wp_bind, rule wp_conseq [OF walk_process [OF table Cons.prems(1) pos(1)]], intro wp_rules)
    fix stop and s' :: "('a, 'b \<times> DispatchTask list) scanner"
    assume post: "process_post T st base goal pid ps stop s'"
    show "walk_post T st base goal (pid # ps) True s'" if "stop"
      using post that by (auto simp: process_post_def walk_post_def)
    have "walk_inv T st base goal ps (s'\<lparr>sn_cursor := reset_cursor\<rparr>)" if "\<not> stop"
      using process_done [OF _ pos(2)] post that by simp
    from wp_conseq [OF Cons.IH [OF this pos(2)] longer]
    show "wp (dispatch_list os (recorded_pool p) ps st base) (walk_post T st base goal (pid # ps))
        (s'\<lparr>sn_cursor := reset_cursor\<rparr>)" if "\<not> stop"
      using that .
  qed
qed

lemma resume_sorted: "sorted (resume_at pid pids)" "distinct (resume_at pid pids)"
  by (auto simp: resume_at_def sorted_dropWhile intro: distinct_dropWhile)

lemma resume_suffix:
  assumes "suffix (pid # ps) (sorted_list_of_set pids)" "0 < pid"
  shows "resume_at pid pids = pid # ps"
proof -
  from assms(1) obtain xs where xs: "sorted_list_of_set pids = xs @ pid # ps" by (auto simp: suffix_def)
  have "sorted (xs @ pid # ps)" "distinct (xs @ pid # ps)"
    using sorted_sorted_list_of_set [of pids] distinct_sorted_list_of_set [of pids] by (simp_all only: xs)
  then have "\<forall>x \<in> set xs. x < pid" by (auto simp: sorted_append order_less_le)
  then have "dropWhile (\<lambda>p. p < pid) (xs @ pid # ps) = pid # ps"
    by (simp add: dropWhile_append2)
  with assms(2) xs show ?thesis by (simp add: resume_at_def)
qed

text \<open>
  Where the walk over \<open>pids\<close> stands between two calls: at its start, or at the process the last
  call stopped in.
\<close>

definition between_calls ::
  "proc_table \<Rightarrow> ProcessState \<Rightarrow> string \<Rightarrow> DispatchTask list \<Rightarrow> int set
     \<Rightarrow> ('w, 'q \<times> DispatchTask list) scanner \<Rightarrow> bool" where
  "between_calls T st base goal pids s \<longleftrightarrow>
     (if cu_pid (sn_cursor s) = 0 then walk_inv T st base goal (sorted_list_of_set pids) s
      else 0 < cu_pid (sn_cursor s) \<and> (\<exists>ps. suffix (cu_pid (sn_cursor s) # ps) (sorted_list_of_set pids) \<and>
             walk_inv T st base goal (cu_pid (sn_cursor s) # ps) s))"

lemma walk_pids:
  assumes table: "reads_table os T" and inv: "between_calls T st base goal pids s"
    and pids: "finite pids" "\<forall>p \<in> pids. 0 < p" and pool: "pl_size p \<noteq> 0"
  shows "wp (dispatch_pids_to_workers os (recorded_pool p) pids st base)
    (\<lambda>stop s'. if stop then between_calls T st base goal pids s' else snd (sn_workers s') = goal) s"
proof -
  define todo where "todo = resume_at (cu_pid (sn_cursor s)) pids"
  have todo: "walk_inv T st base goal todo s" "suffix todo (sorted_list_of_set pids)"
    "todo \<noteq> [] \<Longrightarrow> 0 < cu_pid (sn_cursor s) \<Longrightarrow> hd todo = cu_pid (sn_cursor s)"
    using inv resume_suffix [of "cu_pid (sn_cursor s)" _ pids]
    by (auto simp: between_calls_def todo_def resume_at_def split: if_splits)
  have size: "pl_size (recorded_pool p) \<noteq> 0" using pool by (simp add: recorded_pool_def)
  have pos: "list_all (\<lambda>p. 0 < p) todo"
    using pids set_mono_suffix [OF todo(2)] by (auto simp: list_all_iff)
  show ?thesis
  proof (cases "todo = []")
    case True
    with todo(1) have "snd (sn_workers s) = goal" by (simp add: walk_inv_def rest_of_walk_def)
    with True size show ?thesis
      unfolding dispatch_pids_to_workers_def todo_def
      by (intro wp_rules) simp_all
  next
    case False
    have "wp (dispatch_list os (recorded_pool p) todo st base)
        (\<lambda>stop s'. if stop then between_calls T st base goal pids s' else snd (sn_workers s') = goal) s"
    proof (rule wp_conseq [OF walk_list [OF table todo(1) pos]])
      fix stop and s' :: "('a, 'b \<times> DispatchTask list) scanner"
      assume "walk_post T st base goal todo stop s'"
      moreover have "suffix qs (sorted_list_of_set pids)" if "suffix qs todo" for qs
        using that todo(2) by (rule suffix_order.trans)
      moreover have inside: "0 < q" if "suffix (q # qs) todo" for q qs
        using set_mono_suffix [OF that] pos by (auto simp: list_all_iff)
      ultimately show "if stop then between_calls T st base goal pids s' else snd (sn_workers s') = goal"
        using inside by (fastforce simp: walk_post_def between_calls_def split: if_splits)
    qed
    with False size todo(3) pids(1) show ?thesis
      unfolding dispatch_pids_to_workers_def todo_def
      by (intro wp_rules) (auto simp: resume_at_def)
  qed
qed

text \<open>Successive calls, each with the budget of its own slice, until one completes the walk.\<close>

fun dispatch_calls ::
  "'w os \<Rightarrow> 'q pool \<Rightarrow> int set \<Rightarrow> ProcessState \<Rightarrow> string \<Rightarrow> ScanBudget list \<Rightarrow> (('w, 'q) scanner, bool) state" where
  "dispatch_calls os pool pids st base [] = State_Monad.return True"
| "dispatch_calls os pool pids st base (b # bs) = do {
     modify (\<lambda>s. s\<lparr>sn_slice := (sn_slice s)\<lparr>sl_budget := b\<rparr>\<rparr>);
     incomplete \<leftarrow> dispatch_pids_to_workers os pool pids st base;
     if incomplete then dispatch_calls os pool pids st base bs else State_Monad.return False }"

lemma between_calls_slice [simp]:
  "between_calls T st base goal pids (s\<lparr>sn_slice := x\<rparr>) = between_calls T st base goal pids s"
  by (simp add: between_calls_def)

lemma walk_calls:
  assumes table: "reads_table os T" and "between_calls T st base goal pids s"
    and pids: "finite pids" "\<forall>p \<in> pids. 0 < p" and pool: "pl_size p \<noteq> 0"
  shows "wp (dispatch_calls os (recorded_pool p) pids st base bs)
    (\<lambda>incomplete s'. \<not> incomplete \<longrightarrow> snd (sn_workers s') = goal) s"
  using assms(2)
proof (induction bs arbitrary: s)
  case Nil
  then show ?case by (simp add: wp_def)
next
  case (Cons b bs)
  have "between_calls T st base goal pids (s\<lparr>sn_slice := (sn_slice s)\<lparr>sl_budget := b\<rparr>\<rparr>)"
    using Cons.prems by simp
  from walk_pids [OF table this pids pool] show ?case
    unfolding dispatch_calls.simps
    by (intro wp_rules, elim wp_conseq, intro wp_rules) (auto intro: Cons.IH)
qed

lemma dispatch_calls_complete:
  assumes "reads_table os T" "finite pids" "\<forall>p \<in> pids. 0 < p" "pl_size p \<noteq> 0"
    and "run_state (dispatch_calls os (recorded_pool p) pids st base bs)
      \<lparr>sn_slice = x, sn_workers = (q, []), sn_cursor = reset_cursor, sn_processed_tids = processed,
       sn_full_rescan_needed = r\<rparr> = (False, s')"
  shows "snd (sn_workers s') =
    expected_tasks T st base processed (table_threads T (sorted_list_of_set pids))"
proof -
  let ?goal = "expected_tasks T st base processed (table_threads T (sorted_list_of_set pids))"
  let ?s = "\<lparr>sn_slice = x, sn_workers = (q, []), sn_cursor = reset_cursor, sn_processed_tids = processed,
       sn_full_rescan_needed = r\<rparr>"
  have "rest_of_walk T reset_cursor (sorted_list_of_set pids) = table_threads T (sorted_list_of_set pids)"
    using assms(2,3) by (cases "sorted_list_of_set pids")
      (auto simp: rest_of_walk_def table_threads_def reset_cursor_def dest!: arg_cong [where f = set])
  then have "between_calls T st base ?goal pids ?s"
    by (simp add: between_calls_def walk_inv_def)
  from wp_run [OF walk_calls [OF assms(1) this assms(2-4)] assms(5)] show ?thesis by simp
qed

text \<open>A kernel whose files and directories do not change has such a table.\<close>

definition file_text :: "(string \<Rightarrow> string option) \<Rightarrow> string \<Rightarrow> string" where
  "file_text file path = (case file path of None \<Rightarrow> [] | Some raw \<Rightarrow> strip_trailing NL raw)"

definition table_of :: "(string \<Rightarrow> string option) \<Rightarrow> (string \<Rightarrow> dir_stream option) \<Rightarrow> proc_table" where
  "table_of file dir = \<lparr>
     pt_name = (\<lambda>pid. parse_process_name_from_status (file_text file (''/proc/'' @ to_string pid @ ''/status''))),
     pt_start = (\<lambda>pid. if \<not> is_valid_pid pid then 0
        else parse_start_time_from_stat (file_text file (''/proc/'' @ to_string pid @ ''/stat''))),
     pt_cmdline = (\<lambda>pid. if file_text file (''/proc/'' @ to_string pid @ ''/cmdline'') \<noteq> []
        then takeWhile (\<lambda>c. c \<noteq> NUL) (file_text file (''/proc/'' @ to_string pid @ ''/cmdline''))
        else file_text file (''/proc/'' @ to_string pid @ ''/cmdline'')),
     pt_dir = (\<lambda>pid. dir (''/proc/'' @ to_string pid @ ''/task'')),
     pt_thread_name = (\<lambda>pid tid. if file_text file (task_path pid tid ''comm'') = [] then dead_name
        else file_text file (task_path pid tid ''comm'')),
     pt_thread_start = (\<lambda>pid tid. if \<not> is_valid_pid pid \<or> \<not> is_valid_tid tid then 0
        else parse_start_time_from_stat (file_text file (task_path pid tid ''stat'')))\<rparr>"

lemma answers_bind: "answers m v \<Longrightarrow> answers (State_Monad.bind m (\<lambda>x. State_Monad.return (f x))) (f v)"
  by (simp add: answers_def split: prod.splits) (metis fst_conv)

lemma answers_read:
  assumes "\<And>p. answers (os_read_all os p) (file p)" "is_dynamic_kernel_path path"
  shows "answers (read_file os path) (file_text file path)"
  unfolding answers_def
proof
  fix e :: "'a env"
  obtain t w where "run_state (os_now os) (world e) = (t, w)" by (metis surj_pair)
  moreover obtain d w' where read: "run_state (os_read_all os path) w = (d, w')" by (metis surj_pair)
  moreover have "d = file path" using assms(1) [of path] read by (auto simp: answers_def dest: spec [of _ w])
  ultimately show "fst (run_state (read_file os path) e) = file_text file path"
    by (simp add: read_file_dynamic [OF assms(2)] file_text_def)
qed

lemma reads_table_of:
  assumes "\<And>p. answers (os_read_all os p) (file p)" "\<And>p. answers (os_opendir os p) (dir p)"
  shows "reads_table os (table_of file dir)"
proof -
  note read = answers_read [OF assms(1) dynamic_paths(1)] answers_read [OF assms(1) dynamic_paths(2)]
  have start: "answers (if b then State_Monad.return x else m) (if b then x else v)" if "answers m v" for b m v x
    using that by (simp add: answers_def)
  show ?thesis
    unfolding reads_table_def table_of_def get_process_name_from_status_def get_process_start_time_def
      get_process_cmdline_def get_thread_name_def get_thread_comm_def get_thread_start_time_def
      proc_table.select_convs
    by (intro allI conjI start answers_bind read assms(2))
qed

end
