(* ===== verification/Full_Scan.thy ===== *)
theory Full_Scan
  imports Scan_Cursor Cgroup_State Thread_Cache Thread_Matcher
begin

section \<open>The full scan of all processes (main.cpp)\<close>

text \<open>
  A full scan enumerates \<open>/proc\<close>, classifies every process, records its live threads, checks that
  the process was not replaced meanwhile, and finally drops from the thread cache what no
  longer lives. It runs in slices: \<open>FullScanState\<close> is all it needs to go on. One
  iteration of its loop is \<open>scan_iteration\<close>; the loop itself is \<open>scan_loop\<close>, which
  ends because the clock does not stop (\<open>scan_loop_ends\<close>). Main result: the records of
  a scan agree with each other in every state (\<open>advance_scan_inv\<close>).
\<close>

subsection \<open>State\<close>

record FullScanState =
  fs_active :: bool
  fs_proc_dir :: "dir_stream option"
  fs_pid_enumeration_complete :: bool
  fs_pids :: "int list"
  fs_pid_index :: nat
  fs_current_pid :: int
  fs_current_process_start_time :: nat
  fs_current_proc_name :: string
  fs_current_cmdline :: string
  fs_current_state :: ProcessState
  fs_task_dir :: "dir_stream option"
  fs_tid_enumeration_complete :: bool
  fs_current_tids :: "int list"
  fs_tid_index :: nat
  fs_baseline_pids :: "int set"
  fs_live_processes :: "(int, nat) umap"
  fs_live_threads :: "(int \<times> int, nat) umap"
  fs_scan_start_identities :: "(int \<times> int, nat \<times> nat) umap"
  fs_previous_states :: "(int, nat \<times> ProcessState) umap"
  fs_observed_states :: "(int, nat \<times> ProcessState) umap"
  fs_pinned_pids :: "int set"
  fs_topfore_pids :: "int set"
  fs_top_app_pids :: "int set"
  fs_foreground_pids :: "int set"
  fs_background_pids :: "int set"
  fs_dead_pids :: "int set"

definition reset_scan :: FullScanState where
  "reset_scan = \<lparr>fs_active = False, fs_proc_dir = None, fs_pid_enumeration_complete = False,
     fs_pids = [], fs_pid_index = 0, fs_current_pid = 0, fs_current_process_start_time = 0,
     fs_current_proc_name = [], fs_current_cmdline = [], fs_current_state = BG, fs_task_dir = None,
     fs_tid_enumeration_complete = False, fs_current_tids = [], fs_tid_index = 0,
     fs_baseline_pids = {}, fs_live_processes = [], fs_live_threads = [],
     fs_scan_start_identities = [], fs_previous_states = [], fs_observed_states = [],
     fs_pinned_pids = {}, fs_topfore_pids = {}, fs_top_app_pids = {}, fs_foreground_pids = {},
     fs_background_pids = {}, fs_dead_pids = {}\<rparr>"

definition begin_scan :: "ThreadCache \<Rightarrow> (int, nat \<times> ProcessState) umap \<Rightarrow> FullScanState" where
  "begin_scan cache prior_states = reset_scan\<lparr>fs_active := True,
     fs_baseline_pids := get_pids_with_baselines cache,
     fs_scan_start_identities := identity_snapshot cache, fs_previous_states := prior_states\<rparr>"

definition clear_current_pid :: "FullScanState \<Rightarrow> FullScanState" where
  "clear_current_pid f = f\<lparr>fs_task_dir := None, fs_tid_enumeration_complete := False,
     fs_current_pid := 0, fs_current_process_start_time := 0, fs_current_proc_name := [],
     fs_current_cmdline := [], fs_current_state := BG, fs_current_tids := [], fs_tid_index := 0\<rparr>"

record 'w scan_st =
  ss_slice :: "'w slice"
  ss_process_cache :: ProcessCache
  ss_cache :: ThreadCache
  ss_scan :: FullScanState

definition in_slice :: "('w slice, 'a) state \<Rightarrow> ('w scan_st, 'a) state" where
  "in_slice m = zoom ss_slice (\<lambda>x s. s\<lparr>ss_slice := x\<rparr>) m"

definition set_scan :: "(FullScanState \<Rightarrow> FullScanState) \<Rightarrow> ('w scan_st, unit) state" where
  "set_scan f = modify (\<lambda>s. s\<lparr>ss_scan := f (ss_scan s)\<rparr>)"

definition get_scan :: "(FullScanState \<Rightarrow> 'a) \<Rightarrow> ('w scan_st, 'a) state" where
  "get_scan f = gets (\<lambda>s. f (ss_scan s))"

subsection \<open>Enumerations\<close>

definition read_proc :: "'w os \<Rightarrow> dir_stream \<Rightarrow> int list \<Rightarrow> ('w scan_st, bool) state" where
  "read_proc os d ids0 = do {
     (rest, ids, ended) \<leftarrow> in_slice (read_entries os (ds_entries d) ids0);
     if \<not> ended
     then do { set_scan (\<lambda>f. f\<lparr>fs_proc_dir := Some (d\<lparr>ds_entries := rest\<rparr>), fs_pids := ids\<rparr>);
               State_Monad.return False }
     else if ds_error d
     then do { set_scan (\<lambda>f. f\<lparr>fs_proc_dir := None, fs_pids := []\<rparr>); State_Monad.return False }
     else do { set_scan (\<lambda>f. f\<lparr>fs_proc_dir := None, fs_pids := finish_ids False ids,
                 fs_pid_enumeration_complete := True\<rparr>);
               State_Monad.return True } }"

definition enumerate_pids :: "'w os \<Rightarrow> ('w scan_st, bool) state" where
  "enumerate_pids os = do {
     f \<leftarrow> get_scan id;
     if fs_pid_enumeration_complete f then State_Monad.return True
     else case fs_proc_dir f of
       Some d \<Rightarrow> read_proc os d (fs_pids f)
     | None \<Rightarrow> do {
         opened \<leftarrow> in_slice (on_env (sys (os_opendir os ''/proc'')));
         (case opened of None \<Rightarrow> State_Monad.return False
          | Some d \<Rightarrow> read_proc os d []) } }"

definition read_current_tasks :: "'w os \<Rightarrow> dir_stream \<Rightarrow> int list \<Rightarrow> ('w scan_st, bool) state" where
  "read_current_tasks os d ids0 = do {
     (rest, ids, ended) \<leftarrow> in_slice (read_entries os (ds_entries d) ids0);
     if \<not> ended
     then do { set_scan (\<lambda>f. f\<lparr>fs_task_dir := Some (d\<lparr>ds_entries := rest\<rparr>), fs_current_tids := ids\<rparr>);
               State_Monad.return False }
     else do { set_scan (\<lambda>f. f\<lparr>fs_task_dir := None, fs_current_tids := finish_ids (ds_error d) ids,
                 fs_tid_enumeration_complete := True\<rparr>);
               State_Monad.return True } }"

definition enumerate_current_tids :: "'w os \<Rightarrow> ('w scan_st, bool) state" where
  "enumerate_current_tids os = do {
     f \<leftarrow> get_scan id;
     if fs_tid_enumeration_complete f then State_Monad.return True
     else case fs_task_dir f of
       Some d \<Rightarrow> read_current_tasks os d (fs_current_tids f)
     | None \<Rightarrow> do {
         opened \<leftarrow> in_slice (on_env (sys (os_opendir os
           (''/proc/'' @ to_string (fs_current_pid f) @ ''/task''))));
         (case opened of
            None \<Rightarrow> do { set_scan (\<lambda>f. f\<lparr>fs_tid_enumeration_complete := True\<rparr>); State_Monad.return True }
          | Some d \<Rightarrow> read_current_tasks os d []) } }"

subsection \<open>One process\<close>

definition scan_state_of ::
  "CgroupStateInfo \<Rightarrow> (nat \<times> ProcessState) option \<Rightarrow> nat \<Rightarrow> ProcessState" where
  "scan_state_of cgroup previous start_time =
     (case ci_state cgroup of
        CTOP \<Rightarrow> TOP
      | CFG \<Rightarrow> FG
      | CBG \<Rightarrow> BG
      | COTHER \<Rightarrow> (case previous of
            Some (t, st) \<Rightarrow> if ci_reuperf_owned cgroup \<and> t = start_time then st else BG
          | None \<Rightarrow> BG))"

definition skip_pid :: "FullScanState \<Rightarrow> FullScanState" where
  "skip_pid f = clear_current_pid (f\<lparr>fs_pid_index := fs_pid_index f + 1\<rparr>)"

definition record_process :: "int \<Rightarrow> string \<Rightarrow> CgroupStateInfo \<Rightarrow> FullScanState \<Rightarrow> FullScanState" where
  "record_process pid cmdline cgroup f =
     (let start = fs_current_process_start_time f;
          st = scan_state_of cgroup (map_of (fs_previous_states f) pid) start;
          f1 = f\<lparr>fs_live_processes := AList.update pid start (fs_live_processes f),
                 fs_current_cmdline := cmdline, fs_current_state := st,
                 fs_observed_states := AList.update pid (start, st) (fs_observed_states f)\<rparr>
      in case st of
           TOP \<Rightarrow> f1\<lparr>fs_top_app_pids := insert pid (fs_top_app_pids f1)\<rparr>
         | FG \<Rightarrow> f1\<lparr>fs_foreground_pids := insert pid (fs_foreground_pids f1)\<rparr>
         | BG \<Rightarrow> f1)"

text \<open>The block for a process that is not the current one; the value is false for \<open>continue\<close>.\<close>

definition start_pid :: "'w os \<Rightarrow> int \<Rightarrow> ('w scan_st, bool) state" where
  "start_pid os pid = do {
     set_scan (\<lambda>f. (clear_current_pid f)\<lparr>fs_current_pid := pid\<rparr>);
     start \<leftarrow> in_slice (on_env (get_process_start_time os pid));
     set_scan (\<lambda>f. f\<lparr>fs_current_process_start_time := start\<rparr>);
     in_slice (after_thread_read os);
     if start = 0 then do { set_scan skip_pid; State_Monad.return False }
     else do {
       name \<leftarrow> in_slice (on_env (get_process_name_from_status os pid));
       set_scan (\<lambda>f. f\<lparr>fs_current_proc_name := name\<rparr>);
       if name = dead_name
       then do { set_scan (\<lambda>f. skip_pid (f\<lparr>fs_dead_pids := insert pid (fs_dead_pids f)\<rparr>));
                 State_Monad.return False }
       else do {
         cmdline \<leftarrow> in_slice (on_env (get_process_cmdline os pid));
         cgroup \<leftarrow> in_slice (on_env (get_cgroup_state_info os pid));
         set_scan (record_process pid cmdline cgroup);
         State_Monad.return True } } }"

text \<open>\<open>emplace\<close> keeps an entry that is there.\<close>

definition record_thread :: "int \<Rightarrow> int \<Rightarrow> nat \<Rightarrow> FullScanState \<Rightarrow> FullScanState" where
  "record_thread pid tid start f = f\<lparr>fs_live_threads :=
     (case map_of (fs_live_threads f) (pid, tid) of
        None \<Rightarrow> AList.update (pid, tid) start (fs_live_threads f)
      | Some _ \<Rightarrow> fs_live_threads f)\<rparr>"

text \<open>The loop over the threads of the current process; the value is true when the budget ends.\<close>

fun scan_threads :: "'w os \<Rightarrow> int \<Rightarrow> nat \<Rightarrow> ('w scan_st, bool) state" where
  "scan_threads os pid 0 = State_Monad.return False"
| "scan_threads os pid (Suc n) = do {
     out \<leftarrow> in_slice (exhausted os);
     if out then State_Monad.return True
     else do {
       f \<leftarrow> get_scan id;
       let tid = fs_current_tids f ! fs_tid_index f;
       set_scan (\<lambda>f. f\<lparr>fs_tid_index := fs_tid_index f + 1\<rparr>);
       start \<leftarrow> in_slice (on_env (get_thread_start_time os pid tid));
       in_slice (after_thread_read os);
       (if start \<noteq> 0 then set_scan (record_thread pid tid start) else State_Monad.return ());
       scan_threads os pid n } }"

definition forget_pid :: "int \<Rightarrow> FullScanState \<Rightarrow> FullScanState" where
  "forget_pid pid f = f\<lparr>fs_live_processes := AList.delete pid (fs_live_processes f),
     fs_live_threads := umap_erase_if (\<lambda>k _. fst k = pid) (fs_live_threads f),
     fs_top_app_pids := fs_top_app_pids f - {pid}, fs_foreground_pids := fs_foreground_pids f - {pid},
     fs_background_pids := fs_background_pids f - {pid},
     fs_observed_states := AList.delete pid (fs_observed_states f),
     fs_pinned_pids := fs_pinned_pids f - {pid}, fs_topfore_pids := fs_topfore_pids f - {pid}\<rparr>"

definition classify_current :: "int \<Rightarrow> MatchResult \<Rightarrow> FullScanState \<Rightarrow> FullScanState" where
  "classify_current pid result f =
     (let f1 = (if fs_current_state f = BG
              \<and> should_dispatch_background_process result (pid \<in> fs_baseline_pids f) (fs_current_cmdline f = [])
            then f\<lparr>fs_background_pids := insert pid (fs_background_pids f)\<rparr> else f);
          f2 = (if mr_matched result \<and> mr_pinned result
            then f1\<lparr>fs_pinned_pids := insert pid (fs_pinned_pids f1)\<rparr> else f1)
      in if mr_matched result \<and> mr_topfore result \<and> mr_effective_state result = TOP
         then f2\<lparr>fs_topfore_pids := insert pid (fs_topfore_pids f2)\<rparr> else f2)"

definition scan_matcher :: "('w match_st, 'a) state \<Rightarrow> ('w scan_st, 'a) state" where
  "scan_matcher m = zoom (\<lambda>s. (sl_env (ss_slice s), ss_process_cache s))
     (\<lambda>(e, c) s. s\<lparr>ss_slice := (ss_slice s)\<lparr>sl_env := e\<rparr>, ss_process_cache := c\<rparr>) m"

text \<open>The rest of an iteration; the value is what the loop returns, or \<open>None\<close> to go on.\<close>

definition finish_pid ::
  "'w os \<Rightarrow> (string \<Rightarrow> nat) \<Rightarrow> 'r regex_lib \<Rightarrow> 'r matcher \<Rightarrow> int \<Rightarrow> ('w scan_st, bool option) state" where
  "finish_pid os hash rx m pid = do {
     enumerated \<leftarrow> enumerate_current_tids os;
     if \<not> enumerated then State_Monad.return (Some False)
     else do {
       left \<leftarrow> get_scan (\<lambda>f. length (fs_current_tids f) - fs_tid_index f);
       stopped \<leftarrow> scan_threads os pid left;
       if stopped then State_Monad.return (Some False)
       else do {
         out \<leftarrow> in_slice (exhausted os);
         if out then State_Monad.return (Some False)
         else do {
           verified \<leftarrow> in_slice (on_env (get_process_start_time os pid));
           f \<leftarrow> get_scan id;
           if verified \<noteq> fs_current_process_start_time f
           then do { set_scan (clear_current_pid \<circ> forget_pid pid); State_Monad.return None }
           else do {
             result \<leftarrow> scan_matcher (match_process_only os hash rx m (fs_current_proc_name f)
               (fs_current_proc_name f) (fs_current_state f) pid (fs_current_cmdline f));
             set_scan (skip_pid \<circ> classify_current pid result);
             State_Monad.return None } } } } }"

subsection \<open>The loop\<close>

definition scan_iteration ::
  "'w os \<Rightarrow> (string \<Rightarrow> nat) \<Rightarrow> 'r regex_lib \<Rightarrow> 'r matcher \<Rightarrow> ('w scan_st, bool option) state" where
  "scan_iteration os hash rx m = do {
     f \<leftarrow> get_scan id;
     if length (fs_pids f) \<le> fs_pid_index f
     then do {
       modify (\<lambda>s. s\<lparr>ss_cache := retain_live_threads (fs_live_processes f) (fs_live_threads f)
         (fs_scan_start_identities f) (ss_cache s)\<rparr>);
       State_Monad.return (Some True) }
     else do {
       out \<leftarrow> in_slice (exhausted os);
       if out then State_Monad.return (Some False)
       else do {
         let pid = fs_pids f ! fs_pid_index f;
         started \<leftarrow> (if fs_current_pid f \<noteq> pid then start_pid os pid else State_Monad.return True);
         if started then finish_pid os hash rx m pid else State_Monad.return None } } }"

partial_function (option) scan_loop ::
  "'w os \<Rightarrow> (string \<Rightarrow> nat) \<Rightarrow> 'r regex_lib \<Rightarrow> 'r matcher \<Rightarrow> 'w scan_st \<Rightarrow> (bool \<times> 'w scan_st) option" where
  "scan_loop os hash rx m s =
     (let r = run_state (scan_iteration os hash rx m) s
      in if fst r = None then scan_loop os hash rx m (snd r) else Some (the (fst r), snd r))"

declare scan_loop.simps [code]

definition advance_full_scan ::
  "'w os \<Rightarrow> (string \<Rightarrow> nat) \<Rightarrow> 'r regex_lib \<Rightarrow> 'r matcher \<Rightarrow> 'w scan_st \<Rightarrow> (bool \<times> 'w scan_st) option" where
  "advance_full_scan os hash rx m s =
     (if \<not> fs_active (ss_scan s) then Some (False, s)
      else case run_state (enumerate_pids os) s of (complete, s1) \<Rightarrow>
        if \<not> complete then Some (False, s1) else scan_loop os hash rx m s1)"

definition cleanup_dead_pids ::
  "int set \<Rightarrow> ThreadCache \<times> int set \<times> int set \<times> int set \<times> int set
     \<Rightarrow> ThreadCache \<times> int set \<times> int set \<times> int set \<times> int set" where
  "cleanup_dead_pids dead_pids st = fold
     (\<lambda>pid (cache, pinned_cache, topfore_cache, pinned_pids, topfore_pids).
        (reset_for_pid pid cache, pinned_cache - {pid}, topfore_cache - {pid},
         pinned_pids - {pid}, topfore_pids - {pid}))
     (sorted_list_of_set dead_pids) st"

subsection \<open>The records of a scan agree\<close>

text \<open>
  A process is recorded as live exactly when a state was observed for it, with the same start time; the
  three state sets say what was observed; only recorded processes are pinned or have live
  threads. \<open>current_ok\<close> adds that the process the scan is in is recorded as it says.
\<close>

definition records_ok :: "FullScanState \<Rightarrow> bool" where
  "records_ok f \<longleftrightarrow> umap_ok (fs_live_processes f) \<and> umap_ok (fs_live_threads f) \<and> umap_ok (fs_observed_states f) \<and>
     (\<forall>p. map_of (fs_live_processes f) p = map_option fst (map_of (fs_observed_states f) p)) \<and>
     (\<forall>p. map_of (fs_live_processes f) p \<noteq> Some 0) \<and>
     (\<forall>p \<in> fs_top_app_pids f. map_option snd (map_of (fs_observed_states f) p) = Some TOP) \<and>
     (\<forall>p \<in> fs_foreground_pids f. map_option snd (map_of (fs_observed_states f) p) = Some FG) \<and>
     (\<forall>p \<in> fs_background_pids f. map_option snd (map_of (fs_observed_states f) p) = Some BG) \<and>
     fs_pinned_pids f \<union> fs_topfore_pids f \<subseteq> dom (map_of (fs_live_processes f)) \<and>
     fst ` dom (map_of (fs_live_threads f)) \<subseteq> dom (map_of (fs_live_processes f))"

definition current_ok :: "FullScanState \<Rightarrow> bool" where
  "current_ok f \<longleftrightarrow> fs_current_pid f = 0 \<or>
     map_of (fs_observed_states f) (fs_current_pid f) = Some (fs_current_process_start_time f, fs_current_state f)"

text \<open>
  Where the scan stands: the processes before the index are done, the current one is the one at the
  index, and nothing else was observed.
\<close>

definition position_ok :: "FullScanState \<Rightarrow> bool" where
  "position_ok f \<longleftrightarrow> (\<forall>p \<in> set (fs_pids f). 0 < p) \<and>
     (if fs_pid_enumeration_complete f then distinct (fs_pids f)
      else fs_pid_index f = 0 \<and> fs_current_pid f = 0 \<and> fs_observed_states f = []) \<and>
     (fs_current_pid f \<noteq> 0 \<longrightarrow> fs_pid_index f < length (fs_pids f) \<and> fs_pids f ! fs_pid_index f = fs_current_pid f) \<and>
     dom (map_of (fs_observed_states f)) \<subseteq>
        set (take (fs_pid_index f) (fs_pids f)) \<union> ({fs_current_pid f} - {0})"

definition scan_inv :: "FullScanState \<Rightarrow> bool" where
  "scan_inv f \<longleftrightarrow> records_ok f \<and> current_ok f \<and> position_ok f"

lemma wp_set_scan [wp_rules]: "Q () (s\<lparr>ss_scan := f (ss_scan s)\<rparr>) \<Longrightarrow> wp (set_scan f) Q s"
  unfolding set_scan_def by (rule wp_modify)

lemma wp_get_scan [wp_rules]: "Q (f (ss_scan s)) s \<Longrightarrow> wp (get_scan f) Q s"
  unfolding get_scan_def by (rule wp_gets)

lemma wp_in_slice [wp_rules]: "(\<And>a x. Q a (s\<lparr>ss_slice := x\<rparr>)) \<Longrightarrow> wp (in_slice m) Q s"
  unfolding in_slice_def by (rule wp_zoom) (simp add: wp_iff)

lemma wp_scan_matcher [wp_rules]:
  "(\<And>a x c. Q a (s\<lparr>ss_slice := x, ss_process_cache := c\<rparr>)) \<Longrightarrow> wp (scan_matcher m) Q s"
  unfolding scan_matcher_def by (rule wp_zoom) (simp add: wp_iff split: prod.split)

lemma records_frame [simp]:
  "records_ok (f\<lparr>fs_current_pid := pid\<rparr>) = records_ok f"
  "records_ok (f\<lparr>fs_current_process_start_time := n\<rparr>) = records_ok f"
  "records_ok (f\<lparr>fs_current_proc_name := name\<rparr>) = records_ok f"
  "records_ok (f\<lparr>fs_pid_index := i\<rparr>) = records_ok f"
  "records_ok (f\<lparr>fs_tid_index := i\<rparr>) = records_ok f"
  "records_ok (f\<lparr>fs_dead_pids := ds\<rparr>) = records_ok f"
  "records_ok (f\<lparr>fs_tid_enumeration_complete := b\<rparr>) = records_ok f"
  "records_ok (f\<lparr>fs_task_dir := d, fs_current_tids := ids\<rparr>) = records_ok f"
  "records_ok (f\<lparr>fs_proc_dir := d, fs_pids := ids\<rparr>) = records_ok f"
  "records_ok (f\<lparr>fs_proc_dir := d, fs_pids := ids, fs_pid_enumeration_complete := b\<rparr>) = records_ok f"
  "records_ok (clear_current_pid f) = records_ok f"
  "records_ok (skip_pid f) = records_ok f"
  by (simp_all add: records_ok_def clear_current_pid_def skip_pid_def)

lemma current_frame [simp]:
  "current_ok (f\<lparr>fs_tid_index := i\<rparr>) = current_ok f"
  "current_ok (f\<lparr>fs_tid_enumeration_complete := b\<rparr>) = current_ok f"
  "current_ok (f\<lparr>fs_task_dir := d, fs_current_tids := ids\<rparr>) = current_ok f"
  "current_ok (f\<lparr>fs_live_threads := ts\<rparr>) = current_ok f"
  "current_ok (clear_current_pid f)" "current_ok (skip_pid f)"
  by (simp_all add: current_ok_def clear_current_pid_def skip_pid_def)

lemma position_frame [simp]:
  "position_ok (f\<lparr>fs_current_process_start_time := n\<rparr>) = position_ok f"
  "position_ok (f\<lparr>fs_current_proc_name := name\<rparr>) = position_ok f"
  "position_ok (f\<lparr>fs_tid_index := i\<rparr>) = position_ok f"
  "position_ok (f\<lparr>fs_dead_pids := ds\<rparr>) = position_ok f"
  "position_ok (f\<lparr>fs_live_threads := ts\<rparr>) = position_ok f"
  "position_ok (f\<lparr>fs_tid_enumeration_complete := b\<rparr>) = position_ok f"
  "position_ok (f\<lparr>fs_task_dir := d, fs_current_tids := ids\<rparr>) = position_ok f"
  by (simp_all add: position_ok_def)

lemma position_skip:
  assumes "position_ok f" "fs_pid_enumeration_complete f" "fs_current_pid f \<noteq> 0"
  shows "position_ok (skip_pid f)"
  using assms by (auto simp: position_ok_def skip_pid_def clear_current_pid_def take_Suc_conv_app_nth)

lemma position_start:
  assumes "position_ok f" "fs_pid_enumeration_complete f" "fs_pid_index f < length (fs_pids f)"
    and "fs_current_pid f \<noteq> fs_pids f ! fs_pid_index f"
  shows "position_ok ((clear_current_pid f)\<lparr>fs_current_pid := fs_pids f ! fs_pid_index f\<rparr>)"
    and "map_of (fs_observed_states f) (fs_pids f ! fs_pid_index f) = None"
    and "0 < fs_pids f ! fs_pid_index f"
proof -
  let ?i = "fs_pid_index f" and ?ps = "fs_pids f"
  from assms have "fs_current_pid f = 0" by (auto simp: position_ok_def)
  moreover have pos: "0 < ?ps ! ?i" using assms(1,3) by (simp add: position_ok_def)
  moreover have "?ps ! ?i \<notin> set (take ?i ?ps)"
    using assms(1-3) by (auto simp: position_ok_def in_set_conv_nth nth_eq_iff_index_eq)
  moreover have "dom (map_of (fs_observed_states f)) \<subseteq> set (take ?i ?ps)"
    using assms(1) \<open>fs_current_pid f = 0\<close> by (simp add: position_ok_def)
  ultimately have unseen: "?ps ! ?i \<notin> dom (map_of (fs_observed_states f))" by blast
  then show "map_of (fs_observed_states f) (?ps ! ?i) = None" by (metis domIff)
  show "0 < ?ps ! ?i" by (rule pos)
  show "position_ok ((clear_current_pid f)\<lparr>fs_current_pid := ?ps ! ?i\<rparr>)"
    using assms \<open>fs_current_pid f = 0\<close> by (auto simp: position_ok_def clear_current_pid_def)
qed

lemma record_process_ok:
  assumes "records_ok f" "position_ok f" "fs_current_pid f = pid" "fs_current_process_start_time f \<noteq> 0"
    and "map_of (fs_observed_states f) pid = None" "0 < pid" "fs_pid_enumeration_complete f"
  shows "scan_inv (record_process pid cmdline cgroup f)"
proof -
  have unseen: "map_of (fs_live_processes f) pid = None" using assms(1,5) by (simp add: records_ok_def)
  have others: "pid \<notin> fs_top_app_pids f" "pid \<notin> fs_foreground_pids f" "pid \<notin> fs_background_pids f"
    using assms(1,5) by (auto simp: records_ok_def)
  define st where "st = scan_state_of cgroup (map_of (fs_previous_states f) pid) (fs_current_process_start_time f)"
  have rec: "records_ok (record_process pid cmdline cgroup f)"
  proof -
    have lookups: "map_of (fs_live_processes (record_process pid cmdline cgroup f)) =
        (map_of (fs_live_processes f))(pid \<mapsto> fs_current_process_start_time f)"
      "map_of (fs_observed_states (record_process pid cmdline cgroup f)) =
        (map_of (fs_observed_states f))(pid \<mapsto> (fs_current_process_start_time f, st))"
      by (simp_all add: record_process_def Let_def AList.update_conv' st_def [symmetric] split: ProcessState.split)
    have "umap_ok (fs_live_processes (record_process pid cmdline cgroup f)) \<and>
        umap_ok (fs_observed_states (record_process pid cmdline cgroup f))"
      using assms(1) by (simp add: record_process_def records_ok_def Let_def split: ProcessState.split)
    moreover have "fs_top_app_pids (record_process pid cmdline cgroup f) =
          (if st = TOP then insert pid (fs_top_app_pids f) else fs_top_app_pids f)"
        "fs_foreground_pids (record_process pid cmdline cgroup f) =
          (if st = FG then insert pid (fs_foreground_pids f) else fs_foreground_pids f)"
        "fs_background_pids (record_process pid cmdline cgroup f) = fs_background_pids f"
        "fs_pinned_pids (record_process pid cmdline cgroup f) = fs_pinned_pids f"
        "fs_topfore_pids (record_process pid cmdline cgroup f) = fs_topfore_pids f"
        "fs_live_threads (record_process pid cmdline cgroup f) = fs_live_threads f"
      by (simp_all add: record_process_def Let_def st_def [symmetric] split: ProcessState.split)
    ultimately show ?thesis
      unfolding records_ok_def lookups
      using assms(1,4) unseen others
      by (intro conjI) (simp_all add: records_ok_def subset_insertI2, auto)
  qed
  show ?thesis
    using assms rec
    by (auto simp: scan_inv_def current_ok_def position_ok_def record_process_def Let_def AList.update_conv'
        split: ProcessState.splits)
qed

text \<open>The scan is inside process \<open>pid\<close>.\<close>

definition at_pid :: "int \<Rightarrow> FullScanState \<Rightarrow> bool" where
  "at_pid pid f \<longleftrightarrow> scan_inv f \<and> fs_pid_enumeration_complete f \<and> fs_current_pid f = pid \<and> 0 < pid"

lemma forget_pid_inv:
  assumes "at_pid pid f"
  shows "scan_inv (clear_current_pid (forget_pid pid f))"
proof -
  have rec: "records_ok f" and pos: "position_ok f" "fs_current_pid f = pid" "fs_pid_enumeration_complete f"
    using assms by (simp_all add: at_pid_def scan_inv_def)
  have "map_of (fs_live_threads (forget_pid pid f)) = (map_of (fs_live_threads f)) |` {k. fst k \<noteq> pid}"
    using rec by (auto simp: forget_pid_def umap_lookup_erase_if records_ok_def restrict_map_def split: option.split)
  then have dom: "dom (map_of (fs_live_threads (forget_pid pid f))) = dom (map_of (fs_live_threads f)) \<inter> {k. fst k \<noteq> pid}"
    by simp
  have "fst ` dom (map_of (fs_live_threads f)) \<subseteq> dom (map_of (fs_live_processes f))"
    using rec by (simp add: records_ok_def)
  then have threads: "fst ` dom (map_of (fs_live_threads (forget_pid pid f))) \<subseteq>
      dom (map_of (fs_live_processes f)) - {pid}"
    unfolding dom by blast
  have lookups: "map_of (fs_live_processes (forget_pid pid f)) = (map_of (fs_live_processes f))(pid := None)"
    "map_of (fs_observed_states (forget_pid pid f)) = (map_of (fs_observed_states f))(pid := None)"
    by (simp_all add: forget_pid_def AList.delete_conv')
  have "umap_ok (fs_live_processes (forget_pid pid f))" "umap_ok (fs_observed_states (forget_pid pid f))"
    "umap_ok (fs_live_threads (forget_pid pid f))"
    using rec by (simp_all add: forget_pid_def records_ok_def)
  with rec threads have "records_ok (forget_pid pid f)"
    unfolding records_ok_def lookups
    by (intro conjI) (simp_all add: forget_pid_def, auto)
  moreover have "position_ok (clear_current_pid (forget_pid pid f))"
    using pos by (auto simp: position_ok_def clear_current_pid_def forget_pid_def AList.delete_conv')
  ultimately show ?thesis by (simp add: scan_inv_def)
qed

lemma classify_current_inv:
  assumes "at_pid pid f"
  shows "scan_inv (skip_pid (classify_current pid result f))"
proof -
  have rec: "records_ok f" and cur: "map_of (fs_observed_states f) pid = Some (fs_current_process_start_time f, fs_current_state f)"
    and pos: "position_ok f" "fs_current_pid f = pid" "fs_pid_enumeration_complete f" "pid \<noteq> 0"
    using assms by (auto simp: at_pid_def scan_inv_def current_ok_def)
  have live: "map_of (fs_live_processes f) pid = Some (fs_current_process_start_time f)"
    using rec cur by (simp add: records_ok_def)
  have "records_ok (classify_current pid result f)"
    using rec cur live by (auto simp: records_ok_def classify_current_def Let_def)
  moreover have "position_ok (classify_current pid result f)"
    using pos by (simp add: position_ok_def classify_current_def Let_def)
  then have "position_ok (skip_pid (classify_current pid result f))"
    by (rule position_skip) (use pos in \<open>simp_all add: classify_current_def Let_def\<close>)
  ultimately show ?thesis by (simp add: scan_inv_def)
qed

lemma live_thread_inv:
  assumes "at_pid pid f"
  shows "at_pid pid (record_thread pid tid start f)"
proof -
  have rec: "records_ok f" and cur: "map_of (fs_observed_states f) pid = Some (fs_current_process_start_time f, fs_current_state f)"
    using assms by (auto simp: at_pid_def scan_inv_def current_ok_def)
  have "pid \<in> dom (map_of (fs_live_processes f))" using rec cur by (simp add: records_ok_def domIff)
  with rec have "records_ok (record_thread pid tid start f)"
    by (auto simp: record_thread_def records_ok_def AList.update_conv' split: option.split)
  with assms show ?thesis by (simp add: at_pid_def scan_inv_def record_thread_def)
qed

lemma at_pid_frame [simp]:
  "at_pid pid (f\<lparr>fs_tid_index := i\<rparr>) = at_pid pid f"
  "at_pid pid (f\<lparr>fs_tid_enumeration_complete := b\<rparr>) = at_pid pid f"
  "at_pid pid (f\<lparr>fs_task_dir := d, fs_current_tids := ids\<rparr>) = at_pid pid f"
  "at_pid pid (f\<lparr>fs_task_dir := d, fs_current_tids := ids, fs_tid_enumeration_complete := b\<rparr>) = at_pid pid f"
  by (simp_all add: at_pid_def scan_inv_def records_ok_def current_ok_def position_ok_def)

lemma at_pid_inv: "at_pid pid f \<Longrightarrow> scan_inv f" "at_pid pid f \<Longrightarrow> fs_pid_enumeration_complete f"
  by (simp_all add: at_pid_def)

lemma wp_enumerate_tids_inv:
  assumes "at_pid pid (ss_scan s)"
  shows "wp (enumerate_current_tids os) (\<lambda>_ s'. at_pid pid (ss_scan s')) s"
  unfolding enumerate_current_tids_def read_current_tasks_def
  by (intro wp_rules) (simp_all add: assms)

lemma wp_scan_threads_inv:
  assumes "at_pid pid (ss_scan s)"
  shows "wp (scan_threads os pid n) (\<lambda>_ s'. at_pid pid (ss_scan s')) s"
  using assms
proof (induction n arbitrary: s)
  case 0
  then show ?case by (simp add: wp_def)
next
  case (Suc n)
  show ?case
    unfolding scan_threads.simps
    by (intro wp_rules Suc.IH) (simp_all add: Suc.prems live_thread_inv)
qed

lemma wp_inside_pid:
  assumes "at_pid pid (ss_scan s)" "\<And>b s'. at_pid pid (ss_scan s') \<Longrightarrow> Q b s'"
  shows "wp (scan_threads os pid n) Q s" "wp (enumerate_current_tids os) Q s"
  using assms(2) by (auto intro: wp_conseq [OF wp_scan_threads_inv [OF assms(1)]]
    wp_conseq [OF wp_enumerate_tids_inv [OF assms(1)]])

definition scanning :: "'w scan_st \<Rightarrow> bool" where
  "scanning s \<longleftrightarrow> scan_inv (ss_scan s) \<and> fs_pid_enumeration_complete (ss_scan s)"

lemma pid_changes_complete [simp]:
  "fs_pid_enumeration_complete (clear_current_pid f) = fs_pid_enumeration_complete f"
  "fs_pid_enumeration_complete (forget_pid pid f) = fs_pid_enumeration_complete f"
  "fs_pid_enumeration_complete (skip_pid f) = fs_pid_enumeration_complete f"
  "fs_pid_enumeration_complete (classify_current pid result f) = fs_pid_enumeration_complete f"
  "fs_pid_enumeration_complete (record_process pid cmdline cgroup f) = fs_pid_enumeration_complete f"
  by (simp_all add: clear_current_pid_def forget_pid_def skip_pid_def classify_current_def record_process_def
      Let_def split: ProcessState.split)

lemma finish_pid_inv:
  assumes "at_pid pid (ss_scan s)"
  shows "wp (finish_pid os hash rx m pid) (\<lambda>_. scanning) s"
  unfolding finish_pid_def
  using assms
  by (intro wp_rules wp_inside_pid [where pid = pid])
    (simp_all add: scanning_def at_pid_inv forget_pid_inv classify_current_inv)

lemma start_pid_inv:
  assumes "scanning s" "fs_pid_index (ss_scan s) < length (fs_pids (ss_scan s))"
    and "pid = fs_pids (ss_scan s) ! fs_pid_index (ss_scan s)" "fs_current_pid (ss_scan s) \<noteq> pid"
  shows "wp (start_pid os pid) (\<lambda>b s'. if b then at_pid pid (ss_scan s') else scanning s') s"
proof -
  let ?f = "(clear_current_pid (ss_scan s))\<lparr>fs_current_pid := pid\<rparr>"
  have inv: "records_ok (ss_scan s)" "position_ok (ss_scan s)" "fs_pid_enumeration_complete (ss_scan s)"
    using assms(1) by (simp_all add: scanning_def scan_inv_def)
  note start = position_start [OF inv(2,3) assms(2) assms(4) [unfolded assms(3)], folded assms(3)]
  have f: "records_ok ?f" "position_ok ?f" "fs_pid_enumeration_complete ?f" "fs_current_pid ?f = pid"
    "map_of (fs_observed_states ?f) pid = None" "0 < pid"
    using inv start by (simp_all, simp_all add: clear_current_pid_def)
  have skip: "scan_inv (skip_pid g)" if "records_ok g" "position_ok g" "fs_pid_enumeration_complete g" "fs_current_pid g = pid" for g
    using that f(6) position_skip [of g] by (simp add: scan_inv_def)
  have recorded: "at_pid pid (record_process pid cmdline cgroup (?f\<lparr>fs_current_process_start_time := n, fs_current_proc_name := name\<rparr>))"
    if "n \<noteq> 0" for n name cmdline cgroup
  proof -
    let ?g = "?f\<lparr>fs_current_process_start_time := n, fs_current_proc_name := name\<rparr>"
    have "scan_inv (record_process pid cmdline cgroup ?g)"
      using f that by (intro record_process_ok) simp_all
    then show ?thesis
      using f by (simp add: at_pid_def, simp add: record_process_def Let_def split: ProcessState.split)
  qed
  show ?thesis
    unfolding start_pid_def
    by (intro wp_rules) (simp_all add: recorded skip scanning_def f inv)
qed

lemma parse_id_pos: "parse_id_entry name = Some i \<Longrightarrow> 0 < i"
  by (auto simp: parse_id_entry_def is_valid_pid_def split: if_splits option.splits)

lemma entry_ids_pos: "i \<in> set (entry_ids es) \<Longrightarrow> 0 < i"
  by (induction es) (auto dest: parse_id_pos split: option.splits)

lemma wp_read_entries:
  assumes "\<forall>i \<in> set ids. 0 < i" "\<And>rest ids' ended x. \<forall>i \<in> set ids'. 0 < i \<Longrightarrow> Q (rest, ids', ended) (s\<lparr>ss_slice := x\<rparr>)"
  shows "wp (in_slice (read_entries os es ids)) Q s"
proof -
  obtain rest ids' ended x where run: "run_state (read_entries os es ids) (ss_slice s) = ((rest, ids', ended), x)"
    by (metis surj_pair)
  have "set ids' \<subseteq> set ids \<union> set (entry_ids es)"
    using arg_cong [OF read_entries_run(1) [OF run], of set] by auto
  with assms(1) have "\<forall>i \<in> set ids'. 0 < i" by (auto dest: entry_ids_pos)
  from assms(2) [OF this, of rest ended x] show ?thesis by (simp add: in_slice_def wp_def run)
qed

lemma position_pids:
  assumes "scan_inv f" "\<not> fs_pid_enumeration_complete f" "\<forall>i \<in> set ids. 0 < i"
  shows "scan_inv (f\<lparr>fs_proc_dir := d, fs_pids := ids\<rparr>)"
    and "distinct ids \<Longrightarrow> scan_inv (f\<lparr>fs_proc_dir := d, fs_pids := ids, fs_pid_enumeration_complete := True\<rparr>)"
  using assms by (simp_all add: scan_inv_def current_ok_def position_ok_def)

lemma enumerate_pids_inv:
  assumes "scan_inv (ss_scan s)"
  shows "wp (enumerate_pids os) (\<lambda>b s'. scan_inv (ss_scan s') \<and> b = fs_pid_enumeration_complete (ss_scan s')) s"
proof -
  have pids: "\<forall>i \<in> set (fs_pids (ss_scan s)). 0 < i"
    using assms by (simp add: scan_inv_def position_ok_def)
  show ?thesis
    unfolding enumerate_pids_def read_proc_def
    using assms pids
    by (intro wp_bind wp_case_option wp_if wp_return wp_get_scan wp_set_scan wp_case_prod wp_read_entries
        wp_in_slice [of _ s "on_env m" for m])
      (simp_all add: position_pids finish_ids_sorted set_finish_ids)
qed

lemma wp_start_pid:
  assumes "scanning s" "fs_pid_index (ss_scan s) < length (fs_pids (ss_scan s))"
    and "pid = fs_pids (ss_scan s) ! fs_pid_index (ss_scan s)" "fs_current_pid (ss_scan s) \<noteq> pid"
    and "\<And>s'. at_pid pid (ss_scan s') \<Longrightarrow> Q True s'" "\<And>s'. scanning s' \<Longrightarrow> Q False s'"
  shows "wp (start_pid os pid) Q s"
  by (rule wp_conseq [OF start_pid_inv [OF assms(1-4)]]) (simp add: assms(5,6) split: if_splits)

lemma scanning_inside:
  assumes "scanning s" "fs_pid_index (ss_scan s) < length (fs_pids (ss_scan s))"
    and "fs_current_pid (ss_scan s) = fs_pids (ss_scan s) ! fs_pid_index (ss_scan s)"
  shows "at_pid (fs_pids (ss_scan s) ! fs_pid_index (ss_scan s)) (ss_scan s)"
  using assms by (simp add: at_pid_def scanning_def scan_inv_def position_ok_def)

lemma scanning_frame [simp]:
  "scanning (s\<lparr>ss_slice := x\<rparr>) = scanning s" "scanning (s\<lparr>ss_cache := c\<rparr>) = scanning s"
  by (simp_all add: scanning_def)

lemma scan_iteration_inv:
  assumes "scanning s"
  shows "wp (scan_iteration os hash rx m) (\<lambda>_. scanning) s"
  unfolding scan_iteration_def
  using assms
  by (intro wp_rules wp_start_pid finish_pid_inv) (simp_all add: scanning_inside)

lemma scan_loop_inv:
  assumes "scan_loop os hash rx m s = Some r" "scanning s"
  shows "scanning (snd r)"
  using assms
proof (induction rule: scan_loop.raw_induct [rotated, consumes 1])
  case (1 loop os hash rx m s r)
  have "scanning (snd (run_state (scan_iteration os hash rx m) s))"
    using wp_run [OF scan_iteration_inv [OF 1(3)]] by (metis prod.collapse)
  with 1 show ?case by (auto simp: Let_def split: if_splits)
qed

lemma advance_scan_inv:
  assumes "advance_full_scan os hash rx m s = Some (b, s')" "scan_inv (ss_scan s)"
  shows "scan_inv (ss_scan s')"
proof -
  obtain complete s1 where run: "run_state (enumerate_pids os) s = (complete, s1)" by (metis surj_pair)
  from wp_run [OF enumerate_pids_inv [OF assms(2)] run]
  have "scan_inv (ss_scan s1)" "complete \<Longrightarrow> scanning s1" by (simp_all add: scanning_def)
  with assms run show ?thesis
    by (auto simp: advance_full_scan_def split: if_splits dest!: scan_loop_inv) (simp_all add: scanning_def)
qed

lemma begin_scan_inv: "scan_inv (begin_scan cache prior)"
  by (simp add: begin_scan_def reset_scan_def scan_inv_def records_ok_def current_ok_def position_ok_def)

text \<open>
  The records a scan can have: those it begins with, and what a slice leaves of them. Between two
  slices the rest of the state may have changed in any way.
\<close>

inductive scan_reachable ::
  "'w os \<Rightarrow> (string \<Rightarrow> nat) \<Rightarrow> 'r regex_lib \<Rightarrow> 'r matcher \<Rightarrow> FullScanState \<Rightarrow> bool"
  for os hash rx m where
  scan_begun: "scan_reachable os hash rx m (begin_scan cache prior)"
| scan_slice: "scan_reachable os hash rx m (ss_scan s) \<Longrightarrow> advance_full_scan os hash rx m s = Some (b, s')
    \<Longrightarrow> scan_reachable os hash rx m (ss_scan s')"

text \<open>The processes observed in a state.\<close>

definition observed_in :: "ProcessState \<Rightarrow> FullScanState \<Rightarrow> int set" where
  "observed_in st f = {p. map_option snd (map_of (fs_observed_states f) p) = Some st}"

lemma scan_reachable_inv: "scan_reachable os hash rx m f \<Longrightarrow> scan_inv f"
  by (induction rule: scan_reachable.induct) (auto intro: begin_scan_inv advance_scan_inv)

subsection \<open>The loop ends\<close>

text \<open>
  A process that keeps being replaced is scanned again and again without the index moving, so the loop
  ends only because each iteration looks at the clock: \<open>overrun\<close>, the time since the deadline,
  grows with every iteration and is negative while the loop goes on.
\<close>

definition env_clock :: "('w \<Rightarrow> int) \<Rightarrow> 'w env \<Rightarrow> int" where
  "env_clock clk e = clk (world e)"

definition slice_overrun :: "('w \<Rightarrow> int) \<Rightarrow> 'w slice \<Rightarrow> int" where
  "slice_overrun clk s = env_clock clk (sl_env s) - bg_deadline (sl_budget s)"

definition overrun :: "('w \<Rightarrow> int) \<Rightarrow> 'w scan_st \<Rightarrow> int" where
  "overrun clk s = slice_overrun clk (ss_slice s)"

lemma climbs_sys: "climbs clk m \<Longrightarrow> climbs (env_clock clk) (sys m)"
  unfolding sys_def by (rule climbs_zoom) (simp_all add: env_clock_def)

lemma climbs_on_env: "climbs (env_clock clk) m \<Longrightarrow> climbs (slice_overrun clk) (on_env m)"
  unfolding on_env_def by (rule climbs_zoom) (simp_all add: slice_overrun_def)

lemma climbs_in_slice: "climbs (slice_overrun clk) m \<Longrightarrow> climbs (overrun clk) (in_slice m)"
  unfolding in_slice_def by (rule climbs_zoom) (simp_all add: overrun_def)

lemma climbs_set_scan: "climbs (overrun clk) (set_scan f)"
  unfolding set_scan_def by (rule climbs_modify) (simp add: overrun_def)

lemma climbs_get_scan: "climbs (overrun clk) (get_scan f)"
  unfolding get_scan_def by (rule climbs_gets)

lemma climbs_scan_matcher:
  "climbs (\<lambda>s. env_clock clk (fst s)) m \<Longrightarrow> climbs (overrun clk) (scan_matcher m)"
  unfolding scan_matcher_def
  by (rule climbs_zoom) (auto simp: overrun_def slice_overrun_def)

lemma climbs_reads:
  assumes "clock_law os clk"
  shows "climbs (env_clock clk) (read_file os path)"
    and "climbs (env_clock clk) (get_process_start_time os pid)"
    and "climbs (env_clock clk) (get_thread_start_time os pid tid)"
    and "climbs (env_clock clk) (get_process_name_from_status os pid)"
    and "climbs (env_clock clk) (get_process_cmdline os pid)"
    and "climbs (env_clock clk) (get_cgroup_state_info os pid)"
proof -
  show read: "climbs (env_clock clk) (read_file os path)" for path
    unfolding read_file_def
    by (intro climbs_rules climbs_sys clock_lawD [OF assms]) (simp_all add: env_clock_def)
  show "climbs (env_clock clk) (get_process_start_time os pid)"
    "climbs (env_clock clk) (get_thread_start_time os pid tid)"
    "climbs (env_clock clk) (get_process_name_from_status os pid)"
    "climbs (env_clock clk) (get_process_cmdline os pid)"
    unfolding get_process_start_time_def get_thread_start_time_def get_process_name_from_status_def
      get_process_cmdline_def
    by (intro climbs_rules read)+
  show "climbs (env_clock clk) (get_cgroup_state_info os pid)"
    unfolding get_cgroup_state_info_def get_cgroup_path_def get_cgroup_path_from_file_def
    by (intro climbs_rules climbs_sys clock_lawD [OF assms] read) (simp_all add: env_clock_def)
qed

lemma climbs_match:
  assumes "clock_law os clk"
  shows "climbs (\<lambda>s. env_clock clk (fst s)) (match_process_only os hash rx m p t st pid l)"
proof -
  have now: "climbs (\<lambda>s. env_clock clk (fst s)) (match_now os)"
    unfolding match_now_def by (rule climbs_zoom [OF climbs_sys [OF clock_lawD(1) [OF assms]]]) simp
  show ?thesis
    unfolding match_process_only_def match_impl_def get_cached_process_result_def
    by (intro climbs_rules now) simp_all
qed

lemma climbs_slice:
  assumes "clock_law os clk"
  shows "climbs (slice_overrun clk) (exhausted os)" "climbs (slice_overrun clk) (after_thread_read os)"
    "climbs (slice_overrun clk) (read_entries os es ids)"
proof -
  show out: "climbs (slice_overrun clk) (exhausted os)"
    unfolding exhausted_def by (intro climbs_rules climbs_on_env climbs_sys clock_lawD [OF assms])
  show read: "climbs (slice_overrun clk) (after_thread_read os)"
    unfolding after_thread_read_def
    by (intro climbs_rules climbs_on_env climbs_sys clock_lawD [OF assms]) (simp_all add: slice_overrun_def)
  show "climbs (slice_overrun clk) (read_entries os es ids)"
  proof (induction es arbitrary: ids)
    case Nil
    show ?case by (subst read_entries.simps) (auto intro!: climbs_rules out)
  next
    case (Cons e es)
    show ?case by (subst read_entries.simps) (auto intro!: climbs_rules out read Cons.IH split: option.split)
  qed
qed

lemma climbs_scan_steps:
  assumes "clock_law os clk"
  shows "climbs (overrun clk) (start_pid os pid)" "climbs (overrun clk) (finish_pid os hash rx m pid)"
proof -
  note steps = climbs_rules climbs_in_slice climbs_on_env climbs_sys climbs_set_scan climbs_get_scan
    climbs_scan_matcher climbs_match [OF assms] climbs_slice [OF assms] climbs_reads [OF assms] clock_lawD [OF assms]
  have threads: "climbs (overrun clk) (scan_threads os pid n)" for n
  proof (induction n)
    case (Suc n)
    then show ?case unfolding scan_threads.simps by (intro steps)
  qed (simp add: climbs_return)
  show "climbs (overrun clk) (start_pid os pid)"
    unfolding start_pid_def by (intro steps)
  show "climbs (overrun clk) (finish_pid os hash rx m pid)"
    unfolding finish_pid_def enumerate_current_tids_def read_current_tasks_def
    by (intro steps threads)
qed

text \<open>A look at the clock moves it, and \<open>false\<close> means that the deadline was still ahead.\<close>

lemma wp_exhausted_clock:
  assumes "clock_law os clk"
    and "\<And>b s'. overrun clk s < overrun clk s' \<Longrightarrow> (\<not> b \<Longrightarrow> overrun clk s < 0) \<Longrightarrow> Q b s'"
  shows "wp (in_slice (exhausted os)) Q s"
proof -
  let ?w = "world (sl_env (ss_slice s))"
  obtain t w where now: "run_state (os_now os) ?w = (t, w)" by (metis surj_pair)
  with assms(1) have "t = clk ?w" "clk ?w < clk w" by (auto simp: clock_law_def dest: spec [of _ ?w])
  with now show ?thesis
    by (auto simp: wp_def in_slice_def exhausted_def on_env_def overrun_def slice_overrun_def env_clock_def
        intro!: assms(2))
qed

lemma iteration_clock:
  assumes "clock_law os clk" "run_state (scan_iteration os hash rx m) s = (None, s')"
  shows "overrun clk s < 0 \<and> overrun clk s < overrun clk s'"
proof -
  have "wp (scan_iteration os hash rx m) (\<lambda>r s'. r = None \<longrightarrow> overrun clk s < 0 \<and> overrun clk s < overrun clk s') s"
    unfolding scan_iteration_def
    by (intro wp_bind wp_get_scan wp_if wp_Let wp_modify wp_return wp_exhausted_clock [OF assms(1)]
        wp_climbs [OF climbs_scan_steps(1) [OF assms(1)]] wp_climbs [OF climbs_scan_steps(2) [OF assms(1)]])
      auto
  from wp_run [OF this assms(2)] show ?thesis by simp
qed

lemma scan_loop_ends:
  assumes "clock_law os clk"
  shows "\<exists>r. scan_loop os hash rx m s = Some r"
proof (induction "nat (- overrun clk s)" arbitrary: s rule: less_induct)
  case less
  obtain r s' where run: "run_state (scan_iteration os hash rx m) s = (r, s')" by (metis surj_pair)
  show ?case
  proof (cases r)
    case None
    from iteration_clock [OF assms run [unfolded None]] have "nat (- overrun clk s') < nat (- overrun clk s)" by simp
    from less [OF this] run None show ?thesis by (subst scan_loop.simps) (simp add: Let_def)
  next
    case (Some b)
    with run show ?thesis by (subst scan_loop.simps) (simp add: Let_def)
  qed
qed

lemma advance_full_scan_ends:
  assumes "clock_law os clk"
  shows "\<exists>r. advance_full_scan os hash rx m s = Some r"
proof -
  obtain complete s1 where "run_state (enumerate_pids os) s = (complete, s1)" by (metis surj_pair)
  then show ?thesis using scan_loop_ends [OF assms, of hash rx m s1] by (auto simp: advance_full_scan_def)
qed

end
