(* ===== verification/Scan_Cycle.thy ===== *)
theory Scan_Cycle
  imports Dispatch Full_Scan
begin

section \<open>Scan cycles and process events (main.cpp)\<close>

text \<open>
  The main loop looks at all processes in full cycles: a full scan followed by five dispatch phases, the
  whole spread over as many ticks as the budget needs. Between cycles a fast tick dispatches only what is
  in the foreground. The router's batches of process events are handled in between, under the same lock.
  \<open>cycle\<close> is the state these three share: the locals of \<open>main\<close> the lock protects. The
  configuration, the matcher and the worker pool are arguments; a reload replaces them (\<open>Daemon\<close>).
  Main results: in a full cycle no thread is offered twice, over all phases and ticks, and the more
  important states go first (\<open>cycle_offers\<close>); a cycle that is not complete asks for its next tick
  (\<open>full_tick_requests\<close>); after a batch of events the processes it names are forgotten and no other
  (\<open>events_forget\<close>).
\<close>

subsection \<open>State\<close>

text \<open>A \<open>PidCache\<close> is a set of processes behind a lock; \<open>get\<close>, \<open>update\<close> and \<open>clear\<close> read and assign it.\<close>

type_synonym PidCache = "int set"

definition remove_pid :: "int \<Rightarrow> PidCache \<Rightarrow> PidCache" where
  "remove_pid pid pids = pids - {pid}"

record ('w, 'q) cycle =
  cy_slice :: "'w slice"
  cy_workers :: 'q
  cy_process_cache :: ProcessCache
  cy_cache :: ThreadCache
  cy_pinned :: PidCache
  cy_topfore :: PidCache
  cy_top_app :: "int set"
  cy_foreground :: "int set"
  cy_background :: "int set"
  cy_process_states :: "(int, nat \<times> ProcessState) umap"
  cy_top_cursor :: ScanCursor
  cy_pinned_cursor :: ScanCursor
  cy_topfore_cursor :: ScanCursor
  cy_foreground_cursor :: ScanCursor
  cy_background_cursor :: ScanCursor
  cy_phase :: nat
  cy_active :: bool
  cy_scan :: FullScanState
  cy_processed_tids :: "int set"
  cy_next_full_scan :: int
  cy_rescan_needed :: bool

definition file_layer :: "('w env, 'a) state \<Rightarrow> (('w, 'q) cycle, 'a) state" where
  "file_layer m = zoom (\<lambda>c. sl_env (cy_slice c)) (\<lambda>e c. c\<lparr>cy_slice := (cy_slice c)\<lparr>sl_env := e\<rparr>\<rparr>) m"

definition cycle_slice :: "('w slice, 'a) state \<Rightarrow> (('w, 'q) cycle, 'a) state" where
  "cycle_slice m = zoom cy_slice (\<lambda>x c. c\<lparr>cy_slice := x\<rparr>) m"

definition cycle_matcher :: "('w match_st, 'a) state \<Rightarrow> (('w, 'q) cycle, 'a) state" where
  "cycle_matcher m = zoom (\<lambda>c. (sl_env (cy_slice c), cy_process_cache c))
     (\<lambda>(e, p) c. c\<lparr>cy_slice := (cy_slice c)\<lparr>sl_env := e\<rparr>, cy_process_cache := p\<rparr>) m"

definition request_full_scan :: "(('w, 'q) cycle, unit) state" where
  "request_full_scan = modify (\<lambda>c. c\<lparr>cy_rescan_needed := True\<rparr>)"

definition start_budget :: "'w os \<Rightarrow> int \<Rightarrow> SchedConfig \<Rightarrow> (('w, 'q) cycle, unit) state" where
  "start_budget os budget_us cfg = do {
     b \<leftarrow> file_layer (new_budget os budget_us (sc_scan_batch_size cfg) (sc_scan_batch_yield_us cfg));
     modify (\<lambda>c. c\<lparr>cy_slice := (cy_slice c)\<lparr>sl_budget := b\<rparr>\<rparr>) }"

text \<open>
  A dispatch runs on the slice, the workers and the rescan flag of the cycle, with a cursor and a set of
  processed threads that are its members in a full cycle and locals elsewhere.
\<close>

definition scanner_view :: "ScanCursor \<Rightarrow> int set \<Rightarrow> ('w, 'q) cycle \<Rightarrow> ('w, 'q) scanner" where
  "scanner_view cursor processed c = \<lparr>sn_slice = cy_slice c, sn_workers = cy_workers c, sn_cursor = cursor,
     sn_processed_tids = processed, sn_full_rescan_needed = cy_rescan_needed c\<rparr>"

definition scanner_put :: "('w, 'q) scanner \<Rightarrow> ('w, 'q) cycle \<Rightarrow> ('w, 'q) cycle" where
  "scanner_put s c = c\<lparr>cy_slice := sn_slice s, cy_workers := sn_workers s,
     cy_rescan_needed := sn_full_rescan_needed s\<rparr>"

subsection \<open>A full cycle\<close>

definition in_full_cycle ::
  "(('w, 'q) cycle \<Rightarrow> ScanCursor) \<Rightarrow> (ScanCursor \<Rightarrow> ('w, 'q) cycle \<Rightarrow> ('w, 'q) cycle) \<Rightarrow>
   (('w, 'q) scanner, 'a) state \<Rightarrow> (('w, 'q) cycle, 'a) state" where
  "in_full_cycle cur set_cur m = zoom (\<lambda>c. scanner_view (cur c) (cy_processed_tids c) c)
     (\<lambda>s c. set_cur (sn_cursor s) ((scanner_put s c)\<lparr>cy_processed_tids := sn_processed_tids s\<rparr>)) m"

text \<open>The \<open>switch\<close> over the phases.\<close>

definition dispatch_phase :: "'w os \<Rightarrow> 'q pool \<Rightarrow> nat \<Rightarrow> (('w, 'q) cycle, bool) state" where
  "dispatch_phase os pool phase = do {
     c \<leftarrow> gets id;
     (if phase = 0
      then in_full_cycle cy_top_cursor (\<lambda>x. cy_top_cursor_update (\<lambda>_. x))
        (dispatch_top_app_to_workers os pool (cy_top_app c))
      else if phase = 1
      then in_full_cycle cy_pinned_cursor (\<lambda>x. cy_pinned_cursor_update (\<lambda>_. x))
        (dispatch_pinned_to_workers os pool (cy_pinned c))
      else if phase = 2
      then in_full_cycle cy_topfore_cursor (\<lambda>x. cy_topfore_cursor_update (\<lambda>_. x))
        (dispatch_topfore_to_workers os pool (cy_topfore c))
      else if phase = 3
      then in_full_cycle cy_foreground_cursor (\<lambda>x. cy_foreground_cursor_update (\<lambda>_. x))
        (dispatch_foreground_to_workers os pool (cy_foreground c))
      else if phase = 4
      then in_full_cycle cy_background_cursor (\<lambda>x. cy_background_cursor_update (\<lambda>_. x))
        (dispatch_background_to_workers os pool (cy_background c))
      else State_Monad.return False) }"

text \<open>
  The loop over the phases; the argument counts the phases that are left, and the value is
  \<open>scan_incomplete\<close>. The condition looks at the clock before it looks at the phase.
\<close>

fun dispatch_phases :: "'w os \<Rightarrow> 'q pool \<Rightarrow> nat \<Rightarrow> (('w, 'q) cycle, bool) state" where
  "dispatch_phases os pool 0 = do { _ \<leftarrow> cycle_slice (exhausted os); State_Monad.return False }"
| "dispatch_phases os pool (Suc n) = do {
     out \<leftarrow> cycle_slice (exhausted os);
     if out then State_Monad.return False
     else do {
       phase \<leftarrow> gets cy_phase;
       incomplete \<leftarrow> dispatch_phase os pool phase;
       if incomplete then State_Monad.return True
       else do {
         modify (\<lambda>c. c\<lparr>cy_phase := cy_phase c + 1\<rparr>);
         dispatch_phases os pool n } } }"

definition reset_cursors :: "('w, 'q) cycle \<Rightarrow> ('w, 'q) cycle" where
  "reset_cursors c = c\<lparr>cy_top_cursor := reset_cursor, cy_pinned_cursor := reset_cursor,
     cy_topfore_cursor := reset_cursor, cy_foreground_cursor := reset_cursor,
     cy_background_cursor := reset_cursor\<rparr>"

definition start_cycle :: "('w, 'q) cycle \<Rightarrow> ('w, 'q) cycle" where
  "start_cycle c =
     (if cy_active c then c
      else (reset_cursors c)\<lparr>cy_active := True, cy_phase := 0,
        cy_scan := begin_scan (cy_cache c) (cy_process_states c), cy_processed_tids := {}\<rparr>)"

text \<open>What the end of the full scan publishes.\<close>

definition publish_scan :: "('w, 'q) cycle \<Rightarrow> ('w, 'q) cycle" where
  "publish_scan c =
     (let f = cy_scan c;
          (cache, pinned, topfore, pinned_pids, topfore_pids) = cleanup_dead_pids (fs_dead_pids f)
            (cy_cache c, fs_pinned_pids f, fs_topfore_pids f, fs_pinned_pids f, fs_topfore_pids f)
      in c\<lparr>cy_cache := cache, cy_pinned := pinned, cy_topfore := topfore,
           cy_top_app := fs_top_app_pids f, cy_foreground := fs_foreground_pids f,
           cy_background := fs_background_pids f, cy_process_states := fs_observed_states f,
           cy_scan := f\<lparr>fs_pinned_pids := pinned_pids, fs_topfore_pids := topfore_pids, fs_active := False\<rparr>\<rparr>)"

definition scan_step ::
  "'w os \<Rightarrow> (string \<Rightarrow> nat) \<Rightarrow> 'r regex_lib \<Rightarrow> 'r matcher \<Rightarrow> ('w, 'q) cycle \<Rightarrow> ('w, 'q) cycle option" where
  "scan_step os hash rx m c =
     (if \<not> fs_active (cy_scan c) then Some c
      else case advance_full_scan os hash rx m \<lparr>ss_slice = cy_slice c, ss_process_cache = cy_process_cache c,
            ss_cache = cy_cache c, ss_scan = cy_scan c\<rparr> of
          None \<Rightarrow> None
        | Some (complete, s) \<Rightarrow>
            (let c1 = c\<lparr>cy_slice := ss_slice s, cy_process_cache := ss_process_cache s,
                        cy_cache := ss_cache s, cy_scan := ss_scan s\<rparr>
             in Some (if complete then publish_scan c1 else c1\<lparr>cy_rescan_needed := True\<rparr>)))"

definition finish_cycle :: "'w os \<Rightarrow> int \<Rightarrow> (('w, 'q) cycle, unit) state" where
  "finish_cycle os refresh_ms = do {
     modify (\<lambda>c. c\<lparr>cy_active := False, cy_phase := 0, cy_scan := reset_scan, cy_processed_tids := {}\<rparr>);
     now \<leftarrow> file_layer (sys (os_now os));
     modify (\<lambda>c. c\<lparr>cy_next_full_scan := now + refresh_ms * 1000000\<rparr>) }"

definition dispatch_and_finish :: "'w os \<Rightarrow> 'q pool \<Rightarrow> int \<Rightarrow> (('w, 'q) cycle, unit) state" where
  "dispatch_and_finish os pool refresh_ms = do {
     scanning \<leftarrow> gets (\<lambda>c. fs_active (cy_scan c));
     if scanning then request_full_scan
     else do {
       left \<leftarrow> gets (\<lambda>c. 5 - cy_phase c);
       incomplete \<leftarrow> dispatch_phases os pool left;
       if incomplete then request_full_scan
       else do {
         out \<leftarrow> cycle_slice (exhausted os);
         phase \<leftarrow> gets cy_phase;
         if out \<or> phase < 5 then request_full_scan else finish_cycle os refresh_ms } } }"

definition full_tick ::
  "'w os \<Rightarrow> (string \<Rightarrow> nat) \<Rightarrow> 'r regex_lib \<Rightarrow> 'r matcher \<Rightarrow> 'q pool \<Rightarrow> SchedConfig \<Rightarrow> int \<Rightarrow> ('w, 'q) cycle
     \<Rightarrow> ('w, 'q) cycle option" where
  "full_tick os hash rx m pool cfg refresh_ms c =
     (case run_state (start_budget os (sc_full_scan_budget_us cfg) cfg) c of (_, c1) \<Rightarrow>
       (case scan_step os hash rx m (start_cycle c1) of
          None \<Rightarrow> None
        | Some c2 \<Rightarrow> Some (snd (run_state (dispatch_and_finish os pool refresh_ms) c2))))"

subsection \<open>The fast tick\<close>

definition in_fast_tick ::
  "(('w, 'q) cycle \<Rightarrow> ScanCursor) \<Rightarrow> (ScanCursor \<Rightarrow> ('w, 'q) cycle \<Rightarrow> ('w, 'q) cycle) \<Rightarrow>
   (('w, 'q) scanner, 'a) state \<Rightarrow> (int set \<times> ('w, 'q) cycle, 'a) state" where
  "in_fast_tick cur set_cur m = zoom (\<lambda>(processed, c). scanner_view (cur c) processed c)
     (\<lambda>s (_, c). (sn_processed_tids s, set_cur (sn_cursor s) (scanner_put s c))) m"

definition fast_exhausted :: "'w os \<Rightarrow> (int set \<times> ('w, 'q) cycle, bool) state" where
  "fast_exhausted os = zoom snd (\<lambda>c (processed, _). (processed, c)) (cycle_slice (exhausted os))"

definition fast_dispatch :: "'w os \<Rightarrow> 'q pool \<Rightarrow> (int set \<times> ('w, 'q) cycle, unit) state" where
  "fast_dispatch os pool = do {
     c \<leftarrow> gets snd;
     stop1 \<leftarrow> in_fast_tick cy_top_cursor (\<lambda>x. cy_top_cursor_update (\<lambda>_. x))
       (dispatch_top_app_to_workers os pool (cy_top_app c));
     if stop1 then State_Monad.return ()
     else do {
       out1 \<leftarrow> fast_exhausted os;
       if out1 then State_Monad.return ()
       else do {
         stop2 \<leftarrow> in_fast_tick cy_pinned_cursor (\<lambda>x. cy_pinned_cursor_update (\<lambda>_. x))
           (dispatch_pinned_to_workers os pool (cy_pinned c));
         if stop2 then State_Monad.return ()
         else do {
           out2 \<leftarrow> fast_exhausted os;
           if out2 then State_Monad.return ()
           else do {
             _ \<leftarrow> in_fast_tick cy_topfore_cursor (\<lambda>x. cy_topfore_cursor_update (\<lambda>_. x))
               (dispatch_topfore_to_workers os pool (cy_topfore c));
             State_Monad.return () } } } } }"

definition fast_tick :: "'w os \<Rightarrow> 'q pool \<Rightarrow> SchedConfig \<Rightarrow> (('w, 'q) cycle, unit) state" where
  "fast_tick os pool cfg = do {
     start_budget os (sc_top_scan_budget_us cfg) cfg;
     State (\<lambda>c. case run_state (fast_dispatch os pool) ({}, c) of (_, (_, c1)) \<Rightarrow> ((), c1)) }"

text \<open>One round of the main loop under the lock: \<open>full_rescan_needed\<close> is exchanged with false.\<close>

definition scan_round ::
  "'w os \<Rightarrow> (string \<Rightarrow> nat) \<Rightarrow> 'r regex_lib \<Rightarrow> 'r matcher \<Rightarrow> 'q pool \<Rightarrow> SchedConfig \<Rightarrow> int \<Rightarrow> ('w, 'q) cycle
     \<Rightarrow> ('w, 'q) cycle option" where
  "scan_round os hash rx m pool cfg refresh_ms c =
     (case run_state (file_layer (sys (os_now os))) c of (now, c1) \<Rightarrow>
       (let c2 = c1\<lparr>cy_rescan_needed := False\<rparr>
        in if cy_rescan_needed c1 \<or> cy_next_full_scan c1 \<le> now
           then full_tick os hash rx m pool cfg refresh_ms c2
           else Some (snd (run_state (fast_tick os pool cfg) c2))))"

subsection \<open>Process events\<close>

definition forget_process :: "int \<Rightarrow> (('w, 'q) cycle, unit) state" where
  "forget_process pid = do {
     modify (\<lambda>c. c\<lparr>cy_cache := reset_for_pid pid (cy_cache c),
       cy_process_states := AList.delete pid (cy_process_states c)\<rparr>);
     file_layer (invalidate_process_caches pid) }"

definition forget_dead :: "int \<Rightarrow> (('w, 'q) cycle, unit) state" where
  "forget_dead pid = do {
     modify (\<lambda>c. c\<lparr>cy_cache := reset_for_pid pid (cy_cache c)\<rparr>);
     file_layer (invalidate_process_caches pid) }"

text \<open>The dispatch of one process works with a cursor and a set of processed threads of its own.\<close>

type_synonym ('w, 'q) incremental = "(ScanCursor \<times> int set) \<times> ('w, 'q) cycle"

definition in_local_scan :: "(('w, 'q) scanner, 'a) state \<Rightarrow> (('w, 'q) incremental, 'a) state" where
  "in_local_scan m = zoom (\<lambda>(l, c). scanner_view (fst l) (snd l) c)
     (\<lambda>s (_, c). ((sn_cursor s, sn_processed_tids s), scanner_put s c)) m"

definition in_cycle :: "(('w, 'q) cycle, 'a) state \<Rightarrow> (('w, 'q) incremental, 'a) state" where
  "in_cycle m = zoom snd (\<lambda>c (l, _). (l, c)) m"

definition process_state_of :: "CgroupState \<Rightarrow> ProcessState" where
  "process_state_of cg = (case cg of CTOP \<Rightarrow> TOP | CFG \<Rightarrow> FG | CBG \<Rightarrow> BG | COTHER \<Rightarrow> BG)"

definition dispatch_by_rule ::
  "'w os \<Rightarrow> 'q pool \<Rightarrow> int \<Rightarrow> ProcessState \<Rightarrow> MatchResult \<Rightarrow> bool \<Rightarrow> (('w, 'q) incremental, bool) state" where
  "dispatch_by_rule os pool pid actual_state result no_cmdline = do {
     has_baseline \<leftarrow> gets (\<lambda>s. has_baseline_for_pid pid (cy_cache (snd s)));
     (if \<not> mr_matched result then State_Monad.return False
      else if mr_pinned result then in_local_scan (dispatch_pinned_to_workers os pool {pid})
      else if mr_topfore result \<and> actual_state = FG
      then in_local_scan (dispatch_topfore_to_workers os pool {pid})
      else if actual_state = FG then in_local_scan (dispatch_foreground_to_workers os pool {pid})
      else if actual_state = BG \<and> should_dispatch_background_process result has_baseline no_cmdline
      then in_local_scan (dispatch_background_to_workers os pool {pid})
      else State_Monad.return False) }"

definition dispatch_new_process ::
  "'w os \<Rightarrow> (string \<Rightarrow> nat) \<Rightarrow> 'r regex_lib \<Rightarrow> 'r matcher \<Rightarrow> 'q pool \<Rightarrow> int \<Rightarrow> (('w, 'q) incremental, unit) state" where
  "dispatch_new_process os hash rx m pool pid = do {
     proc_name \<leftarrow> in_cycle (file_layer (get_process_name_from_status os pid));
     if proc_name = dead_name then State_Monad.return ()
     else do {
       cmdline \<leftarrow> in_cycle (file_layer (get_process_cmdline os pid));
       cg_state \<leftarrow> in_cycle (file_layer (get_cgroup_state os pid));
       let actual_state = process_state_of cg_state;
       initial_incomplete \<leftarrow> (if cg_state = CTOP
         then in_local_scan (dispatch_top_app_to_workers os pool {pid}) else State_Monad.return False);
       result \<leftarrow> in_cycle (cycle_matcher
         (match_process_only os hash rx m proc_name proc_name actual_state pid cmdline));
       rule_incomplete \<leftarrow> dispatch_by_rule os pool pid actual_state result (cmdline = []);
       if initial_incomplete \<or> rule_incomplete then in_cycle request_full_scan
       else State_Monad.return () } }"

definition handle_new_pid ::
  "'w os \<Rightarrow> (string \<Rightarrow> nat) \<Rightarrow> 'r regex_lib \<Rightarrow> 'r matcher \<Rightarrow> 'q pool \<Rightarrow> SchedConfig \<Rightarrow> int
     \<Rightarrow> (('w, 'q) cycle, unit) state" where
  "handle_new_pid os hash rx m pool cfg pid =
     (if pid \<le> 0 then State_Monad.return ()
      else do {
        forget_process pid;
        start_budget os (sc_top_scan_budget_us cfg) cfg;
        State (\<lambda>c. case run_state (dispatch_new_process os hash rx m pool pid) ((reset_cursor, {}), c) of
          (_, (_, c1)) \<Rightarrow> ((), c1)) })"

fun for_each_pid :: "(int \<Rightarrow> ('s, unit) state) \<Rightarrow> int list \<Rightarrow> ('s, unit) state" where
  "for_each_pid f [] = State_Monad.return ()"
| "for_each_pid f (pid # pids) = do { f pid; for_each_pid f pids }"

text \<open>The callback \<open>main\<close> gives to the event router.\<close>

definition handle_events ::
  "'w os \<Rightarrow> (string \<Rightarrow> nat) \<Rightarrow> 'r regex_lib \<Rightarrow> 'r matcher \<Rightarrow> 'q pool \<Rightarrow> SchedConfig \<Rightarrow>
   int set \<Rightarrow> int set \<Rightarrow> int set \<Rightarrow> bool \<Rightarrow> (('w, 'q) cycle, unit) state" where
  "handle_events os hash rx m pool cfg new_pids dead_pids recycled_pids events_dropped = do {
     (if events_dropped then request_full_scan else State_Monad.return ());
     for_each_pid forget_process (sorted_list_of_set recycled_pids);
     for_each_pid (handle_new_pid os hash rx m pool cfg) (sorted_list_of_set new_pids);
     for_each_pid forget_dead (sorted_list_of_set dead_pids) }"

subsection \<open>A full cycle offers each thread once, the more important states first\<close>

definition state_rank :: "ProcessState \<Rightarrow> nat" where
  "state_rank st = (case st of TOP \<Rightarrow> 0 | FG \<Rightarrow> 1 | BG \<Rightarrow> 2)"

definition in_rank_order :: "DispatchTask list \<Rightarrow> bool" where
  "in_rank_order ts \<longleftrightarrow> sorted_wrt (\<lambda>t u. state_rank (dt_state t) \<le> state_rank (dt_state u)) ts"

text \<open>What was offered after the tasks \<open>log0\<close>, in phases up to the rank \<open>r\<close>.\<close>

definition offers_in_order :: "DispatchTask list \<Rightarrow> nat \<Rightarrow> int set \<Rightarrow> DispatchTask list \<Rightarrow> bool" where
  "offers_in_order log0 r processed log \<longleftrightarrow>
     (\<exists>ts. log = log0 @ ts \<and> distinct (map dt_tid ts) \<and> processed = set (map dt_tid ts) \<and>
        in_rank_order ts \<and> (\<forall>t \<in> set ts. state_rank (dt_state t) \<le> r))"

lemma offers_in_order_mono: "offers_in_order log0 r processed log \<Longrightarrow> r \<le> r' \<Longrightarrow> offers_in_order log0 r' processed log"
  unfolding offers_in_order_def by (elim exE, rule exI) (auto intro: order_trans)

lemma offers_in_order_start: "offers_in_order log0 r {} log0"
  by (simp add: offers_in_order_def in_rank_order_def)

lemma offers_in_order_accepted:
  assumes "offers_in_order log0 (state_rank st) processed log" "task_fits pids st base t"
    and "dt_tid t \<notin> processed"
  shows "offers_in_order log0 (state_rank st) (insert (dt_tid t) processed) (log @ [t])"
proof -
  from assms(1) obtain ts where ts: "log = log0 @ ts" "distinct (map dt_tid ts)" "processed = set (map dt_tid ts)"
    "in_rank_order ts" "\<forall>t \<in> set ts. state_rank (dt_state t) \<le> state_rank st"
    by (auto simp: offers_in_order_def)
  have "dt_state t = st" using assms(2) by (simp add: task_fits_def)
  with ts assms(3) show ?thesis
    by (auto simp: offers_in_order_def in_rank_order_def sorted_wrt_append intro!: exI [of _ "ts @ [t]"])
qed

interpretation ordered: dispatch_monitor "offers_in_order log0 (state_rank st)" pids st base
  for log0 st pids base
  by unfold_locales (rule offers_in_order_accepted)

text \<open>The rank of the state a phase dispatches.\<close>

definition phase_rank :: "nat \<Rightarrow> nat" where
  "phase_rank phase = (if phase \<le> 2 then state_rank TOP else if phase = 3 then state_rank FG else state_rank BG)"

lemma phase_rank_mono: "phase_rank n \<le> phase_rank (Suc n)"
  by (auto simp: phase_rank_def state_rank_def)

definition cycle_offers_inv :: "DispatchTask list \<Rightarrow> ('w, 'q \<times> DispatchTask list) cycle \<Rightarrow> bool" where
  "cycle_offers_inv log0 c \<longleftrightarrow>
     offers_in_order log0 (phase_rank (cy_phase c)) (cy_processed_tids c) (snd (cy_workers c))"

lemma cycle_offers_frame [simp]:
  "cycle_offers_inv log0 (c\<lparr>cy_slice := x\<rparr>) = cycle_offers_inv log0 c"
  "cycle_offers_inv log0 (c\<lparr>cy_rescan_needed := b\<rparr>) = cycle_offers_inv log0 c"
  by (simp_all add: cycle_offers_inv_def)

lemma wp_in_full_cycle:
  assumes "monitored keep (scanner_view (cur c) (cy_processed_tids c) c)"
    and "wp m (\<lambda>b. monitored keep) (scanner_view (cur c) (cy_processed_tids c) c)"
    and "\<And>b s. monitored keep s \<Longrightarrow>
        Q b (set_cur (sn_cursor s) ((scanner_put s c)\<lparr>cy_processed_tids := sn_processed_tids s\<rparr>))"
  shows "wp (in_full_cycle cur set_cur m) Q c"
  unfolding in_full_cycle_def by (rule wp_zoom, rule wp_conseq [OF assms(2)]) (rule assms(3))

lemma wp_cycle_slice [wp_rules]: "(\<And>a x. Q a (c\<lparr>cy_slice := x\<rparr>)) \<Longrightarrow> wp (cycle_slice m) Q c"
  unfolding cycle_slice_def by (rule wp_zoom) (simp add: wp_iff)

lemma wp_file_layer [wp_rules]:
  "(\<And>a e. Q a (c\<lparr>cy_slice := (cy_slice c)\<lparr>sl_env := e\<rparr>\<rparr>)) \<Longrightarrow> wp (file_layer m) Q c"
  unfolding file_layer_def by (rule wp_zoom) (simp add: wp_iff)

lemma wp_request_full_scan [wp_rules]: "Q () (c\<lparr>cy_rescan_needed := True\<rparr>) \<Longrightarrow> wp request_full_scan Q c"
  unfolding request_full_scan_def by (rule wp_modify)

lemma dispatch_phase_offers:
  assumes "cycle_offers_inv log0 c"
  shows "wp (dispatch_phase os (recorded_pool p) (cy_phase c))
    (\<lambda>b c'. cycle_offers_inv log0 c' \<and> cy_phase c' = cy_phase c \<and> cy_active c' = cy_active c) c"
proof -
  have start: "monitored (offers_in_order log0 (phase_rank (cy_phase c))) (scanner_view cu (cy_processed_tids c) c)"
    for cu using assms by (simp add: cycle_offers_inv_def monitored_def scanner_view_def)
  have walk: "wp (dispatch_pids_to_workers os (recorded_pool p) pids st base)
      (\<lambda>b. monitored (offers_in_order log0 (phase_rank (cy_phase c)))) (scanner_view cu (cy_processed_tids c) c)"
    if "phase_rank (cy_phase c) = state_rank st" for pids st base cu
    using ordered.dispatch_monitored start that by metis
  note phase = wp_in_full_cycle [OF start walk]
  show ?thesis
    unfolding dispatch_phase_def dispatch_top_app_to_workers_def dispatch_pinned_to_workers_def
      dispatch_topfore_to_workers_def dispatch_foreground_to_workers_def dispatch_background_to_workers_def
    using assms
    by (intro wp_bind wp_gets wp_if phase wp_return)
      (simp_all add: phase_rank_def cycle_offers_inv_def monitored_def scanner_put_def)
qed

lemma dispatch_phases_offers:
  assumes "cycle_offers_inv log0 c"
  shows "wp (dispatch_phases os (recorded_pool p) n)
    (\<lambda>b c'. cycle_offers_inv log0 c' \<and> cy_active c' = cy_active c) c"
  using assms
proof (induction n arbitrary: c)
  case 0
  then show ?case unfolding dispatch_phases.simps by (intro wp_rules) simp_all
next
  case (Suc n)
  have next_phase: "wp (dispatch_phases os (recorded_pool p) n)
      (\<lambda>b c'. cycle_offers_inv log0 c' \<and> cy_active c' = cy_active c) (c1\<lparr>cy_phase := cy_phase c1 + 1\<rparr>)"
    if "cycle_offers_inv log0 c1" "cy_active c1 = cy_active c" for c1
    using Suc.IH [of "c1\<lparr>cy_phase := cy_phase c1 + 1\<rparr>"] that offers_in_order_mono phase_rank_mono
    by (simp add: cycle_offers_inv_def)
  show ?case
    unfolding dispatch_phases.simps
    by (intro wp_bind wp_cycle_slice wp_if wp_return wp_modify wp_gets
        wp_conseq [OF dispatch_phase_offers [of log0]] next_phase)
      (use Suc.prems in simp_all)
qed

lemma dispatch_and_finish_offers:
  assumes "cycle_offers_inv log0 c"
  shows "wp (dispatch_and_finish os (recorded_pool p) refresh_ms)
    (\<lambda>_ c'. (\<exists>r processed. offers_in_order log0 r processed (snd (cy_workers c'))) \<and>
       (cy_active c' \<longrightarrow> cycle_offers_inv log0 c')) c"
proof -
  note log = cycle_offers_inv_def [THEN iffD1]
  show ?thesis
    unfolding dispatch_and_finish_def finish_cycle_def
    by (intro wp_bind wp_gets wp_if wp_request_full_scan, use assms in \<open>auto dest: log\<close>)
      (rule wp_conseq [OF dispatch_phases_offers [OF assms]], intro wp_rules; auto dest: log)
qed

text \<open>
  \<open>cycle_run c0 c\<close>: from \<open>c0\<close>, where a cycle begins, to \<open>c\<close> after some of its ticks. Between two ticks
  anything may happen that leaves the cycle's own records and the log of what it offered alone: events
  are handled, the workers take tasks, time passes.
\<close>

definition same_cycle :: "('w, 'q \<times> DispatchTask list) cycle \<Rightarrow> ('w, 'q \<times> DispatchTask list) cycle \<Rightarrow> bool" where
  "same_cycle c c1 \<longleftrightarrow> cy_active c1 = cy_active c \<and> cy_phase c1 = cy_phase c \<and>
     cy_processed_tids c1 = cy_processed_tids c \<and> snd (cy_workers c1) = snd (cy_workers c)"

inductive cycle_run ::
  "'w os \<Rightarrow> (string \<Rightarrow> nat) \<Rightarrow> 'r regex_lib \<Rightarrow> 'r matcher \<Rightarrow> 'q pool \<Rightarrow> SchedConfig \<Rightarrow> int \<Rightarrow>
   ('w, 'q \<times> DispatchTask list) cycle \<Rightarrow> ('w, 'q \<times> DispatchTask list) cycle \<Rightarrow> bool"
  for os hash rx m p cfg refresh_ms c0 where
  cycle_first: "\<not> cy_active c0 \<Longrightarrow> full_tick os hash rx m (recorded_pool p) cfg refresh_ms c0 = Some c \<Longrightarrow>
    cycle_run os hash rx m p cfg refresh_ms c0 c"
| cycle_next: "cycle_run os hash rx m p cfg refresh_ms c0 c \<Longrightarrow> cy_active c \<Longrightarrow> same_cycle c c1 \<Longrightarrow>
    full_tick os hash rx m (recorded_pool p) cfg refresh_ms c1 = Some c2 \<Longrightarrow>
    cycle_run os hash rx m p cfg refresh_ms c0 c2"

lemma start_budget_frame:
  "run_state (start_budget os b cfg) c = ((), c\<lparr>cy_slice := cy_slice (snd (run_state (start_budget os b cfg) c))\<rparr>)"
  by (simp add: start_budget_def file_layer_def split: prod.splits)

lemma publish_scan_frame [simp]:
  "cy_workers (publish_scan c) = cy_workers c" "cy_phase (publish_scan c) = cy_phase c"
  "cy_active (publish_scan c) = cy_active c" "cy_processed_tids (publish_scan c) = cy_processed_tids c"
  by (simp_all add: publish_scan_def Let_def split: prod.splits)

lemma scan_step_offers:
  assumes "scan_step os hash rx m c = Some c'" "cycle_offers_inv log0 c"
  shows "cycle_offers_inv log0 c'"
  using assms by (auto simp: scan_step_def cycle_offers_inv_def Let_def split: if_splits option.splits prod.splits)

lemma start_cycle_offers:
  assumes "cy_active c \<Longrightarrow> cycle_offers_inv log0 c" "\<not> cy_active c \<Longrightarrow> snd (cy_workers c) = log0"
  shows "cycle_offers_inv log0 (start_cycle c)"
  using assms offers_in_order_start
  by (auto simp: start_cycle_def cycle_offers_inv_def reset_cursors_def)

lemma full_tick_offers:
  assumes "full_tick os hash rx m (recorded_pool p) cfg refresh_ms c = Some c'"
    and "cy_active c \<Longrightarrow> cycle_offers_inv log0 c" "\<not> cy_active c \<Longrightarrow> snd (cy_workers c) = log0"
  shows "(\<exists>r processed. offers_in_order log0 r processed (snd (cy_workers c'))) \<and>
    (cy_active c' \<longrightarrow> cycle_offers_inv log0 c')"
proof -
  obtain c1 x where c1: "run_state (start_budget os (sc_full_scan_budget_us cfg) cfg) c = ((), c1)"
    "c1 = c\<lparr>cy_slice := x\<rparr>" using start_budget_frame by blast
  obtain c2 where c2: "scan_step os hash rx m (start_cycle c1) = Some c2"
    "c' = snd (run_state (dispatch_and_finish os (recorded_pool p) refresh_ms) c2)"
    using assms(1) c1(1) by (auto simp: full_tick_def split: option.splits)
  have "cycle_offers_inv log0 (start_cycle c1)"
    by (rule start_cycle_offers) (use assms(2,3) c1(2) in simp_all)
  from scan_step_offers [OF c2(1) this] have "cycle_offers_inv log0 c2" .
  from wp_run [OF dispatch_and_finish_offers [OF this], of os p refresh_ms "()" c'] c2(2) show ?thesis
    by (metis (full_types) old.unit.exhaust prod.collapse)
qed

lemma cycle_offers:
  assumes "cycle_run os hash rx m p cfg refresh_ms c0 c"
  shows "(\<exists>r processed. offers_in_order (snd (cy_workers c0)) r processed (snd (cy_workers c))) \<and>
    (cy_active c \<longrightarrow> cycle_offers_inv (snd (cy_workers c0)) c)"
  using assms
proof (induction rule: cycle_run.induct)
  case (cycle_first c)
  then show ?case using full_tick_offers by blast
next
  case (cycle_next c c1 c2)
  have "cy_active c1" "cycle_offers_inv (snd (cy_workers c0)) c1"
    using cycle_next by (simp_all add: same_cycle_def cycle_offers_inv_def)
  with full_tick_offers [OF cycle_next.hyps(4)] show ?case by blast
qed

subsection \<open>A tick returns, and a cycle that is not complete asks for its next tick\<close>

text \<open>The records of a cycle that has ended.\<close>

definition cycle_over :: "('w, 'q) cycle \<Rightarrow> bool" where
  "cycle_over c \<longleftrightarrow> \<not> cy_active c \<and> cy_phase c = 0 \<and> cy_scan c = reset_scan \<and> cy_processed_tids c = {}"

lemma wp_any: "(\<And>a s'. Q a s') \<Longrightarrow> wp m Q s"
  by (simp add: wp_iff)

lemma in_full_cycle_active:
  assumes "\<And>x c. cy_active (set_cur x c) = cy_active c"
  shows "keeps cy_active (in_full_cycle cur set_cur m)"
  unfolding in_full_cycle_def by (rule keeps_zoom) (simp add: assms scanner_put_def)

lemma cycle_slice_active [keeps_rules]: "keeps cy_active (cycle_slice m)"
  unfolding cycle_slice_def by (rule keeps_zoom) simp

lemma dispatch_phases_active: "keeps cy_active (dispatch_phases os pool n)"
proof -
  have "keeps cy_active (dispatch_phase os pool phase)" for phase
    unfolding dispatch_phase_def by (intro keeps_rules in_full_cycle_active) simp_all
  moreover have "keeps cy_active (modify (\<lambda>c. c\<lparr>cy_phase := cy_phase c + 1\<rparr>))" by (simp add: keeps_def)
  ultimately show ?thesis
    by (induction n) (auto intro!: keeps_rules)
qed

lemma dispatch_and_finish_requests:
  assumes "cy_active c"
  shows "wp (dispatch_and_finish os pool refresh_ms)
    (\<lambda>_ c'. if cy_active c' then cy_rescan_needed c' else cycle_over c') c"
proof -
  have phases: "wp (dispatch_phases os pool n) Q c" if "\<And>b c'. cy_active c' \<Longrightarrow> Q b c'" for n Q
    unfolding wp_iff
    by (intro allI impI that) (use keepsD [OF dispatch_phases_active] assms in metis)
  show ?thesis
    unfolding dispatch_and_finish_def finish_cycle_def
    by (intro wp_bind wp_gets wp_if wp_request_full_scan phases wp_cycle_slice wp_modify wp_file_layer)
      (use assms in \<open>simp_all add: cycle_over_def\<close>)
qed

lemma start_cycle_active [simp]: "cy_active (start_cycle c)"
  by (simp add: start_cycle_def)

lemma full_tick_requests:
  assumes "clock_law os clk"
  shows "\<exists>c'. full_tick os hash rx m pool cfg refresh_ms c = Some c' \<and>
    (if cy_active c' then cy_rescan_needed c' else cycle_over c')"
proof -
  obtain c1 where c1: "run_state (start_budget os (sc_full_scan_budget_us cfg) cfg) c = ((), c1)"
    using start_budget_frame by blast
  have "\<exists>c2. scan_step os hash rx m (start_cycle c1) = Some c2"
    using advance_full_scan_ends [OF assms, of hash rx m "\<lparr>ss_slice = cy_slice (start_cycle c1),
      ss_process_cache = cy_process_cache (start_cycle c1), ss_cache = cy_cache (start_cycle c1),
      ss_scan = cy_scan (start_cycle c1)\<rparr>"]
    by (auto simp: scan_step_def Let_def)
  then obtain c2 where c2: "scan_step os hash rx m (start_cycle c1) = Some c2" ..
  then have "cy_active c2"
    by (auto simp: scan_step_def Let_def split: if_splits option.splits prod.splits)
  from wp_run [OF dispatch_and_finish_requests [OF this], of os pool refresh_ms "()"] c1 c2 show ?thesis
    by (simp add: full_tick_def) (metis (full_types) old.unit.exhaust prod.collapse)
qed

subsection \<open>Events: what is named is forgotten, and nothing else\<close>

text \<open>A dispatch may request a full scan but never takes a request back (\<open>rescan.kept_dispatch\<close>).\<close>

definition offered_from :: "DispatchTask list \<Rightarrow> int set \<Rightarrow> DispatchTask list \<Rightarrow> bool" where
  "offered_from log0 pids log \<longleftrightarrow> (\<exists>ts. log = log0 @ ts \<and> (\<forall>t \<in> set ts. dt_pid t \<in> pids))"

lemma offered_from_refl [simp]: "offered_from log pids log"
  by (simp add: offered_from_def)

lemma offered_from_trans:
  "offered_from log0 A log1 \<Longrightarrow> offered_from log1 B log2 \<Longrightarrow> offered_from log0 (A \<union> B) log2"
  by (auto simp: offered_from_def)

interpretation confined: dispatch_monitor "\<lambda>_. offered_from log0 pids" pids st base for log0 pids st base
  by unfold_locales (auto simp: offered_from_def task_fits_def)

text \<open>From \<open>c\<close> to \<open>c'\<close>: which processes lost their threads, which their state, and which were dispatched.\<close>

definition after_events ::
  "int set \<Rightarrow> int set \<Rightarrow> int set \<Rightarrow> ('w, 'q \<times> DispatchTask list) cycle \<Rightarrow> ('w, 'q \<times> DispatchTask list) cycle \<Rightarrow> bool" where
  "after_events A B C c c' \<longleftrightarrow>
     cy_cache c' = umap_erase_if (\<lambda>key _. fst key \<in> A) (cy_cache c) \<and>
     (\<forall>p. map_of (cy_process_states c') p = (if p \<in> B then None else map_of (cy_process_states c) p)) \<and>
     offered_from (snd (cy_workers c)) C (snd (cy_workers c')) \<and> (cy_rescan_needed c \<longrightarrow> cy_rescan_needed c')"

lemma umap_erase_none [simp]: "umap_erase_if (\<lambda>_ _. False) m = m"
  by (simp add: umap_erase_if_def case_prod_unfold)

lemma umap_erase_erase:
  "umap_erase_if P (umap_erase_if Q m) = umap_erase_if (\<lambda>k v. P k v \<or> Q k v) m"
  by (induction m) auto

lemma after_events_refl [simp]: "after_events {} {} {} c c"
  by (simp add: after_events_def)

lemma after_events_trans:
  "after_events A B C c c1 \<Longrightarrow> after_events A' B' C' c1 c2 \<Longrightarrow> after_events (A \<union> A') (B \<union> B') (C \<union> C') c c2"
  unfolding after_events_def by (auto simp: umap_erase_erase disj_commute intro: offered_from_trans)

lemma after_events_frame [simp]:
  "after_events A B C c (c'\<lparr>cy_slice := x\<rparr>) = after_events A B C c c'"
  "after_events A B C c (c'\<lparr>cy_process_cache := y\<rparr>) = after_events A B C c c'"
  by (simp_all add: after_events_def)

lemma after_events_frame_from [simp]: "after_events A B C (c\<lparr>cy_slice := x\<rparr>) c' = after_events A B C c c'"
  by (simp add: after_events_def)

lemma after_events_request: "after_events A B C c c' \<Longrightarrow> after_events A B C c (c'\<lparr>cy_rescan_needed := True\<rparr>)"
  by (simp add: after_events_def)

lemma wp_forget_process: "wp (forget_process pid) (\<lambda>_. after_events {pid} {pid} {} c) c"
  unfolding forget_process_def
  by (intro wp_rules) (simp add: after_events_def reset_for_pid_def)

lemma wp_forget_dead: "wp (forget_dead pid) (\<lambda>_. after_events {pid} {} {} c) c"
  unfolding forget_dead_def
  by (intro wp_rules) (simp add: after_events_def reset_for_pid_def)

lemma kept_in_cycle:
  assumes "inv_kept P m"
  shows "inv_kept (\<lambda>s. P (snd s)) (in_cycle m)"
  unfolding in_cycle_def using assms by (auto simp: inv_kept_def hoare_def split: prod.splits)

lemma kept_file_layer:
  "inv_kept (after_events A B C c) (file_layer m)" "inv_kept (after_events A B C c) (cycle_matcher n)"
  unfolding file_layer_def cycle_matcher_def
  by (auto simp: inv_kept_def hoare_def split: prod.splits)

lemma kept_request: "inv_kept (after_events A B C c) request_full_scan"
  unfolding request_full_scan_def by (auto simp: inv_kept_def hoare_def after_events_request)

lemma kept_local_dispatch:
  "inv_kept (\<lambda>s. after_events {} {} pids c (snd s))
    (in_local_scan (dispatch_pids_to_workers os (recorded_pool p) pids st base))"
proof (rule inv_keptI)
  fix s b s'
  assume before: "after_events {} {} pids c (snd s)"
    and run: "run_state (in_local_scan (dispatch_pids_to_workers os (recorded_pool p) pids st base)) s = (b, s')"
  let ?v = "scanner_view (fst (fst s)) (snd (fst s)) (snd s)"
  obtain t where t: "run_state (dispatch_pids_to_workers os (recorded_pool p) pids st base) ?v = (b, t)"
    "snd s' = scanner_put t (snd s)"
    using run by (auto simp: in_local_scan_def split: prod.splits)
  have "monitored (\<lambda>_. offered_from (snd (cy_workers c)) pids) ?v"
    using before by (simp add: monitored_def scanner_view_def after_events_def)
  from wp_run [OF confined.dispatch_monitored [OF this] t(1)]
  have offered: "offered_from (snd (cy_workers c)) pids (snd (sn_workers t))" by (simp add: monitored_def)
  have "sn_full_rescan_needed t" if "cy_rescan_needed (snd s)"
    using inv_keptD [OF rescan.kept_dispatch _ t(1)] that by (simp add: scanner_view_def)
  with before offered t(2) show "after_events {} {} pids c (snd s')"
    by (simp add: after_events_def scanner_put_def)
qed

lemma kept_new_process:
  "inv_kept (\<lambda>s. after_events {} {} {pid} c (snd s)) (dispatch_new_process os hash rx m (recorded_pool p) pid)"
proof -
  have rule: "inv_kept (\<lambda>s. after_events {} {} {pid} c (snd s))
      (dispatch_by_rule os (recorded_pool p) pid st result no_cmdline)" for st result no_cmdline
    unfolding dispatch_by_rule_def dispatch_pinned_to_workers_def dispatch_topfore_to_workers_def
      dispatch_foreground_to_workers_def dispatch_background_to_workers_def
    by (intro hoare_rules kept_local_dispatch)
  show ?thesis
    unfolding dispatch_new_process_def dispatch_top_app_to_workers_def
    by (intro hoare_rules kept_local_dispatch rule kept_in_cycle kept_file_layer kept_request)
qed

lemma wp_start_budget: "(\<And>x. Q () (c\<lparr>cy_slice := x\<rparr>)) \<Longrightarrow> wp (start_budget os b cfg) Q c"
  using start_budget_frame [of os b cfg c] by (metis wp_iff prod.inject)

lemma wp_handle_new_pid:
  "wp (handle_new_pid os hash rx m (recorded_pool p) cfg pid)
     (\<lambda>_. after_events ({pid} \<inter> {0<..}) ({pid} \<inter> {0<..}) ({pid} \<inter> {0<..}) c) c"
proof (cases "pid \<le> 0")
  case True
  then show ?thesis by (simp add: handle_new_pid_def wp_def)
next
  case False
  have dispatch: "wp (State (\<lambda>c. case run_state (dispatch_new_process os hash rx m (recorded_pool p) pid)
        ((reset_cursor, {}), c) of (_, (_, c1)) \<Rightarrow> ((), c1))) (\<lambda>_. after_events {} {} {pid} c1) c1" for c1
  proof -
    obtain u l c2 where run: "run_state (dispatch_new_process os hash rx m (recorded_pool p) pid)
        ((reset_cursor, {}), c1) = (u, (l, c2))" by (metis surj_pair)
    have "after_events {} {} {pid} c1 c1" by (simp add: after_events_def)
    with inv_keptD [OF kept_new_process _ run] have "after_events {} {} {pid} c1 c2" by simp
    with run show ?thesis by (simp add: wp_def)
  qed
  have "after_events {pid} {pid} {pid} c c3" if "after_events {pid} {pid} {} c c1" "after_events {} {} {pid} c1 c3"
    for c1 c3 using after_events_trans [OF that] by simp
  with False show ?thesis
    unfolding handle_new_pid_def
    by (auto intro!: wp_bind wp_conseq [OF wp_forget_process] wp_start_budget wp_conseq [OF dispatch])
qed

lemma wp_for_each_pid:
  assumes "\<And>pid c. wp (f pid) (\<lambda>_. after_events (A pid) (B pid) (C pid) c) c"
  shows "wp (for_each_pid f pids)
    (\<lambda>_. after_events (\<Union> (A ` set pids)) (\<Union> (B ` set pids)) (\<Union> (C ` set pids)) c) c"
proof (induction pids arbitrary: c)
  case Nil
  then show ?case by (simp add: wp_def)
next
  case (Cons pid pids)
  show ?case
    unfolding for_each_pid.simps
    by (rule wp_bind, rule wp_conseq [OF assms], rule wp_conseq [OF Cons.IH])
      (simp add: after_events_trans)
qed

lemma events_forget:
  assumes "finite new_pids" "finite dead_pids" "finite recycled_pids"
  shows "wp (handle_events os hash rx m (recorded_pool p) cfg new_pids dead_pids recycled_pids dropped)
    (\<lambda>_ c'. after_events (recycled_pids \<union> (new_pids \<inter> {0<..}) \<union> dead_pids)
       (recycled_pids \<union> (new_pids \<inter> {0<..})) (new_pids \<inter> {0<..}) c c' \<and> (dropped \<longrightarrow> cy_rescan_needed c')) c"
proof -
  define c1 where "c1 = (if dropped then c\<lparr>cy_rescan_needed := True\<rparr> else c)"
  have start: "after_events {} {} {} c c1" "dropped \<Longrightarrow> cy_rescan_needed c1"
    by (auto simp: c1_def after_events_request)
  have union: "(\<Union>pid \<in> S. {pid} \<inter> {0<..}) = S \<inter> {0<..}" for S :: "int set" by auto
  have recycled: "wp (for_each_pid forget_process (sorted_list_of_set recycled_pids))
      (\<lambda>_. after_events recycled_pids recycled_pids {} c') c'" for c' :: "('w, 'q \<times> DispatchTask list) cycle"
    using wp_for_each_pid [where f = forget_process and A = "\<lambda>p. {p}" and B = "\<lambda>p. {p}" and C = "\<lambda>p. {}"
      and pids = "sorted_list_of_set recycled_pids" and c = c', OF wp_forget_process] assms by simp
  have new: "wp (for_each_pid (handle_new_pid os hash rx m (recorded_pool p) cfg) (sorted_list_of_set new_pids))
      (\<lambda>_. after_events (new_pids \<inter> {0<..}) (new_pids \<inter> {0<..}) (new_pids \<inter> {0<..}) c') c'" for c'
    using wp_for_each_pid [where f = "handle_new_pid os hash rx m (recorded_pool p) cfg" and A = "\<lambda>p. {p} \<inter> {0<..}"
      and B = "\<lambda>p. {p} \<inter> {0<..}" and C = "\<lambda>p. {p} \<inter> {0<..}" and pids = "sorted_list_of_set new_pids"
      and c = c', OF wp_handle_new_pid] assms
    by (simp add: union)
  have dead: "wp (for_each_pid forget_dead (sorted_list_of_set dead_pids))
      (\<lambda>_. after_events dead_pids {} {} c') c'" for c' :: "('w, 'q \<times> DispatchTask list) cycle"
    using wp_for_each_pid [where f = forget_dead and A = "\<lambda>p. {p}" and B = "\<lambda>p. {}" and C = "\<lambda>p. {}"
      and pids = "sorted_list_of_set dead_pids" and c = c', OF wp_forget_dead] assms by simp
  have all: "after_events (recycled_pids \<union> (new_pids \<inter> {0<..}) \<union> dead_pids)
       (recycled_pids \<union> (new_pids \<inter> {0<..})) (new_pids \<inter> {0<..}) c c4 \<and> (dropped \<longrightarrow> cy_rescan_needed c4)"
    if "after_events recycled_pids recycled_pids {} c1 c2"
      "after_events (new_pids \<inter> {0<..}) (new_pids \<inter> {0<..}) (new_pids \<inter> {0<..}) c2 c3"
      "after_events dead_pids {} {} c3 c4" for c2 c3 c4
  proof -
    from after_events_trans [OF after_events_trans [OF that(1,2)] that(3)]
    have run: "after_events (recycled_pids \<union> (new_pids \<inter> {0<..}) \<union> dead_pids)
       (recycled_pids \<union> (new_pids \<inter> {0<..})) (new_pids \<inter> {0<..}) c1 c4" by simp
    from after_events_trans [OF start(1) run] run start(2) show ?thesis by (simp add: after_events_def)
  qed
  have rest: "wp (do {
      for_each_pid forget_process (sorted_list_of_set recycled_pids);
      for_each_pid (handle_new_pid os hash rx m (recorded_pool p) cfg) (sorted_list_of_set new_pids);
      for_each_pid forget_dead (sorted_list_of_set dead_pids) })
    (\<lambda>_ c4. after_events (recycled_pids \<union> (new_pids \<inter> {0<..}) \<union> dead_pids)
       (recycled_pids \<union> (new_pids \<inter> {0<..})) (new_pids \<inter> {0<..}) c c4 \<and> (dropped \<longrightarrow> cy_rescan_needed c4)) c1"
    by (rule wp_bind, rule wp_conseq [OF recycled], rule wp_bind, rule wp_conseq [OF new],
        rule wp_conseq [OF dead]) (rule all)
  show ?thesis
    unfolding handle_events_def
    by (rule wp_bind) (use rest in \<open>simp add: c1_def wp_def request_full_scan_def split: if_splits\<close>)
qed

subsection \<open>What a round and a batch of events do to the workers\<close>

text \<open>A property of the workers that an offer keeps is kept by every operation of the cycle.\<close>

locale worker_invariant =
  fixes I :: "'q \<Rightarrow> bool" and pool :: "'q pool"
  assumes kept_enqueue: "I q \<Longrightarrow> pl_enqueue pool i t q = (r, q') \<Longrightarrow> I q'"
begin

sublocale scan: scanner_invariant "\<lambda>s. I (sn_workers s)" pool
  by unfold_locales (auto intro: kept_enqueue)

lemma kept_views:
  "inv_kept (\<lambda>c. I (cy_workers c)) (file_layer m1)" "inv_kept (\<lambda>c. I (cy_workers c)) (cycle_slice m2)"
  "inv_kept (\<lambda>c. I (cy_workers c)) (cycle_matcher m3)" "inv_kept (\<lambda>c. I (cy_workers c)) request_full_scan"
  "inv_kept (\<lambda>c. I (cy_workers c)) (start_budget os b cfg)"
  "inv_kept (\<lambda>c. I (cy_workers c)) (forget_process pid)" "inv_kept (\<lambda>c. I (cy_workers c)) (forget_dead pid)"
  unfolding start_budget_def forget_process_def forget_dead_def file_layer_def cycle_slice_def cycle_matcher_def
    request_full_scan_def
  by (intro hoare_rules; auto)+

lemma kept_in_full_cycle:
  assumes "\<And>x c. cy_workers (set_cur x c) = cy_workers c"
  shows "inv_kept (\<lambda>c. I (cy_workers c)) (in_full_cycle cur set_cur (dispatch_pids_to_workers os pool pids st base))"
    and "inv_kept (\<lambda>s. I (cy_workers (snd s))) (in_fast_tick cur set_cur (dispatch_pids_to_workers os pool pids st base))"
  unfolding in_full_cycle_def in_fast_tick_def
  by (rule inv_keptI, use assms inv_keptD [OF scan.kept_dispatch] in
      \<open>force simp: scanner_view_def scanner_put_def split: prod.splits\<close>)+

lemma kept_in_local_scan:
  "inv_kept (\<lambda>s. I (cy_workers (snd s))) (in_local_scan (dispatch_pids_to_workers os pool pids st base))"
  unfolding in_local_scan_def
  by (rule inv_keptI, use inv_keptD [OF scan.kept_dispatch] in
      \<open>force simp: scanner_view_def scanner_put_def split: prod.splits\<close>)

lemma kept_phases: "inv_kept (\<lambda>c. I (cy_workers c)) (dispatch_phases os pool n)"
proof -
  have phase: "inv_kept (\<lambda>c. I (cy_workers c)) (dispatch_phase os pool phase)" for phase
    unfolding dispatch_phase_def dispatch_top_app_to_workers_def dispatch_pinned_to_workers_def
      dispatch_topfore_to_workers_def dispatch_foreground_to_workers_def dispatch_background_to_workers_def
    by (intro hoare_rules kept_in_full_cycle) simp_all
  have step: "inv_kept (\<lambda>c. I (cy_workers c)) (modify (\<lambda>c. c\<lparr>cy_phase := cy_phase c + 1\<rparr>))"
    by (rule hoare_rules) simp
  show ?thesis by (induction n) (auto intro!: hoare_rules kept_views phase step)
qed

lemma kept_finish: "inv_kept (\<lambda>c. I (cy_workers c)) (dispatch_and_finish os pool refresh_ms)"
  unfolding dispatch_and_finish_def finish_cycle_def
  by (intro hoare_rules kept_views kept_phases) simp_all

lemma kept_full_tick:
  assumes "full_tick os hash rx m pool cfg refresh_ms c = Some c'" "I (cy_workers c)"
  shows "I (cy_workers c')"
proof -
  obtain u c1 where c1: "run_state (start_budget os (sc_full_scan_budget_us cfg) cfg) c = (u, c1)"
    by (metis surj_pair)
  obtain c2 where c2: "scan_step os hash rx m (start_cycle c1) = Some c2"
    "c' = snd (run_state (dispatch_and_finish os pool refresh_ms) c2)"
    using assms(1) c1 by (auto simp: full_tick_def split: option.splits)
  have "I (cy_workers c1)" using inv_keptD [OF kept_views(5) _ c1] assms(2) .
  then have "I (cy_workers (start_cycle c1))" by (simp add: start_cycle_def reset_cursors_def)
  with c2(1) have "I (cy_workers c2)"
    by (auto simp: scan_step_def Let_def split: if_splits option.splits prod.splits)
  from inv_kept_snd [OF kept_finish this] c2(2) show ?thesis by simp
qed

lemma kept_fast_tick: "inv_kept (\<lambda>c. I (cy_workers c)) (fast_tick os pool cfg)"
proof -
  have out: "inv_kept (\<lambda>s. I (cy_workers (snd s))) (fast_exhausted os)"
    unfolding fast_exhausted_def using kept_views(2) by (force simp: inv_kept_def hoare_def split: prod.splits)
  have fast: "inv_kept (\<lambda>s. I (cy_workers (snd s))) (fast_dispatch os pool)"
    unfolding fast_dispatch_def dispatch_top_app_to_workers_def dispatch_pinned_to_workers_def
      dispatch_topfore_to_workers_def
    by (intro hoare_rules kept_in_full_cycle out) simp_all
  show ?thesis
    unfolding fast_tick_def
    by (intro hoare_rules kept_views, rule inv_keptI)
      (use inv_keptD [OF fast] in \<open>force split: prod.splits\<close>)
qed

lemma kept_scan_round:
  assumes "scan_round os hash rx m pool cfg refresh_ms c = Some c'" "I (cy_workers c)"
  shows "I (cy_workers c')"
proof -
  obtain now c1 where now: "run_state (file_layer (sys (os_now os))) c = (now, c1)" by (metis surj_pair)
  have kept: "I (cy_workers (c1\<lparr>cy_rescan_needed := False\<rparr>))" using inv_keptD [OF kept_views(1) _ now] assms(2) by simp
  show ?thesis
    using assms(1) now kept_full_tick [OF _ kept] inv_kept_snd [OF kept_fast_tick kept]
    by (simp add: scan_round_def Let_def split: if_splits) auto
qed

lemma kept_handle_events:
  "inv_kept (\<lambda>c. I (cy_workers c)) (handle_events os hash rx m pool cfg new_pids dead_pids recycled_pids dropped)"
proof -
  note views = kept_in_cycle [OF kept_views(1)] kept_in_cycle [OF kept_views(3)] kept_in_cycle [OF kept_views(4)]
  have rule: "inv_kept (\<lambda>s. I (cy_workers (snd s))) (dispatch_by_rule os pool pid st result no_cmdline)"
    for pid st result no_cmdline
    unfolding dispatch_by_rule_def dispatch_pinned_to_workers_def dispatch_topfore_to_workers_def
      dispatch_foreground_to_workers_def dispatch_background_to_workers_def
    by (intro hoare_rules kept_in_local_scan)
  have new: "inv_kept (\<lambda>s. I (cy_workers (snd s))) (dispatch_new_process os hash rx m pool pid)" for pid
    unfolding dispatch_new_process_def dispatch_top_app_to_workers_def
    by (intro hoare_rules kept_in_local_scan rule views)
  have handle: "inv_kept (\<lambda>c. I (cy_workers c)) (handle_new_pid os hash rx m pool cfg pid)" for pid
    unfolding handle_new_pid_def
    by (intro hoare_rules kept_views, rule inv_keptI) (use inv_keptD [OF new] in \<open>force split: prod.splits\<close>)
  have loop: "inv_kept (\<lambda>c. I (cy_workers c)) (for_each_pid f pids)"
    if "\<And>pid. inv_kept (\<lambda>c. I (cy_workers c)) (f pid)" for f :: "int \<Rightarrow> (('w, 'q) cycle, unit) state" and pids
    by (induction pids) (auto intro!: hoare_rules that)
  show ?thesis
    unfolding handle_events_def by (intro hoare_rules loop kept_views handle)
qed

end

end
