(* ===== verification/Launcher_Finder.thy ===== *)
theory Launcher_Finder
  imports Cxx_Text Thread_Matcher
begin

section \<open>Finding the launcher package (core/launcher\_finder.hpp)\<close>

text \<open>
  The launcher is asked from the package manager through a shell command whose output is read over a
  pipe with a deadline and a size limit. The calls that make and watch the child process are the
  parameter \<open>ch\<close>; what the child itself does between \<open>fork\<close> and \<open>exec\<close> is the start of
  another process and part of \<open>ch_fork\<close>. The loops are bounded by the deadline, so they are partial
  functions that end when the clock moves (\<open>execute_command_ends\<close>). Main result: whatever the
  command prints, \<open>launcher_find\<close> returns, and returns a valid package name (\<open>launcher_find_valid\<close>).
\<close>

subsection \<open>Package names\<close>

definition is_lower_alpha :: "char \<Rightarrow> bool" where
  "is_lower_alpha c \<longleftrightarrow> 97 \<le> (of_char c :: nat) \<and> (of_char c :: nat) \<le> 122"

definition is_upper_alpha :: "char \<Rightarrow> bool" where
  "is_upper_alpha c \<longleftrightarrow> 65 \<le> (of_char c :: nat) \<and> (of_char c :: nat) \<le> 90"

definition is_alpha :: "char \<Rightarrow> bool" where
  "is_alpha c \<longleftrightarrow> is_lower_alpha c \<or> is_upper_alpha c"

definition is_alnum :: "char \<Rightarrow> bool" where
  "is_alnum c \<longleftrightarrow> is_alpha c \<or> is_digit c"

definition to_lower :: "char \<Rightarrow> char" where
  "to_lower c = (if is_upper_alpha c then char_of (of_char c + 32 :: nat) else c)"

definition is_home_package :: "string \<Rightarrow> bool" where
  "is_home_package pkg \<longleftrightarrow>
     str_contains (map to_lower pkg) ''home'' \<or> str_contains (map to_lower pkg) ''launcher''"

fun package_chars :: "bool \<Rightarrow> bool \<Rightarrow> string \<Rightarrow> bool" where
  "package_chars segment_start has_separator [] = (has_separator \<and> \<not> segment_start)"
| "package_chars segment_start has_separator (c # cs) =
     (if c = CHR ''.'' then (if segment_start then False else package_chars True True cs)
      else if segment_start then (if \<not> is_alpha c then False else package_chars False has_separator cs)
      else if \<not> is_alnum c \<and> c \<noteq> CHR ''_'' then False
      else package_chars False has_separator cs)"

definition is_valid_package :: "string \<Rightarrow> bool" where
  "is_valid_package pkg \<longleftrightarrow>
     \<not> (pkg = [] \<or> 128 < length pkg \<or> hd pkg = CHR ''.'' \<or> last pkg = CHR ''.'') \<and>
     package_chars True False pkg"

subsection \<open>The child process\<close>

datatype poll_result = PollReady | PollTimeout | PollInterrupted | PollFailed

datatype read_result = ReadBytes char string | ReadEof | ReadAgain | ReadInterrupted | ReadFailed

datatype wait_result = ChildExited | ChildRunning | NoChild | WaitInterrupted | WaitFailed

text \<open>
  \<open>ch_read\<close> reads the non-blocking end of the pipe: what it delivers is never empty.
  \<open>ch_wait\<close> is \<open>waitpid\<close> with \<open>WNOHANG\<close>; \<open>ch_reap\<close> is the blocking \<open>waitpid\<close>, reissued while
  it fails with \<open>EINTR\<close>.
\<close>

record 'w child_os =
  ch_pipe :: "('w, (int \<times> int) option) state"
  ch_fork :: "string \<Rightarrow> int \<times> int \<Rightarrow> ('w, int) state"
  ch_setpgid :: "int \<Rightarrow> ('w, unit) state"
  ch_close :: "int \<Rightarrow> ('w, unit) state"
  ch_set_nonblock :: "int \<Rightarrow> ('w, bool) state"
  ch_now :: "('w, int) state"
  ch_poll :: "int \<Rightarrow> int \<Rightarrow> ('w, poll_result) state"
  ch_read :: "int \<Rightarrow> ('w, read_result) state"
  ch_wait :: "int \<Rightarrow> ('w, wait_result) state"
  ch_reap :: "int \<Rightarrow> ('w, unit) state"
  ch_kill :: "int \<Rightarrow> int \<Rightarrow> ('w, unit) state"
  ch_usleep :: "int \<Rightarrow> ('w, unit) state"

definition kMaxOutputSize :: int where "kMaxOutputSize = 64 * 1024"

definition SIGTERM :: int where "SIGTERM = 15"
definition SIGKILL :: int where "SIGKILL = 9"

fun reap_attempts :: "'w child_os \<Rightarrow> int \<Rightarrow> nat \<Rightarrow> ('w, bool) state" where
  "reap_attempts ch pid 0 = State_Monad.return False"
| "reap_attempts ch pid (Suc n) = do {
     r \<leftarrow> ch_wait ch pid;
     if r = ChildExited \<or> r = NoChild \<or> r = WaitFailed then State_Monad.return True
     else do { ch_usleep ch 10000; reap_attempts ch pid n } }"

definition terminate_child :: "'w child_os \<Rightarrow> int \<Rightarrow> ('w, unit) state" where
  "terminate_child ch pid = do {
     ch_kill ch (- pid) SIGTERM;
     gone \<leftarrow> reap_attempts ch pid 10;
     if gone then State_Monad.return ()
     else do { ch_kill ch (- pid) SIGKILL; ch_reap ch pid } }"

text \<open>The inner loop reads what there is; \<open>None\<close> is the end of the data for now.\<close>

datatype capture_end = TimedOut | OutputTooLarge | IoFailed | PipeClosed

partial_function (option) read_output ::
  "'w child_os \<Rightarrow> int \<Rightarrow> string \<Rightarrow> 'w \<Rightarrow> ((capture_end option \<times> string) \<times> 'w) option" where
  "read_output ch fd out w =
     (case run_state (ch_read ch fd) w of (r, w1) \<Rightarrow>
       (case r of
          ReadBytes c cs \<Rightarrow>
            if kMaxOutputSize < int (length out + length (c # cs)) then Some ((Some OutputTooLarge, out), w1)
            else read_output ch fd (out @ c # cs) w1
        | ReadEof \<Rightarrow> Some ((Some PipeClosed, out), w1)
        | ReadAgain \<Rightarrow> Some ((None, out), w1)
        | ReadInterrupted \<Rightarrow> read_output ch fd out w1
        | ReadFailed \<Rightarrow> Some ((Some PipeClosed, out), w1)))"

partial_function (option) capture_output ::
  "'w child_os \<Rightarrow> int \<Rightarrow> int \<Rightarrow> string \<Rightarrow> 'w \<Rightarrow> ((capture_end \<times> string) \<times> 'w) option" where
  "capture_output ch fd deadline out w =
     (case run_state (ch_now ch) w of (now, w1) \<Rightarrow>
       if deadline \<le> now then Some ((TimedOut, out), w1)
       else (case run_state (ch_poll ch fd ((deadline - now) div 1000000)) w1 of (r, w2) \<Rightarrow>
         (case r of
            PollTimeout \<Rightarrow> Some ((TimedOut, out), w2)
          | PollInterrupted \<Rightarrow> capture_output ch fd deadline out w2
          | PollFailed \<Rightarrow> Some ((IoFailed, out), w2)
          | PollReady \<Rightarrow> (case read_output ch fd out w2 of
                None \<Rightarrow> None
              | Some ((e, out1), w3) \<Rightarrow>
                  (case e of None \<Rightarrow> capture_output ch fd deadline out1 w3
                   | Some x \<Rightarrow> Some ((x, out1), w3))))))"

partial_function (option) await_child ::
  "'w child_os \<Rightarrow> int \<Rightarrow> int \<Rightarrow> 'w \<Rightarrow> (bool \<times> 'w) option" where
  "await_child ch pid deadline w =
     (case run_state (ch_wait ch pid) w of (r, w1) \<Rightarrow>
       (case r of
          ChildExited \<Rightarrow> Some (True, w1)
        | WaitInterrupted \<Rightarrow> await_child ch pid deadline w1
        | ChildRunning \<Rightarrow>
            (case run_state (ch_now ch) w1 of (now, w2) \<Rightarrow>
               if deadline \<le> now then Some (False, snd (run_state (terminate_child ch pid) w2))
               else await_child ch pid deadline (snd (run_state (ch_usleep ch 10000) w2)))
        | NoChild \<Rightarrow> Some (False, w1)
        | WaitFailed \<Rightarrow> Some (False, w1)))"

declare read_output.simps [code] capture_output.simps [code] await_child.simps [code]

definition strip_newlines :: "string \<Rightarrow> string" where
  "strip_newlines s = rev (dropWhile (\<lambda>c. c = NL \<or> c = CHR 0x0D) (rev s))"

definition read_child :: "'w child_os \<Rightarrow> int \<Rightarrow> int \<Rightarrow> int \<Rightarrow> 'w \<Rightarrow> (string \<times> 'w) option" where
  "read_child ch pid fd timeout_ms w =
     (case run_state (ch_now ch) w of (t0, w1) \<Rightarrow>
       (case capture_output ch fd (t0 + timeout_ms * 1000000) [] w1 of
          None \<Rightarrow> None
        | Some ((e, out), w2) \<Rightarrow>
           (case run_state (ch_close ch fd) w2 of (_, w3) \<Rightarrow>
             if e \<noteq> PipeClosed then Some ([], snd (run_state (terminate_child ch pid) w3))
             else (case await_child ch pid (t0 + timeout_ms * 1000000) w3 of
                 None \<Rightarrow> None
               | Some (exited, w4) \<Rightarrow> Some (if exited then strip_newlines out else [], w4)))))"

definition execute_command :: "'w child_os \<Rightarrow> string \<Rightarrow> int \<Rightarrow> 'w \<Rightarrow> (string \<times> 'w) option" where
  "execute_command ch cmd timeout_ms w =
     (case run_state (ch_pipe ch) w of
        (None, w1) \<Rightarrow> Some ([], w1)
      | (Some (rd, wr), w1) \<Rightarrow>
          (case run_state (ch_fork ch cmd (rd, wr)) w1 of (pid, w2) \<Rightarrow>
            if pid < 0
            then Some (run_state (do { ch_close ch rd; ch_close ch wr; State_Monad.return [] }) w2)
            else (case run_state (do { ch_setpgid ch pid; ch_close ch wr; ch_set_nonblock ch rd }) w2 of
                (nonblock, w3) \<Rightarrow>
                  if \<not> nonblock
                  then Some (run_state (do { ch_close ch rd; terminate_child ch pid; State_Monad.return [] }) w3)
                  else read_child ch pid rd timeout_ms w3)))"

subsection \<open>Choosing a launcher\<close>

definition package_of_line :: "string \<Rightarrow> string option" where
  "package_of_line line = (case str_find line ''packageName='' of
     None \<Rightarrow> None
   | Some pos \<Rightarrow> (let pkg = strip_newlines (drop (pos + 12) line)
       in if is_valid_package pkg then Some pkg else None))"

definition packages_in :: "string \<Rightarrow> string list" where
  "packages_in result = List.map_filter package_of_line (getlines NL result)"

definition starts_com_android :: "string \<Rightarrow> bool" where
  "starts_com_android pkg \<longleftrightarrow> str_starts pkg ''com.android''"

definition first_such :: "(string \<Rightarrow> bool) \<Rightarrow> string list \<Rightarrow> string" where
  "first_such P pkgs = (case find P pkgs of None \<Rightarrow> [] | Some pkg \<Rightarrow> pkg)"

definition choose_launcher :: "string list \<Rightarrow> string" where
  "choose_launcher candidates =
     (let non_com_android_home = first_such (\<lambda>p. is_home_package p \<and> \<not> starts_com_android p) candidates;
          com_android_home = first_such (\<lambda>p. is_home_package p \<and> starts_com_android p) candidates;
          other_pkg = first_such (\<lambda>p. \<not> is_home_package p) candidates
      in if non_com_android_home \<noteq> [] then non_com_android_home
         else if com_android_home \<noteq> [] then com_android_home
         else if other_pkg \<noteq> [] then other_pkg
         else ''com.miui.home'')"

definition resolve_command :: string where
  "resolve_command = ''cmd package resolve-activity -a android.intent.action.MAIN '' @
     ''-c android.intent.category.HOME 2>/dev/null | grep '' @ [CHR 0x27] @ ''packageName='' @ [CHR 0x27]"

definition query_command :: string where
  "query_command = ''cmd package query-activities -a android.intent.action.MAIN '' @
     ''-c android.intent.category.HOME 2>/dev/null | grep '' @ [CHR 0x27] @ ''packageName='' @ [CHR 0x27]"

definition launcher_find :: "'w child_os \<Rightarrow> 'w \<Rightarrow> (string \<times> 'w) option" where
  "launcher_find ch w =
     (case execute_command ch resolve_command 5000 w of
        None \<Rightarrow> None
      | Some (result, w1) \<Rightarrow>
          if packages_in result \<noteq> [] then Some (choose_launcher (packages_in result), w1)
          else (case execute_command ch query_command 5000 w1 of
              None \<Rightarrow> None
            | Some (result2, w2) \<Rightarrow> Some (choose_launcher (packages_in result2), w2)))"

subsection \<open>The command ends\<close>

text \<open>
  What the loops rely on: the clock shows a later time at each look and no call turns it back, and the
  calls that do not block (the read of the non-blocking pipe, the wait with \<open>WNOHANG\<close>) are not
  interrupted.
\<close>

definition child_clock :: "'w child_os \<Rightarrow> ('w \<Rightarrow> int) \<Rightarrow> bool" where
  "child_clock ch clk \<longleftrightarrow>
     (\<forall>w. fst (run_state (ch_now ch) w) = clk w \<and> clk w < clk (snd (run_state (ch_now ch) w))) \<and>
     (\<forall>fd t. climbs clk (ch_poll ch fd t)) \<and> (\<forall>fd. climbs clk (ch_read ch fd)) \<and>
     (\<forall>pid. climbs clk (ch_wait ch pid)) \<and> (\<forall>us. climbs clk (ch_usleep ch us)) \<and>
     (\<forall>fd w. fst (run_state (ch_read ch fd) w) \<noteq> ReadInterrupted) \<and>
     (\<forall>pid w. fst (run_state (ch_wait ch pid) w) \<noteq> WaitInterrupted)"

lemma child_clock_now:
  "child_clock ch clk \<Longrightarrow> run_state (ch_now ch) w = (t, w1) \<Longrightarrow> t = clk w \<and> clk w < clk w1"
  unfolding child_clock_def by (metis fst_conv snd_conv)

lemma child_clock_climbs:
  assumes "child_clock ch clk"
  shows "climbs clk (ch_poll ch fd t)" "climbs clk (ch_read ch fd)" "climbs clk (ch_wait ch pid)"
    "climbs clk (ch_usleep ch us)"
  using assms by (simp_all add: child_clock_def)

lemma read_output_ends:
  assumes "child_clock ch clk"
  shows "\<exists>r w'. read_output ch fd out w = Some (r, w') \<and> clk w \<le> clk w'"
proof (induction "nat kMaxOutputSize - length out" arbitrary: out w rule: less_induct)
  case less
  obtain r w1 where run: "run_state (ch_read ch fd) w = (r, w1)" by (metis surj_pair)
  have r: "r \<noteq> ReadInterrupted" using assms run by (auto simp: child_clock_def) (metis fst_conv)
  have le: "clk w \<le> clk w1" using climbsD [OF child_clock_climbs(2) [OF assms] run] .
  show ?case
  proof (cases r)
    case (ReadBytes c cs)
    show ?thesis
    proof (cases "kMaxOutputSize < int (length out + length (c # cs))")
      case False
      then have "nat kMaxOutputSize - length (out @ c # cs) < nat kMaxOutputSize - length out" by simp
      from less [OF this, of w1] obtain x w' where
        "read_output ch fd (out @ c # cs) w1 = Some (x, w')" "clk w1 \<le> clk w'" by blast
      with run ReadBytes False le show ?thesis by (subst read_output.simps) simp
    qed (use run ReadBytes le in \<open>subst read_output.simps, simp\<close>)
  qed (use run r le in \<open>subst read_output.simps, simp\<close>)+
qed

lemma capture_output_ends:
  assumes "child_clock ch clk"
  shows "\<exists>r. capture_output ch fd deadline out w = Some r"
proof (induction "nat (deadline - clk w)" arbitrary: out w rule: less_induct)
  case less
  obtain now w1 where now: "run_state (ch_now ch) w = (now, w1)" by (metis surj_pair)
  from child_clock_now [OF assms now] have clk1: "now = clk w" "clk w < clk w1" by auto
  show ?case
  proof (cases "deadline \<le> now")
    case True
    with now show ?thesis by (subst capture_output.simps) simp
  next
    case False
    obtain r w2 where poll: "run_state (ch_poll ch fd ((deadline - now) div 1000000)) w1 = (r, w2)"
      by (metis surj_pair)
    have le: "clk w1 \<le> clk w2" using climbsD [OF child_clock_climbs(1) [OF assms] poll] .
    have again: "\<exists>r. capture_output ch fd deadline out' w' = Some r" if "clk w2 \<le> clk w'" for out' w'
      by (rule less) (use that le clk1 False in auto)
    obtain e out1 w3 where read: "read_output ch fd out w2 = Some ((e, out1), w3)" "clk w2 \<le> clk w3"
      using read_output_ends [OF assms] by (metis surj_pair)
    with again have next_round: "\<exists>r. capture_output ch fd deadline out1 w3 = Some r"
      "\<exists>r. capture_output ch fd deadline out w2 = Some r" by auto
    show ?thesis
      using next_round now poll read False
      by (subst capture_output.simps) (cases r; cases e; simp)
  qed
qed

lemma await_child_ends:
  assumes "child_clock ch clk"
  shows "\<exists>r. await_child ch pid deadline w = Some r"
proof (induction "nat (deadline - clk w)" arbitrary: w rule: less_induct)
  case less
  obtain r w1 where wait: "run_state (ch_wait ch pid) w = (r, w1)" by (metis surj_pair)
  have r: "r \<noteq> WaitInterrupted" using assms wait by (auto simp: child_clock_def) (metis fst_conv)
  have le: "clk w \<le> clk w1" using climbsD [OF child_clock_climbs(3) [OF assms] wait] .
  obtain now w2 where now: "run_state (ch_now ch) w1 = (now, w2)" by (metis surj_pair)
  from child_clock_now [OF assms now] have clk1: "now = clk w1" "clk w1 < clk w2" by auto
  obtain u w3 where sleep: "run_state (ch_usleep ch 10000) w2 = (u, w3)" by (metis surj_pair)
  have le3: "clk w2 \<le> clk w3" using climbsD [OF child_clock_climbs(4) [OF assms] sleep] .
  have again: "\<exists>r. await_child ch pid deadline w3 = Some r" if "\<not> deadline \<le> now"
    by (rule less) (use that le le3 clk1 in auto)
  show ?case
    using again wait now sleep r by (subst await_child.simps) (cases r; auto)
qed

lemma execute_command_ends:
  assumes "child_clock ch clk"
  shows "\<exists>r. execute_command ch cmd timeout_ms w = Some r"
proof -
  have "\<exists>r. read_child ch pid fd timeout_ms w = Some r" for pid fd w
  proof -
    obtain t0 w1 where now: "run_state (ch_now ch) w = (t0, w1)" by (metis surj_pair)
    obtain e out w2 where capture: "capture_output ch fd (t0 + timeout_ms * 1000000) [] w1 = Some ((e, out), w2)"
      using capture_output_ends [OF assms] by (metis surj_pair)
    obtain u w3 where close: "run_state (ch_close ch fd) w2 = (u, w3)" by (metis surj_pair)
    obtain ok w4 where "await_child ch pid (t0 + timeout_ms * 1000000) w3 = Some (ok, w4)"
      using await_child_ends [OF assms] by (metis surj_pair)
    with now capture close show ?thesis by (simp add: read_child_def)
  qed
  then show ?thesis
    by (simp add: execute_command_def split: prod.split option.split)
qed

subsection \<open>What it returns\<close>

lemma packages_in_valid: "p \<in> set (packages_in result) \<Longrightarrow> is_valid_package p"
  by (auto simp: packages_in_def List.map_filter_def package_of_line_def Let_def split: option.splits if_splits)

lemma first_such_props:
  "first_such P pkgs \<noteq> [] \<Longrightarrow> first_such P pkgs \<in> set pkgs \<and> P (first_such P pkgs)"
  by (induction pkgs) (auto simp: first_such_def)

lemma choose_launcher_member:
  "choose_launcher pkgs \<in> set pkgs \<or> choose_launcher pkgs = ''com.miui.home''"
  using first_such_props by (auto simp: choose_launcher_def Let_def)

lemma default_launcher_valid: "is_valid_package ''com.miui.home''"
  by code_simp

lemma choose_launcher_valid: "is_valid_package (choose_launcher (packages_in result))"
  using choose_launcher_member [of "packages_in result"] packages_in_valid default_launcher_valid by metis

lemma launcher_find_valid:
  assumes "child_clock ch clk"
  shows "\<exists>pkg w'. launcher_find ch w = Some (pkg, w') \<and> is_valid_package pkg"
proof -
  obtain r1 w1 where one: "execute_command ch resolve_command 5000 w = Some (r1, w1)"
    using execute_command_ends [OF assms] by (metis surj_pair)
  obtain r2 w2 where two: "execute_command ch query_command 5000 w1 = Some (r2, w2)"
    using execute_command_ends [OF assms] by (metis surj_pair)
  from one two choose_launcher_valid show ?thesis by (auto simp: launcher_find_def)
qed

text \<open>A home application that is not the stock one is preferred, and the first such wins.\<close>

lemma choose_launcher_prefers:
  assumes "find (\<lambda>p. is_home_package p \<and> \<not> starts_com_android p) pkgs = Some p" "p \<noteq> []"
  shows "choose_launcher pkgs = p"
  using assms by (simp add: choose_launcher_def first_such_def)

text \<open>
  A package name is made of letters, digits, underscores and dots, so the only characters that the
  matcher has to escape in it are its dots.
\<close>

lemma package_chars_letters:
  "package_chars b s pkg \<Longrightarrow> c \<in> set pkg \<Longrightarrow> is_alnum c \<or> c = CHR ''_'' \<or> c = CHR ''.''"
  by (induction pkg arbitrary: b s) (auto simp: is_alnum_def split: if_splits)

lemma metachar_not_alnum: "is_metachar c \<Longrightarrow> \<not> (is_alnum c \<or> c = CHR ''_'')"
proof -
  assume "is_metachar c"
  then have "list_ex (\<lambda>d. c = d) (NUL # kMetacharacters)"
    by (auto simp: is_metachar_def list_ex_iff)
  moreover have "list_all (\<lambda>d. \<not> (is_alnum d \<or> d = CHR ''_'')) (NUL # kMetacharacters)"
    by code_simp
  ultimately show ?thesis by (auto simp: list_ex_iff list_all_iff)
qed

lemma escape_package:
  assumes "is_valid_package pkg"
  shows "escape_regex_literal pkg = concat (map (\<lambda>c. if c = CHR ''.'' then [CHR 0x5C, CHR ''.''] else [c]) pkg)"
proof -
  have dot: "is_metachar (CHR ''.'')" by code_simp
  have "is_metachar c \<longleftrightarrow> c = CHR ''.''" if "c \<in> set pkg" for c
  proof -
    have "package_chars True False pkg" using assms by (simp add: is_valid_package_def)
    from package_chars_letters [OF this that] metachar_not_alnum [of c] dot show ?thesis by metis
  qed
  then have "map (\<lambda>c. if is_metachar c then [CHR 0x5C, c] else [c]) pkg =
      map (\<lambda>c. if c = CHR ''.'' then [CHR 0x5C, CHR ''.''] else [c]) pkg"
    by (intro map_cong refl) metis
  then show ?thesis unfolding escape_regex_literal_def by (rule arg_cong)
qed

end
