(* ===== verification/Daemon.thy ===== *)
theory Daemon
  imports Restoration Scan_Worker Config_Parser Cgroup_Init Scan_Cycle Launcher_Finder
begin

section \<open>The daemon: start, reload and shutdown (main.cpp)\<close>

text \<open>
  \<open>daemon\<close> is the state of \<open>main\<close>: what the scan cycle works on, the configuration in force with what
  was derived from it, the four scan workers and the bookkeeping of configuration changes. A reload stops
  the old workers, puts every thread back, prepares the groups of the new configuration and starts the new
  workers; when a step fails it goes back to the old ones, and when that fails too the daemon stops.
  \<open>daemon_step\<close> is what happens to the state: rounds of the main loop, batches of events, workers
  taking tasks, a signal. Creating a thread may fail; that and the calls on the configuration file are
  the parameter \<open>mo\<close>. Main results: in every reachable state that still runs, all four workers
  run and use the configuration in force (\<open>reachable_daemon_ok\<close>); a configuration that failed is tried
  again when its delay has passed, and not before (\<open>retry_when_due\<close>).
\<close>

subsection \<open>Scan workers as objects\<close>

text \<open>\<open>sw_configs\<close> is the configuration behind the shared matcher and setters, once \<open>set_configs\<close> was called.\<close>

record scan_worker =
  sw_name :: string
  sw_timing :: TimingConfig
  sw_configs :: "Config option"
  sw_started :: bool
  sw_queue :: WorkerQueue
  sw_schedule :: ScheduleTimes

record 'w main_os =
  mo_spawn_thread :: "('w, bool) state"
  mo_mtime :: "string \<Rightarrow> ('w, int option) state"
  mo_realpath :: "string \<Rightarrow> ('w, string option) state"

datatype start_result = WorkerStarted | StartRefused | StartThrew

definition no_schedule :: ScheduleTimes where
  "no_schedule = \<lparr>last_schedule_time = [], last_schedule_state = [], next_cgroup_check_time = [],
     schedule_counter = 0, cgroup_check_counter = 0\<rparr>"

definition new_worker :: "string \<Rightarrow> TimingConfig \<Rightarrow> scan_worker" where
  "new_worker name timing =
     \<lparr>sw_name = name, sw_timing = timing, sw_configs = None, sw_started = False, sw_queue = empty_queue,
      sw_schedule = no_schedule\<rparr>"

definition set_configs :: "Config \<Rightarrow> scan_worker \<Rightarrow> scan_worker" where
  "set_configs config w = w\<lparr>sw_configs := Some config\<rparr>"

definition start_scan_worker :: "'w main_os \<Rightarrow> scan_worker \<Rightarrow> ('w, start_result \<times> scan_worker) state" where
  "start_scan_worker mo w =
     (if sw_started w then State_Monad.return (WorkerStarted, w)
      else if sw_configs w = None then State_Monad.return (StartRefused, w)
      else do {
        created \<leftarrow> mo_spawn_thread mo;
        State_Monad.return (if created
          then (WorkerStarted, w\<lparr>sw_started := True, sw_queue := start_worker (sw_queue w)\<rparr>)
          else (StartThrew, w\<lparr>sw_started := False, sw_queue := (sw_queue w)\<lparr>wq_running := False\<rparr>\<rparr>)) })"

definition stop_scan_worker :: "scan_worker \<Rightarrow> scan_worker" where
  "stop_scan_worker w = w\<lparr>sw_started := False, sw_queue := stop_worker (sw_queue w)\<rparr>"

definition stop_all_workers :: "scan_worker list \<Rightarrow> scan_worker list" where
  "stop_all_workers ws = map stop_scan_worker ws"

text \<open>The loop of \<open>start_all_workers\<close>: it ends at the first worker that does not start.\<close>

fun start_each_worker :: "'w main_os \<Rightarrow> scan_worker list \<Rightarrow> ('w, bool \<times> scan_worker list) state" where
  "start_each_worker mo [] = State_Monad.return (True, [])"
| "start_each_worker mo (w # ws) = do {
     (r, w1) \<leftarrow> start_scan_worker mo w;
     if r \<noteq> WorkerStarted then State_Monad.return (False, w1 # ws)
     else do {
       (ok, ws1) \<leftarrow> start_each_worker mo ws;
       State_Monad.return (ok, w1 # ws1) } }"

definition start_all_workers :: "'w main_os \<Rightarrow> scan_worker list \<Rightarrow> ('w, bool \<times> scan_worker list) state" where
  "start_all_workers mo ws = do {
     (ok, ws1) \<leftarrow> start_each_worker mo ws;
     State_Monad.return (if ok then (True, ws1) else (False, stop_all_workers ws1)) }"

definition make_workers :: "Config \<Rightarrow> scan_worker list" where
  "make_workers config = map (\<lambda>i. set_configs config
     (new_worker (''ScanWorker'' @ to_string i) (sc_timing (sched config)))) [1, 2, 3, 4]"

definition enqueue_at :: "nat \<Rightarrow> DispatchTask \<Rightarrow> scan_worker list \<Rightarrow> EnqueueResult \<times> scan_worker list" where
  "enqueue_at i task ws = (case enqueue task (sw_queue (ws ! i)) of
     (r, q) \<Rightarrow> (r, ws[i := (ws ! i)\<lparr>sw_queue := q\<rparr>]))"

definition worker_pool :: "(int \<Rightarrow> 64 word) \<Rightarrow> (nat \<Rightarrow> 64 word) \<Rightarrow> nat \<Rightarrow> scan_worker list pool" where
  "worker_pool hash_int hash_u64 n =
     \<lparr>pl_size = n, pl_enqueue = enqueue_at, pl_hash_int = hash_int, pl_hash_u64 = hash_u64\<rparr>"

subsection \<open>Watching the configuration file\<close>

definition fnv_offset :: "64 word" where "fnv_offset = 1469598103934665603"
definition fnv_prime :: "64 word" where "fnv_prime = 1099511628211"

definition fnv_step :: "64 word \<Rightarrow> char \<Rightarrow> 64 word" where
  "fnv_step h c = (h XOR of_nat (of_char c)) * fnv_prime"

function hash_blocks :: "64 word \<Rightarrow> string \<Rightarrow> 64 word" where
  "hash_blocks h s = (if s = [] then h else hash_blocks (foldl fnv_step h (take 4096 s)) (drop 4096 s))"
  by pat_completeness auto
termination by (relation "measure (\<lambda>(h, s). length s)") auto

definition compute_config_hash :: "'w os \<Rightarrow> string \<Rightarrow> ('w env, 64 word) state" where
  "compute_config_hash os path = do {
     text \<leftarrow> sys (os_read_all os path);
     State_Monad.return (case text of None \<Rightarrow> 0 | Some s \<Rightarrow> hash_blocks fnv_offset s) }"

definition get_file_mtime :: "'w main_os \<Rightarrow> string \<Rightarrow> ('w env, int) state" where
  "get_file_mtime mo path = do {
     t \<leftarrow> sys (mo_mtime mo path);
     State_Monad.return (case t of None \<Rightarrow> 0 | Some m \<Rightarrow> m) }"

definition resolve_allowed_config_path ::
  "'w os \<Rightarrow> 'w main_os \<Rightarrow> string \<Rightarrow> string \<Rightarrow> ('w env, string option) state" where
  "resolve_allowed_config_path os mo user_path allowed_dir = do {
     dir \<leftarrow> sys (mo_realpath mo allowed_dir);
     case dir of None \<Rightarrow> State_Monad.return None
     | Some directory \<Rightarrow> do {
         resolved \<leftarrow> sys (mo_realpath mo user_path);
         case resolved of None \<Rightarrow> State_Monad.return None
         | Some path \<Rightarrow>
             if \<not> str_starts path (directory @ ''/'') then State_Monad.return None
             else do {
               kind \<leftarrow> sys (os_stat os path);
               State_Monad.return (if kind \<noteq> RegularFile then None else Some path) } } }"

subsection \<open>State\<close>

record 'w daemon =
  md_cycle :: "('w, scan_worker list) cycle"
  md_config :: Config
  md_group_checks :: "(string, bool \<times> int) umap"
  md_highspeed_ms :: int
  md_refresh_ms :: int
  md_running :: bool
  md_shutdown_requested :: bool
  md_throttle_ms :: int
  md_log :: "LogLevel \<times> string"
  md_last_mtime :: int
  md_last_hash :: "64 word"
  md_failed_hash :: "64 word"
  md_retry_delay_s :: int
  md_next_retry :: "int option"

abbreviation md_workers :: "'w daemon \<Rightarrow> scan_worker list" where
  "md_workers d \<equiv> cy_workers (md_cycle d)"

definition set_workers :: "scan_worker list \<Rightarrow> 'w daemon \<Rightarrow> 'w daemon" where
  "set_workers ws d = d\<lparr>md_cycle := (md_cycle d)\<lparr>cy_workers := ws\<rparr>\<rparr>"

definition on_cycle :: "(('w, scan_worker list) cycle, 'a) state \<Rightarrow> ('w daemon, 'a) state" where
  "on_cycle m = zoom md_cycle (\<lambda>c d. d\<lparr>md_cycle := c\<rparr>) m"

definition on_files :: "('w env, 'a) state \<Rightarrow> ('w daemon, 'a) state" where
  "on_files m = on_cycle (file_layer m)"

text \<open>The restoration works on the thread cache and the setters; it does not look at the schedules of a worker.\<close>

definition on_threads :: "('w rt, 'a) state \<Rightarrow> ('w daemon, 'a) state" where
  "on_threads m = zoom
     (\<lambda>d. \<lparr>rt_env = sl_env (cy_slice (md_cycle d)), group_checks = md_group_checks d,
            process_cache = cy_process_cache (md_cycle d), tcache = cy_cache (md_cycle d),
            schedule = no_schedule\<rparr>)
     (\<lambda>s d. d\<lparr>md_cycle := (md_cycle d)\<lparr>cy_slice := (cy_slice (md_cycle d))\<lparr>sl_env := rt_env s\<rparr>,
                cy_process_cache := process_cache s, cy_cache := tcache s\<rparr>,
              md_group_checks := group_checks s\<rparr>) m"

definition stop_running :: "('w daemon, unit) state" where
  "stop_running = modify (\<lambda>d. d\<lparr>md_running := False\<rparr>)"

definition log_destination :: "LogConfig \<Rightarrow> LogLevel \<times> string" where
  "log_destination log = (parse_log_level (lc_level log),
     if lc_output log = [] \<or> lc_output log = ''stdout'' \<or> lc_output log = ''stderr''
     then ''/data/adb/ReUperf/ReUperf.log'' else lc_output log)"

definition highspeed_interval :: "SchedConfig \<Rightarrow> int" where
  "highspeed_interval cfg = max (sc_highspeed_sched_ms cfg) 1"

definition refresh_interval :: "SchedConfig \<Rightarrow> int" where
  "refresh_interval cfg = max (sc_refresh_interval_ms cfg) (highspeed_interval cfg)"

subsection \<open>Reload\<close>

text \<open>After a failure: the old workers run again, on groups that are prepared again if they were left.\<close>

definition settle_old_scheduler :: "'w os \<Rightarrow> bool \<Rightarrow> bool \<Rightarrow> scan_worker list \<Rightarrow> ('w daemon, unit) state" where
  "settle_old_scheduler os cgroups_ready started ws = do {
     modify (set_workers ws);
     (if \<not> cgroups_ready \<or> \<not> started then stop_running else State_Monad.return ());
     on_cycle request_full_scan;
     now \<leftarrow> on_files (sys (os_now os));
     modify (\<lambda>d. d\<lparr>md_cycle := (md_cycle d)\<lparr>cy_next_full_scan := now\<rparr>\<rparr>) }"

definition keep_old_scheduler :: "'w os \<Rightarrow> 'w main_os \<Rightarrow> bool \<Rightarrow> ('w daemon, unit) state" where
  "keep_old_scheduler os mo baselines_restored = do {
     config \<leftarrow> gets md_config;
     cgroups_ready \<leftarrow> (if baselines_restored then on_files (init_cgroups os config) else State_Monad.return True);
     ws \<leftarrow> gets md_workers;
     (started, ws1) \<leftarrow> (if cgroups_ready then on_files (sys (start_all_workers mo ws))
       else State_Monad.return (False, ws));
     settle_old_scheduler os cgroups_ready started ws1 }"

definition fresh_cycle :: "('w, 'q) cycle \<Rightarrow> ('w, 'q) cycle" where
  "fresh_cycle c = (reset_cursors c)\<lparr>
     cy_process_cache := empty_process_cache,
     cy_cache := clear_scheduling_state_preserving_baselines (cy_cache c),
     cy_pinned := {}, cy_topfore := {}, cy_top_app := {}, cy_foreground := {}, cy_background := {},
     cy_process_states := [], cy_phase := 0, cy_active := False, cy_scan := reset_scan,
     cy_processed_tids := {}\<rparr>"

definition adopt_config :: "Config \<Rightarrow> 'w daemon \<Rightarrow> 'w daemon" where
  "adopt_config config d = d\<lparr>md_config := config, md_group_checks := [],
     md_cycle := fresh_cycle (md_cycle d),
     md_highspeed_ms := highspeed_interval (sched config), md_refresh_ms := refresh_interval (sched config),
     md_throttle_ms := event_throttle_ms (sc_timing (sched config)),
     md_retry_delay_s := config_retry_initial_delay_s (sc_timing (sched config)),
     md_log := log_destination (sc_log (sched config))\<rparr>"

definition adopt_new_scheduler :: "'w os \<Rightarrow> Config \<Rightarrow> scan_worker list \<Rightarrow> ('w daemon, unit) state" where
  "adopt_new_scheduler os config ws = do {
     modify (adopt_config config \<circ> set_workers ws);
     now \<leftarrow> on_files (sys (os_now os));
     modify (\<lambda>d. d\<lparr>md_cycle := (md_cycle d)\<lparr>cy_next_full_scan := now\<rparr>\<rparr>);
     on_files (set_cache_ttls (file_cache_ttl_ms (sc_timing (sched config)))
       (cgroup_cache_ttl_ms (sc_timing (sched config)))) }"

definition replace_scheduler :: "'w os \<Rightarrow> 'w main_os \<Rightarrow> Config \<Rightarrow> ('w daemon, bool) state" where
  "replace_scheduler os mo config = do {
     modify (\<lambda>d. set_workers (stop_all_workers (md_workers d)) d);
     restored \<leftarrow> on_threads (restore_all_thread_baselines os);
     ready \<leftarrow> (if restored then on_files (init_cgroups os config) else State_Monad.return False);
     (started, ws) \<leftarrow> (if ready then on_files (sys (start_all_workers mo (make_workers config)))
       else State_Monad.return (False, make_workers config));
     if \<not> restored \<or> \<not> ready \<or> \<not> started
     then do { keep_old_scheduler os mo restored; State_Monad.return False }
     else do { adopt_new_scheduler os config ws; State_Monad.return True } }"

text \<open>The value is \<open>reload_succeeded\<close>.\<close>

definition reload ::
  "json_lib \<Rightarrow> 'w os \<Rightarrow> 'w main_os \<Rightarrow> 'w child_os \<Rightarrow> string \<Rightarrow> 'w daemon \<Rightarrow> (bool \<times> 'w daemon) option" where
  "reload js os mo ch path d =
     (case run_state (on_files (parse_config js os path)) d of
        (None, d1) \<Rightarrow> Some (False, d1)
      | (Some config, d1) \<Rightarrow>
          if \<not> sc_enable (sched config) then Some (True, d1\<lparr>md_running := False\<rparr>)
          else (case launcher_find ch (world (sl_env (cy_slice (md_cycle d1)))) of
              None \<Rightarrow> None
            | Some (pkg, w) \<Rightarrow>
                Some (run_state (replace_scheduler os mo (config\<lparr>launcher_package := pkg\<rparr>))
                  (snd (run_state (on_files (sys (State (\<lambda>_. ((), w))))) d1)))))"

subsection \<open>When to reload\<close>

definition reload_due :: "bool \<Rightarrow> int \<Rightarrow> 64 word \<Rightarrow> int \<Rightarrow> 'w daemon \<Rightarrow> bool" where
  "reload_due watcher_changed mtime hash now d \<longleftrightarrow>
     (let changed = (mtime \<noteq> md_last_mtime d \<and> 0 < mtime) \<or> (hash \<noteq> md_last_hash d \<and> hash \<noteq> 0);
          deferred = hash \<noteq> 0 \<and> hash = md_failed_hash d \<and>
            (case md_next_retry d of None \<Rightarrow> False | Some t \<Rightarrow> now < t)
      in (watcher_changed \<or> changed) \<and> \<not> deferred)"

definition reload_done :: "int \<Rightarrow> 64 word \<Rightarrow> 'w daemon \<Rightarrow> 'w daemon" where
  "reload_done mtime hash d = d\<lparr>md_last_mtime := mtime, md_last_hash := hash, md_failed_hash := 0,
     md_retry_delay_s := config_retry_initial_delay_s (sc_timing (sched (md_config d))),
     md_next_retry := None, md_cycle := (md_cycle d)\<lparr>cy_rescan_needed := True\<rparr>\<rparr>"

definition next_delay :: "64 word \<Rightarrow> 'w daemon \<Rightarrow> int" where
  "next_delay hash d =
     (if md_failed_hash d = hash
      then min (md_retry_delay_s d * 2) (config_retry_max_delay_s (sc_timing (sched (md_config d))))
      else config_retry_initial_delay_s (sc_timing (sched (md_config d))))"

definition reload_failed :: "64 word \<Rightarrow> int \<Rightarrow> 'w daemon \<Rightarrow> 'w daemon" where
  "reload_failed hash now d =
     (if hash = 0 then d
      else d\<lparr>md_failed_hash := hash, md_retry_delay_s := next_delay hash d,
             md_next_retry := Some (now + next_delay hash d * 1000000000)\<rparr>)"

text \<open>The part of a round of the main loop that follows the configuration file; \<open>watcher_changed\<close> is what
  the file watcher reports.\<close>

definition check_config ::
  "json_lib \<Rightarrow> 'w os \<Rightarrow> 'w main_os \<Rightarrow> 'w child_os \<Rightarrow> string \<Rightarrow> bool \<Rightarrow> 'w daemon \<Rightarrow> 'w daemon option" where
  "check_config js os mo ch path watcher_changed d =
     (case run_state (do {
         mtime \<leftarrow> on_files (get_file_mtime mo path);
         hash \<leftarrow> on_files (compute_config_hash os path);
         now \<leftarrow> on_files (sys (os_now os));
         State_Monad.return (mtime, hash, now) }) d of
       ((mtime, hash, now), d1) \<Rightarrow>
         if \<not> reload_due watcher_changed mtime hash now d1 then Some d1
         else (case reload js os mo ch path d1 of
             None \<Rightarrow> None
           | Some (ok, d2) \<Rightarrow> Some (if ok then reload_done mtime hash d2 else reload_failed hash now d2)))"

subsection \<open>Start\<close>

text \<open>
  \<open>watches\<close> is what happens between the start of the workers and the main loop: the event router, the process
  monitor and the watcher of the configuration file are started (\<open>Main_Loop\<close>); its value is theirs.
\<close>

datatype ('w, 'x) startup_result = Exits int | Runs 'x "'w daemon"

definition first_cycle :: "'w slice \<Rightarrow> scan_worker list \<Rightarrow> int \<Rightarrow> ('w, scan_worker list) cycle" where
  "first_cycle sl ws next_scan = \<lparr>cy_slice = sl, cy_workers = ws,
     cy_process_cache = empty_process_cache, cy_cache = [], cy_pinned = {}, cy_topfore = {},
     cy_top_app = {}, cy_foreground = {}, cy_background = {}, cy_process_states = [],
     cy_top_cursor = reset_cursor, cy_pinned_cursor = reset_cursor, cy_topfore_cursor = reset_cursor,
     cy_foreground_cursor = reset_cursor, cy_background_cursor = reset_cursor, cy_phase = 0,
     cy_active = False, cy_scan = reset_scan, cy_processed_tids = {}, cy_next_full_scan = next_scan,
     cy_rescan_needed = True\<rparr>"

definition new_daemon :: "Config \<Rightarrow> 'w slice \<Rightarrow> scan_worker list \<Rightarrow> int \<Rightarrow> 64 word \<Rightarrow> int \<Rightarrow> 'w daemon" where
  "new_daemon config sl ws mtime hash now = \<lparr>
     md_cycle = first_cycle sl ws (now + refresh_interval (sched config) * 1000000),
     md_config = config, md_group_checks = [], md_highspeed_ms = highspeed_interval (sched config),
     md_refresh_ms = refresh_interval (sched config), md_running = True, md_shutdown_requested = False,
     md_throttle_ms = event_throttle_ms (sc_timing (sched config)),
     md_log = log_destination (sc_log (sched config)), md_last_mtime = mtime, md_last_hash = hash,
     md_failed_hash = 0, md_retry_delay_s = config_retry_initial_delay_s (sc_timing (sched config)),
     md_next_retry = None\<rparr>"

definition start_scheduler ::
  "'w os \<Rightarrow> 'w main_os \<Rightarrow> (Config \<Rightarrow> ('w slice, 'x) state) \<Rightarrow> string \<Rightarrow> Config
     \<Rightarrow> ('w slice, ('w, 'x) startup_result) state" where
  "start_scheduler os mo watches path config = do {
     ready \<leftarrow> on_env (init_cgroups os config);
     if \<not> ready then State_Monad.return (Exits 1)
     else do {
       on_env (set_cache_ttls (file_cache_ttl_ms (sc_timing (sched config)))
         (cgroup_cache_ttl_ms (sc_timing (sched config))));
       (started, ws) \<leftarrow> on_env (sys (start_all_workers mo (make_workers config)));
       if \<not> started then State_Monad.return (Exits 1)
       else do {
         x \<leftarrow> watches config;
         mtime \<leftarrow> on_env (get_file_mtime mo path);
         hash \<leftarrow> on_env (compute_config_hash os path);
         now \<leftarrow> on_env (sys (os_now os));
         sl \<leftarrow> gets id;
         State_Monad.return (Runs x (new_daemon config sl ws mtime hash now)) } } }"

definition startup ::
  "json_lib \<Rightarrow> 'w os \<Rightarrow> 'w main_os \<Rightarrow> 'w child_os \<Rightarrow> (Config \<Rightarrow> ('w slice, 'x) state) \<Rightarrow> string \<Rightarrow> 'w slice
     \<Rightarrow> ('w, 'x) startup_result option" where
  "startup js os mo ch watches path s =
     (case run_state (on_env (parse_config js os path)) s of
        (None, s1) \<Rightarrow> Some (Exits 1)
      | (Some config, s1) \<Rightarrow>
          if \<not> sc_enable (sched config) then Some (Exits 0)
          else (case launcher_find ch (world (sl_env s1)) of
              None \<Rightarrow> None
            | Some (pkg, w) \<Rightarrow>
                Some (fst (run_state (start_scheduler os mo watches path (config\<lparr>launcher_package := pkg\<rparr>))
                  (snd (run_state (on_env (sys (State (\<lambda>_. ((), w))))) s1))))))"

subsection \<open>Shutdown\<close>

definition shut_down :: "'w os \<Rightarrow> ('w daemon, int) state" where
  "shut_down os = do {
     modify (\<lambda>d. set_workers (stop_all_workers (md_workers d)) d);
     on_threads (shutdown_restore os) }"

text \<open>The state between the last attempt to restore and what follows from it.\<close>

definition after_attempts :: "'w os \<Rightarrow> 'w daemon \<Rightarrow> 'w daemon" where
  "after_attempts os d =
     snd (run_state (on_threads (shutdown_attempts os)) (set_workers (stop_all_workers (md_workers d)) d))"

text \<open>The entry: which file is the configuration.\<close>

definition default_config_path :: string where "default_config_path = ''/data/adb/ReUperf/ReUperf.json''"
definition data_dir :: string where "data_dir = ''/data/adb/ReUperf''"

definition ensure_data_dir :: "'w os \<Rightarrow> ('w env, unit) state" where
  "ensure_data_dir os = do {
     _ \<leftarrow> mkdir_recursive os data_dir;
     _ \<leftarrow> dir_exists os data_dir;
     State_Monad.return () }"

definition main_entry ::
  "json_lib \<Rightarrow> 'w os \<Rightarrow> 'w main_os \<Rightarrow> 'w child_os \<Rightarrow> (string \<Rightarrow> Config \<Rightarrow> ('w slice, 'x) state) \<Rightarrow> string option
     \<Rightarrow> 'w slice \<Rightarrow> (string \<times> ('w, 'x) startup_result) option" where
  "main_entry js os mo ch watches argument s =
     (case run_state (on_env (case argument of None \<Rightarrow> State_Monad.return (Some default_config_path)
         | Some user_path \<Rightarrow> resolve_allowed_config_path os mo user_path data_dir)) s of
        (None, s1) \<Rightarrow> Some ([], Exits 1)
      | (Some path, s1) \<Rightarrow>
          map_option (Pair path) (startup js os mo ch (watches path) path (snd (run_state (on_env (ensure_data_dir os)) s1))))"

subsection \<open>Workers that start and stop together\<close>

definition worker_runs :: "scan_worker \<Rightarrow> bool" where
  "worker_runs w \<longleftrightarrow> sw_started w \<and> wq_running (sw_queue w)"

lemma start_scan_worker_result:
  "wp (start_scan_worker mo w) (\<lambda>(r, w1) _. sw_configs w1 = sw_configs w \<and> sw_name w1 = sw_name w \<and>
     (r = WorkerStarted \<longrightarrow> sw_started w1 \<and> (\<not> sw_started w \<longrightarrow> worker_runs w1))) s"
  unfolding start_scan_worker_def
  by (auto simp: wp_def worker_runs_def start_worker_def split: prod.splits)

text \<open>All or none: the workers that are not started before either all run afterwards, or none does.\<close>

lemma start_each_result:
  assumes "\<forall>w \<in> set ws. \<not> sw_started w" "run_state (start_each_worker mo ws) s = ((ok, ws1), s1)"
  shows "map sw_configs ws1 = map sw_configs ws \<and> (ok \<longrightarrow> (\<forall>w \<in> set ws1. worker_runs w))"
  using assms
proof (induction ws arbitrary: s ok ws1 s1)
  case (Cons w ws)
  obtain r w1 s2 where one: "run_state (start_scan_worker mo w) s = ((r, w1), s2)" by (metis surj_pair)
  from wp_run [OF start_scan_worker_result one] Cons.prems(1)
  have w1: "sw_configs w1 = sw_configs w" "r = WorkerStarted \<Longrightarrow> worker_runs w1" by auto
  obtain ok2 ws2 s3 where rest: "run_state (start_each_worker mo ws) s2 = ((ok2, ws2), s3)" by (metis surj_pair)
  from Cons.IH [OF _ rest] Cons.prems(1)
  have ws2: "map sw_configs ws2 = map sw_configs ws" "ok2 \<longrightarrow> (\<forall>w \<in> set ws2. worker_runs w)" by auto
  show ?case
  proof (cases "r = WorkerStarted")
    case True
    with Cons.prems(2) one rest have "ws1 = w1 # ws2" "ok = ok2" by auto
    with w1 ws2 True show ?thesis by simp
  next
    case False
    with Cons.prems(2) one have "ws1 = w1 # ws" "\<not> ok" by auto
    with w1 show ?thesis by simp
  qed
qed simp

lemma stop_all_workers_props:
  "map sw_configs (stop_all_workers ws) = map sw_configs ws"
  "\<forall>w \<in> set (stop_all_workers ws). \<not> sw_started w"
  by (auto simp: stop_all_workers_def stop_scan_worker_def)

lemma start_all_result:
  assumes "\<forall>w \<in> set ws. \<not> sw_started w" "run_state (start_all_workers mo ws) s = ((ok, ws1), s1)"
  shows "map sw_configs ws1 = map sw_configs ws \<and>
    (if ok then \<forall>w \<in> set ws1. worker_runs w else \<forall>w \<in> set ws1. \<not> sw_started w)"
proof -
  obtain ok2 ws2 s2 where each: "run_state (start_each_worker mo ws) s = ((ok2, ws2), s2)" by (metis surj_pair)
  from start_each_result [OF assms(1) each] assms(2) each stop_all_workers_props [of ws2] show ?thesis
    by (auto simp: start_all_workers_def split: if_splits)
qed

lemma make_workers_props:
  "map sw_configs (make_workers config) = [Some config, Some config, Some config, Some config]"
  "\<forall>w \<in> set (make_workers config). \<not> sw_started w"
  by (simp_all add: make_workers_def set_configs_def new_worker_def)

subsection \<open>Reload leaves one scheduler\<close>

text \<open>The four workers use the configuration; while the daemon runs, so do they.\<close>

definition workers_serve :: "Config \<Rightarrow> bool \<Rightarrow> scan_worker list \<Rightarrow> bool" where
  "workers_serve config running ws \<longleftrightarrow>
     map sw_configs ws = [Some config, Some config, Some config, Some config] \<and>
     (running \<longrightarrow> (\<forall>w \<in> set ws. worker_runs w))"

text \<open>What \<open>main\<close> derives from the configuration in force.\<close>

definition derived_ok :: "'w daemon \<Rightarrow> bool" where
  "derived_ok d \<longleftrightarrow> md_highspeed_ms d = highspeed_interval (sched (md_config d)) \<and>
     md_refresh_ms d = refresh_interval (sched (md_config d)) \<and>
     md_throttle_ms d = event_throttle_ms (sc_timing (sched (md_config d))) \<and>
     md_log d = log_destination (sc_log (sched (md_config d)))"

definition retry_ok :: "'w daemon \<Rightarrow> bool" where
  "retry_ok d \<longleftrightarrow> md_retry_delay_s d \<in> {config_retry_initial_delay_s (sc_timing (sched (md_config d)))..
     config_retry_max_delay_s (sc_timing (sched (md_config d)))}"

definition config_valid :: "Config \<Rightarrow> bool" where
  "config_valid config \<longleftrightarrow> sched_in_range (sched config) \<and> names_ok (sched config) \<and>
     references_ok (sched config) \<and> sc_enable (sched config)"

definition daemon_ok :: "'w daemon \<Rightarrow> bool" where
  "daemon_ok d \<longleftrightarrow> config_valid (md_config d) \<and> derived_ok d \<and> retry_ok d \<and>
     workers_serve (md_config d) (md_running d) (md_workers d)"

text \<open>Frames: what runs on a part of the state leaves the rest.\<close>

definition main_part :: "'w daemon \<Rightarrow> Config \<times> scan_worker list \<times> int \<times> int \<times> bool \<times> int \<times> (LogLevel \<times> string) \<times> int" where
  "main_part d = (md_config d, md_workers d, md_highspeed_ms d, md_refresh_ms d, md_running d,
     md_throttle_ms d, md_log d, md_retry_delay_s d)"

lemma keeps_main_part [keeps_rules]: "keeps main_part (on_files m)" "keeps main_part (on_threads n)"
  unfolding on_files_def on_cycle_def file_layer_def on_threads_def
  by (simp_all add: keeps_def main_part_def split: prod.splits)

lemma daemon_ok_main_part: "main_part d = main_part d' \<Longrightarrow> daemon_ok d \<longleftrightarrow> daemon_ok d'"
  by (simp add: main_part_def daemon_ok_def derived_ok_def retry_ok_def)

lemma wp_main_part:
  assumes "keeps main_part m" "\<And>a d'. main_part d' = main_part d \<Longrightarrow> Q a d'"
  shows "wp m Q d"
  using assms by (simp add: wp_iff) (metis keepsD)

lemmas wp_on_files = wp_main_part [OF keeps_main_part(1)]
lemmas wp_on_threads = wp_main_part [OF keeps_main_part(2)]

lemma wp_start_all:
  assumes "\<forall>w \<in> set ws. \<not> sw_started w"
    and "\<And>ok ws1 d'. main_part d' = main_part d \<Longrightarrow> map sw_configs ws1 = map sw_configs ws \<Longrightarrow>
        (if ok then \<forall>w \<in> set ws1. worker_runs w else \<forall>w \<in> set ws1. \<not> sw_started w) \<Longrightarrow> Q (ok, ws1) d'"
  shows "wp (on_files (sys (start_all_workers mo ws))) Q d"
proof -
  obtain ok ws1 w where run: "run_state (start_all_workers mo ws) (world (sl_env (cy_slice (md_cycle d)))) = ((ok, ws1), w)"
    by (metis surj_pair)
  obtain r d' where all: "run_state (on_files (sys (start_all_workers mo ws))) d = (r, d')" by (metis surj_pair)
  with run have "r = (ok, ws1)" by (auto simp: on_files_def on_cycle_def file_layer_def)
  with all assms(2) [OF keepsD [OF keeps_main_part(1) all]] start_all_result [OF assms(1) run] show ?thesis
    by (auto simp: wp_def)
qed

lemma main_part_simps [simp]:
  "main_part (d\<lparr>md_cycle := (md_cycle d)\<lparr>cy_next_full_scan := t\<rparr>\<rparr>) = main_part d"
  "main_part (d\<lparr>md_cycle := (md_cycle d)\<lparr>cy_rescan_needed := b\<rparr>\<rparr>) = main_part d"
  "main_part (d\<lparr>md_group_checks := g\<rparr>) = main_part d"
  by (simp_all add: main_part_def)

lemma wp_on_cycle_request: "(\<And>d'. main_part d' = main_part d \<Longrightarrow> Q () d') \<Longrightarrow> wp (on_cycle request_full_scan) Q d"
  by (simp add: wp_def on_cycle_def request_full_scan_def)

text \<open>Between the old workers and the new ones: nobody works, and the configuration is the old one.\<close>

definition standing_by :: "'w daemon \<Rightarrow> bool" where
  "standing_by d \<longleftrightarrow> config_valid (md_config d) \<and> derived_ok d \<and> retry_ok d \<and>
     map sw_configs (md_workers d) = replicate 4 (Some (md_config d)) \<and> (\<forall>w \<in> set (md_workers d). \<not> sw_started w)"

lemma standing_by_main_part: "main_part d = main_part d' \<Longrightarrow> standing_by d \<longleftrightarrow> standing_by d'"
  by (simp add: main_part_def standing_by_def derived_ok_def retry_ok_def)

lemma daemon_ok_resume:
  assumes "standing_by d" "main_part d' = main_part d" "map sw_configs ws = map sw_configs (md_workers d)"
    and "r \<Longrightarrow> \<forall>w \<in> set ws. worker_runs w"
  shows "r \<Longrightarrow> daemon_ok (set_workers ws d')" "daemon_ok ((set_workers ws d')\<lparr>md_running := False\<rparr>)"
  using assms
  by (auto simp: daemon_ok_def standing_by_def main_part_def set_workers_def derived_ok_def retry_ok_def
      workers_serve_def numeral_eq_Suc)

lemma wp_settle_old:
  assumes "standing_by d" "main_part d1 = main_part d" "map sw_configs ws = map sw_configs (md_workers d)"
    and "prepared \<and> started \<Longrightarrow> \<forall>w \<in> set ws. worker_runs w"
  shows "wp (settle_old_scheduler os prepared started ws) (\<lambda>_ d'. daemon_ok d' \<and> md_config d' = md_config d \<and>
    cy_rescan_needed (md_cycle d')) d1"
proof -
  have cfg: "md_config d1 = md_config d" using assms(2) by (simp add: main_part_def)
  have ok: "daemon_ok (if prepared \<and> started then set_workers ws d1 else (set_workers ws d1)\<lparr>md_running := False\<rparr>)"
    using daemon_ok_resume [OF assms(1-3), of "prepared \<and> started"] assms(4) by auto
  obtain now e where "run_state (os_now os) (world (sl_env (cy_slice (md_cycle d1)))) = (now, e)"
    by (metis surj_pair)
  with ok cfg show ?thesis
    by (auto simp: settle_old_scheduler_def wp_def stop_running_def on_files_def on_cycle_def file_layer_def
        request_full_scan_def set_workers_def daemon_ok_def derived_ok_def retry_ok_def split: if_splits)
qed

lemma wp_keep_old_scheduler:
  assumes "standing_by d"
  shows "wp (keep_old_scheduler os mo b) (\<lambda>_ d'. daemon_ok d' \<and> md_config d' = md_config d \<and>
    cy_rescan_needed (md_cycle d')) d"
proof -
  have stopped: "\<forall>w \<in> set (md_workers d). \<not> sw_started w" using assms by (simp add: standing_by_def)
  have start: "wp (if prepared then on_files (sys (start_all_workers mo (md_workers d)))
        else State_Monad.return (False, md_workers d))
      (\<lambda>(started, ws). wp (settle_old_scheduler os prepared started ws) (\<lambda>_ d'. daemon_ok d' \<and>
         md_config d' = md_config d \<and> cy_rescan_needed (md_cycle d'))) d1"
    if "main_part d1 = main_part d" for prepared d1
    using that
    by (intro wp_if wp_start_all [OF stopped] wp_return)
      (auto intro!: wp_settle_old [OF assms] split: if_splits)
  have rest: "wp (do {
      ws \<leftarrow> gets md_workers;
      (started, ws1) \<leftarrow> (if prepared then on_files (sys (start_all_workers mo ws))
        else State_Monad.return (False, ws));
      settle_old_scheduler os prepared started ws1 })
    (\<lambda>_ d'. daemon_ok d' \<and> md_config d' = md_config d \<and> cy_rescan_needed (md_cycle d')) d1"
    if "main_part d1 = main_part d" for prepared d1
  proof -
    have "md_workers d1 = md_workers d" using that by (simp add: main_part_def)
    then show ?thesis
      using start [OF that, of prepared] by (intro wp_bind wp_gets) (simp add: case_prod_unfold cong: if_cong split del: if_split)
  qed
  show ?thesis
    unfolding keep_old_scheduler_def
    by (cases b; simp only: if_True if_False; rule wp_bind, rule wp_gets, rule wp_bind)
      (rule wp_on_files, erule rest, rule wp_return, rule rest [OF refl])
qed

text \<open>Adopting the new configuration.\<close>

lemma adopt_config_ok:
  assumes "config_valid config" "map sw_configs ws = map sw_configs (make_workers config)"
    and "\<forall>w \<in> set ws. worker_runs w"
  shows "daemon_ok (adopt_config config (set_workers ws d))"
  using assms
  by (auto simp: daemon_ok_def derived_ok_def retry_ok_def workers_serve_def adopt_config_def set_workers_def
      fresh_cycle_def reset_cursors_def make_workers_props config_valid_def sched_in_range_def timing_in_range_def)

lemma wp_adopt_new_scheduler:
  assumes "config_valid config" "map sw_configs ws = map sw_configs (make_workers config)"
    and "\<forall>w \<in> set ws. worker_runs w"
  shows "wp (adopt_new_scheduler os config ws) (\<lambda>_ d'. daemon_ok d' \<and> md_config d' = config \<and>
    (\<forall>w \<in> set (md_workers d'). worker_runs w)) d"
proof -
  have start: "daemon_ok d1 \<and> md_config d1 = config \<and> (\<forall>w \<in> set (md_workers d1). worker_runs w)"
    if "main_part d1 = main_part (adopt_config config (set_workers ws d))" for d1
  proof -
    have "daemon_ok d1" using daemon_ok_main_part [OF that] adopt_config_ok [OF assms] by simp
    moreover have "md_config d1 = config" "md_workers d1 = ws"
      using that by (simp_all add: main_part_def adopt_config_def set_workers_def fresh_cycle_def reset_cursors_def)
    ultimately show ?thesis using assms(3) by simp
  qed
  show ?thesis
    unfolding adopt_new_scheduler_def
    by (intro wp_bind wp_modify wp_on_files start) simp
qed

lemma standing_by_stop:
  assumes "daemon_ok d"
  shows "standing_by (set_workers (stop_all_workers (md_workers d)) d)"
  using assms stop_all_workers_props [of "md_workers d"]
  by (auto simp: daemon_ok_def standing_by_def set_workers_def derived_ok_def retry_ok_def workers_serve_def
      numeral_eq_Suc)

lemma wp_replace_scheduler:
  assumes "daemon_ok d" "config_valid config"
  shows "wp (replace_scheduler os mo config) (\<lambda>ok d'. daemon_ok d' \<and>
    (if ok then md_config d' = config \<and> (\<forall>w \<in> set (md_workers d'). worker_runs w)
     else md_config d' = md_config d \<and> cy_rescan_needed (md_cycle d'))) d"
proof -
  let ?d = "set_workers (stop_all_workers (md_workers d)) d"
  let ?Q = "\<lambda>ok d'. daemon_ok d' \<and>
    (if ok then md_config d' = config \<and> (\<forall>w \<in> set (md_workers d'). worker_runs w)
     else md_config d' = md_config d \<and> cy_rescan_needed (md_cycle d'))"
  have old: "wp (do { keep_old_scheduler os mo b; State_Monad.return False }) ?Q d1"
    if "main_part d1 = main_part ?d" for b d1
  proof -
    have "standing_by d1" using standing_by_stop [OF assms(1)] standing_by_main_part [OF that] by simp
    moreover have "md_config d1 = md_config d" using that by (simp add: main_part_def set_workers_def)
    ultimately show ?thesis
      by (intro wp_bind wp_conseq [OF wp_keep_old_scheduler] wp_return) auto
  qed
  have new: "wp (do { adopt_new_scheduler os config ws; State_Monad.return True }) ?Q d1"
    if "map sw_configs ws = map sw_configs (make_workers config)" "\<forall>w \<in> set ws. worker_runs w" for ws d1
    by (intro wp_bind wp_conseq [OF wp_adopt_new_scheduler [OF assms(2) that]] wp_return) auto
  have finish: "wp (do {
      (started, ws) \<leftarrow> (if prepared then on_files (sys (start_all_workers mo (make_workers config)))
        else State_Monad.return (False, make_workers config));
      if \<not> b \<or> \<not> prepared \<or> \<not> started
      then do { keep_old_scheduler os mo b; State_Monad.return False }
      else do { adopt_new_scheduler os config ws; State_Monad.return True } }) ?Q d1"
    if "main_part d1 = main_part ?d" for prepared b d1
  proof -
    have branch: "wp (if \<not> b \<or> \<not> prepared \<or> \<not> started
        then do { keep_old_scheduler os mo b; State_Monad.return False }
        else do { adopt_new_scheduler os config ws; State_Monad.return True }) ?Q d2"
      if "main_part d2 = main_part d1" "map sw_configs ws = map sw_configs (make_workers config)"
        "started \<longrightarrow> (\<forall>w \<in> set ws. worker_runs w)" for started ws d2
      using old [of d2] new [of ws d2] that \<open>main_part d1 = main_part ?d\<close> by simp
    have started: "wp (on_files (sys (start_all_workers mo (make_workers config))))
        (\<lambda>(started, ws). wp (if \<not> b \<or> \<not> prepared \<or> \<not> started
          then do { keep_old_scheduler os mo b; State_Monad.return False }
          else do { adopt_new_scheduler os config ws; State_Monad.return True }) ?Q) d1"
      by (rule wp_start_all [OF make_workers_props(2)], simp only: case_prod_conv, rule branch)
        (simp_all split: if_splits)
    moreover have "wp (State_Monad.return (False, make_workers config))
        (\<lambda>(started, ws). wp (if \<not> b \<or> \<not> prepared \<or> \<not> started
          then do { keep_old_scheduler os mo b; State_Monad.return False }
          else do { adopt_new_scheduler os config ws; State_Monad.return True }) ?Q) d1"
      by (rule wp_return, simp only: case_prod_conv, rule branch) simp_all
    ultimately show ?thesis
      by (intro wp_bind wp_if) (simp_all only: case_prod_unfold)
  qed
  show ?thesis
    unfolding replace_scheduler_def
    by (rule wp_bind, rule wp_modify, rule wp_bind, rule wp_on_threads, rule wp_bind, rule wp_if)
      (rule wp_on_files, rule finish, simp, rule wp_return, rule finish, simp)
qed

text \<open>The whole reload: it returns when the launcher's commands end, and leaves one scheduler in charge.\<close>

lemma parse_on_files:
  assumes "run_state (on_files (parse_config js os path)) d = (Some config, d1)" "sc_enable (sched config)"
  shows "config_valid (config\<lparr>launcher_package := pkg\<rparr>)"
  using assms parse_config_ok
  by (auto simp: on_files_def on_cycle_def file_layer_def config_valid_def split: prod.splits)

lemma daemon_ok_stop [simp]: "daemon_ok d \<Longrightarrow> daemon_ok (d\<lparr>md_running := False\<rparr>)"
  by (simp add: daemon_ok_def derived_ok_def retry_ok_def workers_serve_def)

lemma reload_ok:
  assumes "daemon_ok d" "reload js os mo ch path d = Some (ok, d')"
  shows "daemon_ok d' \<and> (md_running d' \<longrightarrow> ok \<or> md_config d' = md_config d)"
proof -
  obtain parsed d1 where parse: "run_state (on_files (parse_config js os path)) d = (parsed, d1)"
    by (metis surj_pair)
  from keepsD [OF keeps_main_part(1) parse] have same: "main_part d1 = main_part d" .
  then have d1: "daemon_ok d1" "md_config d1 = md_config d"
    using assms(1) daemon_ok_main_part by (auto simp: main_part_def)
  show ?thesis
  proof (cases parsed)
    case None
    with assms(2) parse d1 show ?thesis by (simp add: reload_def)
  next
    case (Some config)
    show ?thesis
    proof (cases "sc_enable (sched config)")
      case False
      with assms(2) parse Some d1 show ?thesis by (auto simp: reload_def)
    next
      case True
      with assms(2) parse Some obtain pkg w where
        "launcher_find ch (world (sl_env (cy_slice (md_cycle d1)))) = Some (pkg, w)"
        and run: "run_state (replace_scheduler os mo (config\<lparr>launcher_package := pkg\<rparr>))
          (snd (run_state (on_files (sys (State (\<lambda>_. ((), w))))) d1)) = (ok, d')"
        by (auto simp: reload_def split: option.splits)
      let ?d2 = "snd (run_state (on_files (sys (State (\<lambda>_. ((), w))))) d1)"
      have "main_part ?d2 = main_part d1"
        using keeps_main_part(1) [of "sys (State (\<lambda>_. ((), w)))"] by (simp add: keeps_def)
      then have d2: "daemon_ok ?d2" "md_config ?d2 = md_config d"
        using d1 daemon_ok_main_part [of ?d2 d1] by (auto simp: main_part_def)
      have "config_valid (config\<lparr>launcher_package := pkg\<rparr>)"
        using parse_on_files parse Some True by blast
      from wp_run [OF wp_replace_scheduler [OF d2(1) this] run] d2(2) show ?thesis by (cases ok) auto
    qed
  qed
qed

lemma reload_returns:
  assumes "child_clock ch clk"
  shows "\<exists>r. reload js os mo ch path d = Some r"
proof -
  have "\<exists>p w'. launcher_find ch w = Some (p, w')" for w using launcher_find_valid [OF assms, of w] by blast
  then show ?thesis by (auto simp: reload_def split: prod.split option.split) (metis option.distinct(1))
qed

subsection \<open>Retrying a configuration that failed\<close>

lemma next_delay_range:
  assumes "config_valid (md_config d)" "retry_ok d"
  shows "next_delay hash d \<in> {config_retry_initial_delay_s (sc_timing (sched (md_config d)))..
    config_retry_max_delay_s (sc_timing (sched (md_config d)))}" "next_delay hash d \<in> {1..300}"
  using assms by (auto simp: next_delay_def config_valid_def sched_in_range_def timing_in_range_def retry_ok_def)

text \<open>
  After a failure with a readable file: as long as the file stays as it is and is not the configuration in
  force, the reload is due again exactly when the delay has passed.
\<close>

lemma retry_when_due:
  assumes "hash \<noteq> 0" "hash \<noteq> md_last_hash d"
  shows "reload_due watcher mtime hash t (reload_failed hash now d) \<longleftrightarrow> now + next_delay hash d * 1000000000 \<le> t"
  using assms by (auto simp: reload_due_def reload_failed_def Let_def)

lemma reload_failed_ok:
  assumes "daemon_ok d"
  shows "daemon_ok (reload_failed hash now d)"
  using assms next_delay_range(1) [of d hash]
  by (auto simp: daemon_ok_def reload_failed_def derived_ok_def retry_ok_def)

lemma reload_done_ok:
  assumes "daemon_ok d"
  shows "daemon_ok (reload_done mtime hash d)"
  using assms
  by (auto simp: daemon_ok_def reload_done_def derived_ok_def retry_ok_def config_valid_def sched_in_range_def
      timing_in_range_def)

lemma check_config_ok:
  assumes "daemon_ok d" "check_config js os mo ch path changed d = Some d'"
  shows "daemon_ok d'"
proof -
  let ?m = "do {
         mtime \<leftarrow> on_files (get_file_mtime mo path);
         hash \<leftarrow> on_files (compute_config_hash os path);
         now \<leftarrow> on_files (sys (os_now os));
         State_Monad.return (mtime, hash, now) }"
  obtain mtime hash now d1 where run: "run_state ?m d = ((mtime, hash, now), d1)" by (metis surj_pair)
  have "keeps main_part ?m" by (intro keeps_rules)
  from keepsD [OF this run] have d1: "daemon_ok d1" using assms(1) daemon_ok_main_part by blast
  from assms(2) run have "d' = d1 \<or> (\<exists>ok d2. reload js os mo ch path d1 = Some (ok, d2) \<and>
      (d' = reload_done mtime hash d2 \<or> d' = reload_failed hash now d2))"
    by (auto simp: check_config_def split: if_splits option.splits)
  with d1 reload_ok reload_done_ok reload_failed_ok show ?thesis by blast
qed

subsection \<open>Everything that happens to the daemon\<close>

text \<open>
  The main loop follows the configuration file and runs a round of the scan; the router's thread delivers
  events; a worker takes a task and processes it; whatever else runs on the system changes the world; a
  request for a full scan is made; a signal ends the loop. The lock of \<open>main\<close> makes the first two steps; a
  task is taken to be processed without interruption (the caches it uses have locks of their own).
\<close>

definition worker_services ::
  "'w os \<Rightarrow> (string \<Rightarrow> nat) \<Rightarrow> 'r regex_lib \<Rightarrow> (int \<Rightarrow> 64 word) \<Rightarrow> (nat \<Rightarrow> 64 word) \<Rightarrow> scan_worker \<Rightarrow> ('w, 'r) services option" where
  "worker_services os hash rx hi hu w = map_option (\<lambda>config. \<lparr>sv_os = os, sv_rx = rx, sv_hash = hash,
     sv_key_hash = task_key_hash hi hu, sv_matcher = make_matcher rx config, sv_timing = sw_timing w\<rparr>) (sw_configs w)"

text \<open>A worker works on the shared state with its own schedule.\<close>

definition on_schedule :: "nat \<Rightarrow> ('w rt, 'a) state \<Rightarrow> ('w daemon, 'a) state" where
  "on_schedule i m = State (\<lambda>d. case run_state (on_threads (State (\<lambda>s.
       case run_state m (s\<lparr>schedule := sw_schedule (md_workers d ! i)\<rparr>) of (a, s1) \<Rightarrow> ((a, schedule s1), s1)))) d of
     ((a, st), d1) \<Rightarrow> (a, set_workers ((md_workers d1)[i := (md_workers d1 ! i)\<lparr>sw_schedule := st\<rparr>]) d1))"

text \<open>One round of the loop of worker \<open>i\<close>.\<close>

definition worker_turn ::
  "'w os \<Rightarrow> (string \<Rightarrow> nat) \<Rightarrow> 'r regex_lib \<Rightarrow> (int \<Rightarrow> 64 word) \<Rightarrow> (nat \<Rightarrow> 64 word) \<Rightarrow> nat
     \<Rightarrow> ('w daemon, unit) state" where
  "worker_turn os hash rx hi hu i = do {
     w \<leftarrow> gets (\<lambda>d. md_workers d ! i);
     case worker_take (sw_queue w) of (r, q) \<Rightarrow> do {
       modify (\<lambda>d. set_workers ((md_workers d)[i := w\<lparr>sw_queue := q\<rparr>]) d);
       (case r of
          Process task \<Rightarrow> on_schedule i (process_dispatch_task (worker_services os hash rx hi hu w) task)
        | _ \<Rightarrow> State_Monad.return ()) } }"

inductive daemon_step ::
  "json_lib \<Rightarrow> 'w os \<Rightarrow> 'w main_os \<Rightarrow> 'w child_os \<Rightarrow> string \<Rightarrow> (string \<Rightarrow> nat) \<Rightarrow> 'r regex_lib \<Rightarrow>
   (int \<Rightarrow> 64 word) \<Rightarrow> (nat \<Rightarrow> 64 word) \<Rightarrow> 'w daemon \<Rightarrow> 'w daemon \<Rightarrow> bool"
  for js os mo ch path hash rx hi hu where
  step_config: "check_config js os mo ch path changed d = Some d' \<Longrightarrow>
    daemon_step js os mo ch path hash rx hi hu d d'"
| step_round: "scan_round os hash rx (make_matcher rx (md_config d)) (worker_pool hi hu (length (md_workers d)))
      (sched (md_config d)) (md_refresh_ms d) (md_cycle d) = Some c \<Longrightarrow>
    daemon_step js os mo ch path hash rx hi hu d (d\<lparr>md_cycle := c\<rparr>)"
| step_events: "run_state (handle_events os hash rx (make_matcher rx (md_config d))
      (worker_pool hi hu (length (md_workers d))) (sched (md_config d)) new_pids dead_pids recycled_pids dropped)
      (md_cycle d) = (u, c) \<Longrightarrow>
    daemon_step js os mo ch path hash rx hi hu d (d\<lparr>md_cycle := c\<rparr>)"
| step_worker: "i < length (md_workers d) \<Longrightarrow> sw_started (md_workers d ! i) \<Longrightarrow>
    daemon_step js os mo ch path hash rx hi hu d (snd (run_state (worker_turn os hash rx hi hu i) d))"
| step_world: "daemon_step js os mo ch path hash rx hi hu d
      (d\<lparr>md_cycle := (md_cycle d)\<lparr>cy_slice := (cy_slice (md_cycle d))\<lparr>sl_env := (sl_env (cy_slice (md_cycle d)))\<lparr>world := w\<rparr>\<rparr>\<rparr>\<rparr>)"
| step_request: "daemon_step js os mo ch path hash rx hi hu d
      (d\<lparr>md_cycle := (md_cycle d)\<lparr>cy_rescan_needed := True\<rparr>\<rparr>)"
| step_signal: "daemon_step js os mo ch path hash rx hi hu d
      (d\<lparr>md_shutdown_requested := True, md_running := False\<rparr>)"

inductive daemon_reachable ::
  "json_lib \<Rightarrow> 'w os \<Rightarrow> 'w main_os \<Rightarrow> 'w child_os \<Rightarrow> string \<Rightarrow> (string \<Rightarrow> nat) \<Rightarrow> 'r regex_lib \<Rightarrow>
   (int \<Rightarrow> 64 word) \<Rightarrow> (nat \<Rightarrow> 64 word) \<Rightarrow> 'w daemon \<Rightarrow> bool"
  for js os mo ch path hash rx hi hu where
  daemon_started: "startup js os mo ch watches path sl = Some (Runs () d) \<Longrightarrow>
    daemon_reachable js os mo ch path hash rx hi hu d"
| daemon_next: "daemon_reachable js os mo ch path hash rx hi hu d \<Longrightarrow>
    daemon_step js os mo ch path hash rx hi hu d d' \<Longrightarrow> daemon_reachable js os mo ch path hash rx hi hu d'"

lemma enqueue_running [simp]: "wq_running (snd (enqueue t q)) = wq_running q"
  by (simp add: enqueue_def Let_def)

lemma worker_take_running [simp]: "wq_running (snd (worker_take q)) = wq_running q"
  by (simp add: worker_take_def split: list.split option.split)

lemma workers_serve_update:
  assumes "workers_serve config running ws" "i < length ws" "sw_configs w = sw_configs (ws ! i)"
    and "worker_runs (ws ! i) \<Longrightarrow> worker_runs w"
  shows "workers_serve config running (ws[i := w])"
proof -
  have "map sw_configs (ws[i := w]) = map sw_configs ws"
    using assms(2,3) by (simp add: map_update list_update_same_conv)
  moreover have "worker_runs v" if "running" "v \<in> set (ws[i := w])" for v
  proof -
    have all: "\<forall>w \<in> set ws. worker_runs w" using assms(1) that(1) by (simp add: workers_serve_def)
    then have "worker_runs w" using assms(2,4) by simp
    with that(2) set_update_subset_insert [of ws i] all show ?thesis by fast
  qed
  ultimately show ?thesis using assms(1) by (simp add: workers_serve_def)
qed

interpretation serving: worker_invariant "workers_serve config running" "worker_pool hi hu n"
  for config running hi hu n
proof
  fix q i t r q'
  assume serve: "workers_serve config running q" and run: "pl_enqueue (worker_pool hi hu n) i t q = (r, q')"
  have q': "q' = q[i := (q ! i)\<lparr>sw_queue := snd (enqueue t (sw_queue (q ! i)))\<rparr>]"
    using run by (auto simp: worker_pool_def enqueue_at_def split: prod.splits)
  show "workers_serve config running q'"
    using workers_serve_update [OF serve, of i] serve q'
    by (cases "i < length q") (simp_all add: list_update_beyond worker_runs_def)
qed

lemma daemon_ok_cycle:
  "daemon_ok d \<Longrightarrow> workers_serve (md_config d) (md_running d) (cy_workers c) \<Longrightarrow> daemon_ok (d\<lparr>md_cycle := c\<rparr>)"
  by (simp add: daemon_ok_def derived_ok_def retry_ok_def)

lemma wp_workers:
  assumes "daemon_ok d" "workers_serve (md_config d) (md_running d) ws"
  shows "daemon_ok (set_workers ws d)"
  using assms by (simp add: daemon_ok_def derived_ok_def retry_ok_def set_workers_def)

lemma on_schedule_ok: "inv_kept daemon_ok (on_schedule i m)"
proof (rule inv_keptI)
  fix d a d'
  assume ok: "daemon_ok d" and run: "run_state (on_schedule i m) d = (a, d')"
  let ?m = "State (\<lambda>s. case run_state m (s\<lparr>schedule := sw_schedule (md_workers d ! i)\<rparr>) of
      (a, s1) \<Rightarrow> ((a, schedule s1), s1))"
  obtain st d1 where threads: "run_state (on_threads ?m) d = ((a, st), d1)"
    and d': "d' = set_workers ((md_workers d1)[i := (md_workers d1 ! i)\<lparr>sw_schedule := st\<rparr>]) d1"
    using run by (auto simp: on_schedule_def split: prod.splits)
  have ok1: "daemon_ok d1"
    using keepsD [OF keeps_main_part(2) threads] ok daemon_ok_main_part by blast
  then have serve: "workers_serve (md_config d1) (md_running d1) (md_workers d1)" by (simp add: daemon_ok_def)
  show "daemon_ok d'"
    unfolding d' using wp_workers [OF ok1] workers_serve_update [OF serve, of i] serve
    by (cases "i < length (md_workers d1)") (simp_all add: list_update_beyond worker_runs_def)
qed

lemma worker_turn_ok: "inv_kept daemon_ok (worker_turn os hash rx hi hu i)"
proof (rule inv_keptI)
  fix d a d'
  assume ok: "daemon_ok d" and run: "run_state (worker_turn os hash rx hi hu i) d = (a, d')"
  obtain r q where take: "worker_take (sw_queue (md_workers d ! i)) = (r, q)" by (metis surj_pair)
  have q: "wq_running q = wq_running (sw_queue (md_workers d ! i))"
    using worker_take_running [of "sw_queue (md_workers d ! i)"] take by simp
  let ?d = "set_workers ((md_workers d)[i := (md_workers d ! i)\<lparr>sw_queue := q\<rparr>]) d"
  have serve: "workers_serve (md_config d) (md_running d) (md_workers d)" using ok by (simp add: daemon_ok_def)
  have "daemon_ok ?d"
    using wp_workers [OF ok] workers_serve_update [OF serve, of i] serve q
    by (cases "i < length (md_workers d)") (simp_all add: list_update_beyond worker_runs_def)
  with run take inv_keptD [OF on_schedule_ok] show "daemon_ok d'"
    by (auto simp: worker_turn_def split: iteration.splits)
qed

lemma daemon_step_ok:
  assumes "daemon_step js os mo ch path hash rx hi hu d d'" "daemon_ok d"
  shows "daemon_ok d'"
proof -
  have serve: "workers_serve (md_config d) (md_running d) (md_workers d)" using assms(2) by (simp add: daemon_ok_def)
  from assms(1) show ?thesis
  proof (cases rule: daemon_step.cases)
    case (step_config changed)
    then show ?thesis using check_config_ok [OF assms(2)] by blast
  next
    case (step_round c)
    then show ?thesis
      using daemon_ok_cycle [OF assms(2) serving.kept_scan_round [OF step_round(2) serve]] by simp
  next
    case step_events
    then show ?thesis
      using daemon_ok_cycle [OF assms(2) inv_keptD [OF serving.kept_handle_events serve step_events(2)]] by simp
  next
    case (step_worker i)
    then show ?thesis using inv_kept_snd [OF worker_turn_ok assms(2)] by simp
  qed (use assms(2) in \<open>simp_all add: daemon_ok_def derived_ok_def retry_ok_def workers_serve_def\<close>)
qed

lemma wp_anything: "(\<And>a s'. Q a s') \<Longrightarrow> wp m Q s"
  by (simp add: wp_iff)

lemma startup_ok:
  assumes "startup js os mo ch watches path sl = Some (Runs x d)"
  shows "daemon_ok d"
proof -
  obtain parsed s1 where parse: "run_state (on_env (parse_config js os path)) sl = (parsed, s1)" by (metis surj_pair)
  with assms obtain config pkg w where config: "parsed = Some config" "sc_enable (sched config)"
    and run: "fst (run_state (start_scheduler os mo watches path (config\<lparr>launcher_package := pkg\<rparr>))
      (snd (run_state (on_env (sys (State (\<lambda>_. ((), w))))) s1))) = Runs x d"
    by (auto simp: startup_def split: option.splits if_splits)
  let ?config = "config\<lparr>launcher_package := pkg\<rparr>"
  have valid: "config_valid ?config"
    using parse config parse_config_ok by (auto simp: on_env_def config_valid_def split: prod.splits)
  have "wp (start_scheduler os mo watches path ?config) (\<lambda>r _. \<forall>x d. r = Runs x d \<longrightarrow> daemon_ok d) s" for s
  proof -
    have start: "wp (on_env (sys (start_all_workers mo (make_workers ?config))))
        (\<lambda>(started, ws) _. started \<longrightarrow> workers_serve ?config True ws) s" for s
    proof -
      obtain ok ws w where run: "run_state (start_all_workers mo (make_workers ?config)) (world (sl_env s)) = ((ok, ws), w)"
        by (metis surj_pair)
      from start_all_result [OF make_workers_props(2) run] run show ?thesis
        by (simp add: wp_def on_env_def workers_serve_def make_workers_props split: if_splits)
    qed
    have new: "daemon_ok (new_daemon ?config sl ws mtime hash now)" if "workers_serve ?config True ws" for sl ws mtime hash now
      using valid that
      by (auto simp: new_daemon_def daemon_ok_def derived_ok_def retry_ok_def first_cycle_def config_valid_def
          sched_in_range_def timing_in_range_def)
    have rest: "wp (if \<not> started then State_Monad.return (Exits 1)
        else do {
          x \<leftarrow> watches ?config;
          mtime \<leftarrow> on_env (get_file_mtime mo path);
          hash \<leftarrow> on_env (compute_config_hash os path);
          now \<leftarrow> on_env (sys (os_now os));
          sl \<leftarrow> gets id;
          State_Monad.return (Runs x (new_daemon ?config sl ws mtime hash now)) })
        (\<lambda>r _. \<forall>x d. r = Runs x d \<longrightarrow> daemon_ok d) s" if "started \<longrightarrow> workers_serve ?config True ws" for started ws s
      using new that by (intro wp_if wp_bind wp_anything wp_gets wp_return) auto
    show ?thesis
      unfolding start_scheduler_def
      by (rule wp_bind, rule wp_anything, rule wp_if, rule wp_return, simp, rule wp_bind, rule wp_anything,
          rule wp_bind, rule wp_conseq [OF start]) (auto intro: rest)
  qed
  from wp_run [OF this] run show ?thesis by (metis prod.collapse)
qed

lemma reachable_daemon_ok:
  "daemon_reachable js os mo ch path hash rx hi hu d \<Longrightarrow> daemon_ok d"
  by (induction rule: daemon_reachable.induct) (auto intro: startup_ok daemon_step_ok)

text \<open>Whatever is started in between, the daemon is one of these.\<close>

lemma started_any:
  assumes "startup js os mo ch watches path sl = Some (Runs x d)"
  shows "daemon_reachable js os mo ch path hash rx hi hu d"
proof (rule daemon_started)
  let ?watches = "\<lambda>config. do { _ \<leftarrow> watches config; State_Monad.return () }"
  have "fst (run_state (start_scheduler os mo watches path config) s) = Runs x d \<Longrightarrow>
      fst (run_state (start_scheduler os mo ?watches path config) s) = Runs () d" for config s
    by (auto simp: start_scheduler_def split: prod.splits if_splits)
  with assms show "startup js os mo ch ?watches path sl = Some (Runs () d)"
    by (auto simp: startup_def split: prod.splits option.splits if_splits)
qed

subsection \<open>The hash notices an edit\<close>

text \<open>
  Reading in blocks makes no difference, and since the prime is odd every step is a bijection: files that
  differ in one byte never have the same hash.
\<close>

lemma hash_blocks_eq: "hash_blocks h s = foldl fnv_step h s"
proof (induction h s rule: hash_blocks.induct)
  case (1 h s)
  have "foldl fnv_step h s = foldl fnv_step (foldl fnv_step h (take 4096 s)) (drop 4096 s)"
    by (simp only: foldl_append [symmetric] append_take_drop_id)
  with 1 show ?case by (subst hash_blocks.simps) auto
qed

declare hash_blocks.simps [simp del]

lemma fnv_prime_inverse: "fnv_prime * 14886173955864302971 = 1"
  by (simp add: fnv_prime_def)

lemma fnv_prime_cancel: "a * fnv_prime = b * fnv_prime \<longleftrightarrow> a = b"
proof
  assume "a * fnv_prime = b * fnv_prime"
  then have "a * (fnv_prime * 14886173955864302971) = b * (fnv_prime * 14886173955864302971)"
    by (simp only: mult.assoc [symmetric])
  then show "a = b" by (simp add: fnv_prime_inverse)
qed simp

lemma xor_cancel: "a XOR b = a' XOR b \<longleftrightarrow> a = (a' :: 64 word)" "b XOR a = b XOR a' \<longleftrightarrow> a = (a' :: 64 word)"
  by (metis xor.assoc xor.commute xor_self_eq xor.right_neutral)+

lemma fnv_step_inject: "fnv_step h c = fnv_step h' c \<longleftrightarrow> h = h'" "fnv_step h c = fnv_step h c' \<longleftrightarrow> c = c'"
proof -
  show "fnv_step h c = fnv_step h' c \<longleftrightarrow> h = h'" by (simp add: fnv_step_def fnv_prime_cancel xor_cancel)
  have "c = c'" if "(of_nat (of_char c) :: 64 word) = of_nat (of_char c')"
  proof -
    have "unat (of_nat (of_char d) :: 64 word) = of_char d" for d
    proof -
      have less: "(of_char d :: nat) < 256" by simp
      show ?thesis unfolding unat_of_nat by (rule mod_less, rule less_trans [OF less]) simp
    qed
    with that show ?thesis by (metis of_char_eq_iff)
  qed
  then show "fnv_step h c = fnv_step h c' \<longleftrightarrow> c = c'" by (auto simp: fnv_step_def fnv_prime_cancel xor_cancel)
qed

lemma fnv_foldl_inject: "foldl fnv_step h s = foldl fnv_step h' s \<longleftrightarrow> h = h'"
  by (induction s arbitrary: h h') (simp_all add: fnv_step_inject)

lemma hash_one_edit: "hash_blocks h (xs @ c # ys) = hash_blocks h (xs @ c' # ys) \<longleftrightarrow> c = c'"
  by (simp add: hash_blocks_eq fnv_foldl_inject fnv_step_inject)

subsection \<open>The configuration path\<close>

lemma resolved_path_inside:
  assumes "run_state (resolve_allowed_config_path os mo user_path allowed_dir) e = (Some path, e')"
  shows "\<exists>directory w w1. fst (run_state (mo_realpath mo allowed_dir) w) = Some directory \<and>
    str_starts path (directory @ ''/'') \<and> fst (run_state (os_stat os path) w1) = RegularFile"
  using assms
  by (auto simp: resolve_allowed_config_path_def split: prod.splits option.splits if_splits)
    (metis fst_conv)+

end
