(* ===== verification/Cache_Safety.thy ===== *)
theory Cache_Safety
  imports Daemon
begin

section \<open>The thread cache through the whole life of the daemon\<close>

text \<open>
  The invariant of the thread cache, that every entry is filed under its own thread and that a scheduling
  dimension is managed only while the baseline to restore it is held, is kept by everything that happens to
  the daemon: scan rounds, batches of events, the tasks of the workers, reloads that succeed or fail. So the
  shutdown starts from a well-formed cache, and its exit code can be trusted
  (\<open>reachable_cache_ok\<close>, \<open>shutdown_of_reachable\<close>).
\<close>

abbreviation scan_cache_ok :: "'w scan_st \<Rightarrow> bool" where
  "scan_cache_ok s \<equiv> tcache_inv (ss_cache s)"

abbreviation cycle_cache_ok :: "('w, 'q) cycle \<Rightarrow> bool" where
  "cycle_cache_ok c \<equiv> tcache_inv (cy_cache c)"

abbreviation daemon_cache_ok :: "'w daemon \<Rightarrow> bool" where
  "daemon_cache_ok d \<equiv> tcache_inv (cy_cache (md_cycle d))"

subsection \<open>The full scan\<close>

lemma scan_views_cache:
  "inv_kept scan_cache_ok (in_slice m)" "inv_kept scan_cache_ok (scan_matcher n)"
  "inv_kept scan_cache_ok (set_scan f)" "inv_kept scan_cache_ok (get_scan g)"
  unfolding in_slice_def scan_matcher_def set_scan_def get_scan_def
  by (intro hoare_rules; simp add: case_prod_unfold)+

lemma scan_threads_cache: "inv_kept scan_cache_ok (scan_threads os pid n)"
  by (induction n) (auto intro!: hoare_rules scan_views_cache)

lemma enumerations_cache:
  "inv_kept scan_cache_ok (enumerate_pids os)" "inv_kept scan_cache_ok (enumerate_current_tids os)"
  unfolding enumerate_pids_def enumerate_current_tids_def read_proc_def read_current_tasks_def
  by (intro hoare_rules scan_views_cache)+

lemma scan_iteration_cache: "inv_kept scan_cache_ok (scan_iteration os hash rx m)"
  unfolding scan_iteration_def finish_pid_def start_pid_def
  by (intro hoare_rules scan_views_cache scan_threads_cache enumerations_cache) (simp add: tcache_inv_retain)

lemma scan_loop_cache:
  assumes "scan_loop os hash rx m s = Some r" "scan_cache_ok s"
  shows "scan_cache_ok (snd r)"
  using assms
proof (induction rule: scan_loop.raw_induct [rotated, consumes 1])
  case (1 loop os hash rx m s r)
  have "scan_cache_ok (snd (run_state (scan_iteration os hash rx m) s))"
    using inv_kept_snd [OF scan_iteration_cache 1(3)] .
  with 1 show ?case by (auto simp: Let_def split: if_splits)
qed

lemma advance_cache:
  assumes "advance_full_scan os hash rx m s = Some (b, s')" "scan_cache_ok s"
  shows "scan_cache_ok s'"
  using assms inv_kept_snd [OF enumerations_cache(1) assms(2)]
  by (auto simp: advance_full_scan_def split: if_splits prod.splits dest!: scan_loop_cache)
    (metis snd_conv)+

lemma cleanup_cache: "tcache_inv (fst st) \<Longrightarrow> tcache_inv (fst (cleanup_dead_pids dead st))"
proof -
  have "tcache_inv (fst st) \<Longrightarrow> tcache_inv (fst (fold
     (\<lambda>pid (cache, pinned_cache, topfore_cache, pinned_pids, topfore_pids).
        (reset_for_pid pid cache, pinned_cache - {pid}, topfore_cache - {pid},
         pinned_pids - {pid}, topfore_pids - {pid})) pids st))" for pids st
    by (induction pids arbitrary: st) (auto simp: tcache_inv_reset)
  then show "tcache_inv (fst st) \<Longrightarrow> tcache_inv (fst (cleanup_dead_pids dead st))"
    by (simp add: cleanup_dead_pids_def)
qed

subsection \<open>Scan rounds and events\<close>

lemma cycle_views_cache:
  "inv_kept cycle_cache_ok (file_layer m1)" "inv_kept cycle_cache_ok (cycle_slice m2)"
  "inv_kept cycle_cache_ok (cycle_matcher m3)" "inv_kept cycle_cache_ok request_full_scan"
  unfolding file_layer_def cycle_slice_def cycle_matcher_def request_full_scan_def
  by (intro hoare_rules; simp add: case_prod_unfold)+

lemma start_budget_cache: "inv_kept cycle_cache_ok (start_budget os b cfg)"
  unfolding start_budget_def by (intro hoare_rules cycle_views_cache) simp

lemma in_full_cycle_cache:
  assumes "\<And>x c. cy_cache (set_cur x c) = cy_cache c"
  shows "inv_kept cycle_cache_ok (in_full_cycle cur set_cur m)"
  unfolding in_full_cycle_def by (intro hoare_rules) (simp add: assms scanner_put_def)

lemma dispatch_phases_cache: "inv_kept cycle_cache_ok (dispatch_phases os pool n)"
proof -
  have "inv_kept cycle_cache_ok (dispatch_phase os pool phase)" for phase
    unfolding dispatch_phase_def by (intro hoare_rules in_full_cycle_cache) simp_all
  then show ?thesis by (induction n) (auto intro!: hoare_rules cycle_views_cache)
qed

lemma dispatch_and_finish_cache: "inv_kept cycle_cache_ok (dispatch_and_finish os pool refresh_ms)"
  unfolding dispatch_and_finish_def finish_cycle_def
  by (intro hoare_rules cycle_views_cache dispatch_phases_cache) simp_all

lemma publish_cache: "cycle_cache_ok c \<Longrightarrow> cycle_cache_ok (publish_scan c)"
proof -
  let ?f = "cy_scan c"
  assume "cycle_cache_ok c"
  then have "tcache_inv (fst (cleanup_dead_pids (fs_dead_pids ?f)
      (cy_cache c, fs_pinned_pids ?f, fs_topfore_pids ?f, fs_pinned_pids ?f, fs_topfore_pids ?f)))"
    using cleanup_cache by simp
  then show ?thesis by (auto simp: publish_scan_def Let_def split: prod.splits)
qed

lemma scan_step_cache:
  assumes "scan_step os hash rx m c = Some c'" "cycle_cache_ok c"
  shows "cycle_cache_ok c'"
proof (cases "fs_active (cy_scan c)")
  case False
  with assms show ?thesis by (simp add: scan_step_def)
next
  case True
  let ?s = "\<lparr>ss_slice = cy_slice c, ss_process_cache = cy_process_cache c, ss_cache = cy_cache c, ss_scan = cy_scan c\<rparr>"
  obtain complete s where run: "advance_full_scan os hash rx m ?s = Some (complete, s)"
    using assms(1) True by (auto simp: scan_step_def split: option.splits)
  have ok: "tcache_inv (ss_cache s)" using advance_cache [OF run] assms(2) by simp
  with assms(1) True run show ?thesis by (auto simp: scan_step_def Let_def intro!: publish_cache)
qed

lemma full_tick_cache:
  assumes "full_tick os hash rx m pool cfg refresh_ms c = Some c'" "cycle_cache_ok c"
  shows "cycle_cache_ok c'"
proof -
  obtain u c1 where c1: "run_state (start_budget os (sc_full_scan_budget_us cfg) cfg) c = (u, c1)"
    by (metis surj_pair)
  obtain c2 where c2: "scan_step os hash rx m (start_cycle c1) = Some c2"
    "c' = snd (run_state (dispatch_and_finish os pool refresh_ms) c2)"
    using assms(1) c1 by (auto simp: full_tick_def split: option.splits)
  have "cycle_cache_ok (start_cycle c1)"
    using inv_keptD [OF start_budget_cache assms(2) c1] by (simp add: start_cycle_def reset_cursors_def)
  from inv_kept_snd [OF dispatch_and_finish_cache scan_step_cache [OF c2(1) this]] c2(2) show ?thesis by simp
qed

lemma fast_tick_cache: "inv_kept cycle_cache_ok (fast_tick os pool cfg)"
proof -
  have views: "inv_kept (\<lambda>s. cycle_cache_ok (snd s)) (in_fast_tick cur set_cur m)"
    if "\<And>x c. cy_cache (set_cur x c) = cy_cache c" for cur set_cur m
    unfolding in_fast_tick_def by (intro hoare_rules) (auto simp: that scanner_put_def)
  have out: "inv_kept (\<lambda>s. cycle_cache_ok (snd s)) (fast_exhausted os)"
    unfolding fast_exhausted_def using cycle_views_cache(2) by (force simp: inv_kept_def hoare_def split: prod.splits)
  have "inv_kept (\<lambda>s. cycle_cache_ok (snd s)) (fast_dispatch os pool)"
    unfolding fast_dispatch_def by (intro hoare_rules views out) simp_all
  then show ?thesis
    unfolding fast_tick_def
    by (intro hoare_rules start_budget_cache, intro inv_keptI) (force dest: inv_keptD split: prod.splits)
qed

lemma scan_round_cache:
  assumes "scan_round os hash rx m pool cfg refresh_ms c = Some c'" "cycle_cache_ok c"
  shows "cycle_cache_ok c'"
proof -
  obtain now c1 where now: "run_state (file_layer (sys (os_now os))) c = (now, c1)" by (metis surj_pair)
  have kept: "cycle_cache_ok (c1\<lparr>cy_rescan_needed := False\<rparr>)"
    using inv_keptD [OF cycle_views_cache(1) assms(2) now] by simp
  show ?thesis
    using assms(1) now full_tick_cache [OF _ kept] inv_kept_snd [OF fast_tick_cache kept]
    by (simp add: scan_round_def Let_def split: if_splits) auto
qed

lemma handle_events_cache:
  "inv_kept cycle_cache_ok (handle_events os hash rx m pool cfg new_pids dead_pids recycled_pids dropped)"
proof -
  let ?P = "\<lambda>s :: ('a, 'b) incremental. cycle_cache_ok (snd s)"
  have cycle: "inv_kept ?P (in_cycle m)" if "inv_kept cycle_cache_ok m" for m :: "(('a, 'b) cycle, 'x) state"
    unfolding in_cycle_def using that by (force simp: inv_kept_def hoare_def split: prod.splits)
  have local: "inv_kept ?P (in_local_scan m)" for m :: "(('a, 'b) scanner, 'x) state"
    unfolding in_local_scan_def by (intro hoare_rules) (auto simp: scanner_put_def)
  have new: "inv_kept ?P (dispatch_new_process os hash rx m pool pid)" for pid
    unfolding dispatch_new_process_def dispatch_by_rule_def
    by (intro hoare_rules local cycle cycle_views_cache)
  have forget: "inv_kept cycle_cache_ok (forget_process pid)" "inv_kept cycle_cache_ok (forget_dead pid)" for pid
    unfolding forget_process_def forget_dead_def
    by (intro hoare_rules cycle_views_cache; simp add: tcache_inv_reset)+
  have handle: "inv_kept cycle_cache_ok (handle_new_pid os hash rx m pool cfg pid)" for pid
    unfolding handle_new_pid_def
    by (intro hoare_rules forget start_budget_cache, intro inv_keptI)
      (use inv_keptD [OF new] in \<open>force split: prod.splits\<close>)
  have loop: "inv_kept cycle_cache_ok (for_each_pid f pids)"
    if "\<And>pid. inv_kept cycle_cache_ok (f pid)" for f :: "int \<Rightarrow> (('a, 'b) cycle, unit) state" and pids
    by (induction pids) (auto intro!: hoare_rules that)
  show ?thesis
    unfolding handle_events_def by (intro hoare_rules loop cycle_views_cache handle forget)
qed

subsection \<open>Reloads\<close>

lemma on_cycle_cache: "inv_kept cycle_cache_ok m \<Longrightarrow> inv_kept daemon_cache_ok (on_cycle m)"
  unfolding on_cycle_def by (force simp: inv_kept_def hoare_def split: prod.splits)

lemma on_files_cache: "inv_kept daemon_cache_ok (on_files m)"
  unfolding on_files_def by (intro on_cycle_cache cycle_views_cache)

lemma on_threads_cache:
  "inv_kept (\<lambda>s. tcache_inv (tcache s)) m \<Longrightarrow> inv_kept daemon_cache_ok (on_threads m)"
  unfolding on_threads_def by (force simp: inv_kept_def hoare_def split: prod.splits)

lemma restore_all_cache: "inv_kept (\<lambda>s. tcache_inv (tcache s)) (restore_all_thread_baselines os)"
  using restore_all_result by (fastforce intro: inv_keptI)

lemma set_workers_cache [simp]: "daemon_cache_ok (set_workers ws d) = daemon_cache_ok d"
  by (simp add: set_workers_def)

lemma keep_old_cache: "inv_kept daemon_cache_ok (keep_old_scheduler os mo b)"
  unfolding keep_old_scheduler_def settle_old_scheduler_def stop_running_def
  by (intro hoare_rules on_files_cache on_cycle_cache cycle_views_cache) simp_all

lemma adopt_new_cache: "inv_kept daemon_cache_ok (adopt_new_scheduler os config ws)"
  unfolding adopt_new_scheduler_def
  by (intro hoare_rules on_files_cache)
    (simp_all add: adopt_config_def fresh_cycle_def reset_cursors_def tcache_inv_clear_scheduling set_workers_def)

lemma replace_scheduler_cache: "inv_kept daemon_cache_ok (replace_scheduler os mo config)"
  unfolding replace_scheduler_def
  by (intro hoare_rules on_files_cache on_threads_cache restore_all_cache keep_old_cache adopt_new_cache) simp

lemma reload_cache:
  assumes "reload js os mo ch path d = Some (ok, d')" "daemon_cache_ok d"
  shows "daemon_cache_ok d'"
proof -
  obtain parsed d1 where parse: "run_state (on_files (parse_config js os path)) d = (parsed, d1)"
    by (metis surj_pair)
  have d1: "daemon_cache_ok d1" using inv_keptD [OF on_files_cache assms(2) parse] .
  have "daemon_cache_ok (snd (run_state (replace_scheduler os mo config)
      (snd (run_state (on_files (sys (State (\<lambda>_. ((), w))))) d1))))" for config w
    by (intro inv_kept_snd [OF replace_scheduler_cache] inv_kept_snd [OF on_files_cache] d1)
  with assms(1) parse d1 show ?thesis
    by (auto simp: reload_def split: option.splits if_splits) (metis snd_conv)
qed

lemma check_config_cache:
  assumes "check_config js os mo ch path changed d = Some d'" "daemon_cache_ok d"
  shows "daemon_cache_ok d'"
proof -
  let ?m = "do {
         mtime \<leftarrow> on_files (get_file_mtime mo path);
         hash \<leftarrow> on_files (compute_config_hash os path);
         now \<leftarrow> on_files (sys (os_now os));
         State_Monad.return (mtime, hash, now) }"
  obtain mtime hash now d1 where run: "run_state ?m d = ((mtime, hash, now), d1)" by (metis surj_pair)
  have "inv_kept daemon_cache_ok ?m" by (intro hoare_rules on_files_cache)
  from inv_keptD [OF this assms(2) run] have d1: "daemon_cache_ok d1" .
  have ended: "daemon_cache_ok (reload_done mtime hash d2)" "daemon_cache_ok (reload_failed hash now d2)"
    if "daemon_cache_ok d2" for d2
    using that by (simp_all add: reload_done_def reload_failed_def)
  from assms(1) run have "d' = d1 \<or> (\<exists>ok d2. reload js os mo ch path d1 = Some (ok, d2) \<and>
      (d' = reload_done mtime hash d2 \<or> d' = reload_failed hash now d2))"
    by (auto simp: check_config_def split: if_splits option.splits)
  with d1 ended reload_cache show ?thesis by blast
qed

subsection \<open>The tasks of the workers\<close>

lemma on_schedule_cache:
  assumes "inv_kept (\<lambda>s. tcache_inv (tcache s)) m"
  shows "inv_kept daemon_cache_ok (on_schedule i m)"
proof (rule inv_keptI)
  fix d a d'
  assume ok: "daemon_cache_ok d" and run: "run_state (on_schedule i m) d = (a, d')"
  let ?m = "State (\<lambda>s. case run_state m (s\<lparr>schedule := sw_schedule (md_workers d ! i)\<rparr>) of
      (a, s1) \<Rightarrow> ((a, schedule s1), s1))"
  obtain st d1 where threads: "run_state (on_threads ?m) d = ((a, st), d1)"
    and d': "d' = set_workers ((md_workers d1)[i := (md_workers d1 ! i)\<lparr>sw_schedule := st\<rparr>]) d1"
    using run by (auto simp: on_schedule_def split: prod.splits)
  have "inv_kept (\<lambda>s. tcache_inv (tcache s)) ?m"
  proof (rule inv_keptI)
    fix s b s'
    assume s: "tcache_inv (tcache s)" and run: "run_state ?m s = (b, s')"
    from run obtain a where "run_state m (s\<lparr>schedule := sw_schedule (md_workers d ! i)\<rparr>) = (a, s')"
      by (auto split: prod.splits)
    from inv_keptD [OF assms _ this] s show "tcache_inv (tcache s')" by simp
  qed
  from inv_keptD [OF on_threads_cache [OF this] ok threads] show "daemon_cache_ok d'" by (simp add: d')
qed

lemma worker_turn_cache: "inv_kept daemon_cache_ok (worker_turn os hash rx hi hu i)"
proof -
  have task: "inv_kept (\<lambda>s. tcache_inv (tcache s)) (process_dispatch_task sv task)" for sv task
    using dispatch_ok [of sv task] unfolding rt_cache_ok_def [abs_def] .
  have rest: "inv_kept daemon_cache_ok (case r of
        Process task \<Rightarrow> on_schedule i (process_dispatch_task sv task) | _ \<Rightarrow> State_Monad.return ())" for r sv
    by (cases r) (auto intro: hoare_rules on_schedule_cache task)
  show ?thesis
    unfolding worker_turn_def by (intro hoare_rules rest) simp
qed

subsection \<open>The daemon\<close>

lemma daemon_step_cache:
  assumes "daemon_step js os mo ch path hash rx hi hu d d'" "daemon_cache_ok d"
  shows "daemon_cache_ok d'"
  using assms(1)
proof (cases rule: daemon_step.cases)
  case (step_config changed)
  with assms(2) show ?thesis by (blast intro: check_config_cache)
next
  case (step_round c)
  with scan_round_cache [OF step_round(2) assms(2)] show ?thesis by simp
next
  case step_events
  with inv_keptD [OF handle_events_cache assms(2) step_events(2)] show ?thesis by simp
next
  case (step_worker i)
  with inv_kept_snd [OF worker_turn_cache assms(2)] show ?thesis by simp
qed (use assms(2) in simp_all)

lemma startup_cache:
  assumes "startup js os mo ch watches path sl = Some (Runs x d)"
  shows "daemon_cache_ok d"
proof -
  have "fst (run_state (start_scheduler os mo watches path config) s) = Runs x d \<Longrightarrow> daemon_cache_ok d" for config s
    by (auto simp: start_scheduler_def new_daemon_def first_cycle_def split: prod.splits if_splits)
  with assms show ?thesis by (auto simp: startup_def split: prod.splits option.splits if_splits)
qed

lemma reachable_cache_ok:
  "daemon_reachable js os mo ch path hash rx hi hu d \<Longrightarrow> daemon_cache_ok d"
  by (induction rule: daemon_reachable.induct) (blast intro: startup_cache daemon_step_cache)+

text \<open>
  So the exit code is the truth, from whatever state the daemon is shut down: it says whether the attempts have
  left a baseline, and the cache is cleared only when they have left none.
\<close>

definition baselines_left :: "'w daemon \<Rightarrow> StoredThreadBaseline list" where
  "baselines_left d = get_all_baselines (cy_cache (md_cycle d))"

lemma shutdown_of_reachable:
  assumes "daemon_reachable js os mo ch path hash rx hi hu d" "run_state (shut_down os) d = (code, d')"
  shows "code = (if baselines_left (after_attempts os d) = [] then 0 else 2)"
    and "cy_cache (md_cycle d') =
      (if baselines_left (after_attempts os d) = [] then [] else cy_cache (md_cycle (after_attempts os d)))"
    and "\<forall>w \<in> set (md_workers d'). \<not> sw_started w \<and> \<not> wq_running (sw_queue w)"
proof -
  let ?d = "set_workers (stop_all_workers (md_workers d)) d"
  let ?s = "\<lparr>rt_env = sl_env (cy_slice (md_cycle ?d)), group_checks = md_group_checks ?d,
      process_cache = cy_process_cache (md_cycle ?d), tcache = cy_cache (md_cycle ?d), schedule = no_schedule\<rparr>"
  obtain r s1 where attempts: "run_state (shutdown_attempts os) ?s = (r, s1)" by (metis surj_pair)
  have "tcache_inv (tcache ?s)" using reachable_cache_ok [OF assms(1)] by (simp add: set_workers_def)
  note outcome = shutdown_outcome [OF this attempts]
  have left: "baselines_left (after_attempts os d) = get_all_baselines (tcache s1)"
    "cy_cache (md_cycle (after_attempts os d)) = tcache s1"
    using attempts by (simp_all add: baselines_left_def after_attempts_def on_threads_def)
  show "code = (if baselines_left (after_attempts os d) = [] then 0 else 2)"
    "cy_cache (md_cycle d') =
      (if baselines_left (after_attempts os d) = [] then [] else cy_cache (md_cycle (after_attempts os d)))"
    using assms(2) outcome unfolding left by (auto simp: shut_down_def on_threads_def split: if_splits)
  have "md_workers d' = stop_all_workers (md_workers d)"
    using assms(2) outcome by (auto simp: shut_down_def on_threads_def set_workers_def split: if_splits)
  then show "\<forall>w \<in> set (md_workers d'). \<not> sw_started w \<and> \<not> wq_running (sw_queue w)"
    by (auto simp: stop_all_workers_def stop_scan_worker_def stop_worker_def)
qed

end
