(* ===== verification/Event_Router.thy ===== *)
theory Event_Router
  imports Prelude
begin

section \<open>The event router (core/event\_router.hpp)\<close>

text \<open>
  Process events arrive one by one from the \<open>/proc\<close> monitor and are handed on in batches: a
  bounded map keeps one summary per process, the router thread swaps it out once per throttle
  window, compares it with the processes it tracks, and calls the handler with the new, the
  dead and the recycled ones. Each critical section of the code is one definition, and
  \<open>router_step\<close> interleaves them; \<open>er_pc\<close> is where the router thread stands, with its local
  variables. The handler and the failure callback are functions the client passes in; they
  return false when they throw. Main results: what a batch reports
  (\<open>classify_summary\<close>) and that the tracked set follows the events
  (\<open>trace_tracks\<close>).
\<close>

subsection \<open>State\<close>

record PendingEvent =
  pv_is_create :: bool
  pv_saw_delete :: bool

definition new_event :: PendingEvent where
  "new_event = \<lparr>pv_is_create = False, pv_saw_delete = False\<rparr>"

type_synonym 's event_handler = "int set \<Rightarrow> int set \<Rightarrow> int set \<Rightarrow> bool \<Rightarrow> ('s, bool) state"

type_synonym pending_events = "(int, PendingEvent) umap"

datatype 's router_pc =
    LoopTop
  | Waiting
  | Aggregating
  | Taken pending_events bool "'s event_handler option" "('s, bool) state option"
  | Delivering "int set" "int set" "int set" bool "'s event_handler option" "('s, bool) state option"
  | Exited

record 's EventRouter =
  er_throttle_ms :: int
  er_running :: bool
  er_pc :: "'s router_pc"
  er_on_event :: "'s event_handler option"
  er_on_handler_failure :: "('s, bool) state option"
  er_pending_events :: pending_events
  er_events_dropped :: bool
  er_tracked_pids :: "int set"

definition new_router :: "int \<Rightarrow> 's EventRouter" where
  "new_router throttle_ms = \<lparr>er_throttle_ms = throttle_ms, er_running = False, er_pc = Exited,
     er_on_event = None, er_on_handler_failure = None, er_pending_events = [],
     er_events_dropped = False, er_tracked_pids = {}\<rparr>"

definition kMaxPendingEvents :: nat where "kMaxPendingEvents = 4096"

subsection \<open>Operations of the clients\<close>

definition set_throttle_ms :: "int \<Rightarrow> 's EventRouter \<Rightarrow> 's EventRouter" where
  "set_throttle_ms throttle_ms r = r\<lparr>er_throttle_ms := throttle_ms\<rparr>"

text \<open>
  \<open>spawned\<close> is whether \<open>std::thread\<close> could be created; the value is false when \<open>start\<close> throws.
\<close>

definition start_router ::
  "bool \<Rightarrow> 's event_handler option \<Rightarrow> ('s, bool) state option \<Rightarrow> 's EventRouter \<Rightarrow> bool \<times> 's EventRouter" where
  "start_router spawned on_events on_handler_failure r =
     (if er_running r then (True, r)
      else (let r1 = r\<lparr>er_pending_events := [], er_events_dropped := False,
                   er_on_event := on_events, er_on_handler_failure := on_handler_failure\<rparr>
            in if spawned then (True, r1\<lparr>er_running := True, er_pc := LoopTop\<rparr>)
               else (False, r1\<lparr>er_running := False, er_on_event := None, er_on_handler_failure := None\<rparr>)))"

text \<open>\<open>stop\<close> clears the flag, joins the thread and then clears the rest.\<close>

definition stop_request :: "'s EventRouter \<Rightarrow> 's EventRouter" where
  "stop_request r = r\<lparr>er_running := False\<rparr>"

definition stop_finish :: "'s EventRouter \<Rightarrow> 's EventRouter" where
  "stop_finish r = r\<lparr>er_pending_events := [], er_tracked_pids := {}, er_on_event := None,
     er_on_handler_failure := None\<rparr>"

definition add_event :: "int \<Rightarrow> bool \<Rightarrow> 's EventRouter \<Rightarrow> 's EventRouter" where
  "add_event pid is_create r =
     (if pid \<le> 0 \<or> \<not> er_running r then r
      else case map_of (er_pending_events r) pid of
        None \<Rightarrow>
          if kMaxPendingEvents \<le> length (er_pending_events r) then r\<lparr>er_events_dropped := True\<rparr>
          else r\<lparr>er_pending_events := AList.update pid
                 (new_event\<lparr>pv_is_create := is_create, pv_saw_delete := \<not> is_create\<rparr>)
                 (er_pending_events r)\<rparr>
      | Some e \<Rightarrow>
          r\<lparr>er_pending_events := AList.update pid
              (e\<lparr>pv_is_create := is_create, pv_saw_delete := (pv_saw_delete e \<or> \<not> is_create)\<rparr>)
              (er_pending_events r)\<rparr>)"

definition on_process_created :: "int \<Rightarrow> 's EventRouter \<Rightarrow> 's EventRouter" where
  "on_process_created pid = add_event pid True"

definition on_process_exited :: "int \<Rightarrow> 's EventRouter \<Rightarrow> 's EventRouter" where
  "on_process_exited pid = add_event pid False"

subsection \<open>The router thread\<close>

definition loop_test :: "'s EventRouter \<Rightarrow> 's EventRouter" where
  "loop_test r = r\<lparr>er_pc := (if er_running r then Waiting else Exited)\<rparr>"

definition wake_condition :: "'s EventRouter \<Rightarrow> bool" where
  "wake_condition r \<longleftrightarrow> \<not> er_running r \<or> er_pending_events r \<noteq> [] \<or> er_events_dropped r"

definition router_wake :: "'s EventRouter \<Rightarrow> 's EventRouter" where
  "router_wake r = r\<lparr>er_pc :=
     (if \<not> er_running r \<and> er_pending_events r = [] \<and> \<not> er_events_dropped r then Exited else Aggregating)\<rparr>"

definition take_batch :: "'s EventRouter \<Rightarrow> 's EventRouter" where
  "take_batch r = r\<lparr>er_pc := Taken (er_pending_events r) (er_events_dropped r) (er_on_event r) (er_on_handler_failure r),
     er_pending_events := [], er_events_dropped := False\<rparr>"

text \<open>The sets are \<open>(tracked, new, dead, recycled)\<close>.\<close>

type_synonym pid_sets = "int set \<times> int set \<times> int set \<times> int set"

definition classify_event :: "int \<times> PendingEvent \<Rightarrow> pid_sets \<Rightarrow> pid_sets" where
  "classify_event p s = (case (p, s) of ((pid, event), (tracked, new_pids, dead_pids, recycled_pids)) \<Rightarrow>
     if pv_is_create event
     then (let newly_tracked = (pid \<notin> tracked)
           in if pv_saw_delete event
              then (insert pid tracked, insert pid new_pids, dead_pids, insert pid recycled_pids)
              else if newly_tracked
              then (insert pid tracked, insert pid new_pids, dead_pids, recycled_pids)
              else (insert pid tracked, new_pids, dead_pids, recycled_pids))
     else (tracked - {pid}, new_pids, insert pid dead_pids, recycled_pids))"

definition classify_events :: "pending_events \<Rightarrow> int set \<Rightarrow> pid_sets" where
  "classify_events events tracked = fold classify_event events (tracked, {}, {}, {})"

definition classify_batch :: "'s EventRouter \<Rightarrow> 's EventRouter" where
  "classify_batch r = (case er_pc r of
     Taken events dropped handler failure \<Rightarrow>
       (case classify_events events (er_tracked_pids r) of (tracked, new_pids, dead_pids, recycled_pids) \<Rightarrow>
          r\<lparr>er_tracked_pids := tracked,
            er_pc := Delivering new_pids dead_pids recycled_pids dropped handler failure\<rparr>)
   | _ \<Rightarrow> r)"

definition notify_handler_failure :: "('s, bool) state option \<Rightarrow> ('s, unit) state" where
  "notify_handler_failure callback = (case callback of
     None \<Rightarrow> State_Monad.return ()
   | Some c \<Rightarrow> do { _ \<leftarrow> c; State_Monad.return () })"

definition deliver_batch ::
  "int set \<Rightarrow> int set \<Rightarrow> int set \<Rightarrow> bool \<Rightarrow> 's event_handler option \<Rightarrow> ('s, bool) state option
     \<Rightarrow> ('s, unit) state" where
  "deliver_batch new_pids dead_pids recycled_pids dropped handler failure =
     (case handler of
        None \<Rightarrow> State_Monad.return ()
      | Some h \<Rightarrow>
          if new_pids \<noteq> {} \<or> dead_pids \<noteq> {} \<or> recycled_pids \<noteq> {} \<or> dropped
          then do {
            ok \<leftarrow> h new_pids dead_pids recycled_pids dropped;
            if ok then State_Monad.return () else notify_handler_failure failure }
          else State_Monad.return ())"

text \<open>The steps of the router thread and of \<open>stop\<close>; the handler acts on a state of its own.\<close>

inductive router_step :: "'s EventRouter \<Rightarrow> 's EventRouter \<Rightarrow> bool" where
  step_top: "er_pc r = LoopTop \<Longrightarrow> router_step r (loop_test r)"
| step_wake: "er_pc r = Waiting \<Longrightarrow> wake_condition r \<Longrightarrow> router_step r (router_wake r)"
| step_take: "er_pc r = Aggregating \<Longrightarrow> router_step r (take_batch r)"
| step_classify: "er_pc r = Taken b d h f \<Longrightarrow> router_step r (classify_batch r)"
| step_deliver: "er_pc r = Delivering n d c x h f \<Longrightarrow> router_step r (r\<lparr>er_pc := LoopTop\<rparr>)"
| step_stop: "router_step r (stop_request r)"
| step_throttle: "router_step r (set_throttle_ms ms r)"

inductive_cases router_stepE: "router_step r r'"

subsection \<open>What a batch says of its events\<close>

definition offer_events :: "(int \<times> bool) list \<Rightarrow> 's EventRouter \<Rightarrow> 's EventRouter" where
  "offer_events = fold (\<lambda>(pid, is_create). add_event pid is_create)"

definition events_of :: "int \<Rightarrow> (int \<times> bool) list \<Rightarrow> bool list" where
  "events_of pid evs = map snd (filter (\<lambda>p. fst p = pid) evs)"

definition event_summary :: "(int \<times> bool) list \<Rightarrow> int \<Rightarrow> PendingEvent option" where
  "event_summary evs pid = (let cs = events_of pid evs in
     if pid \<le> 0 \<or> cs = [] then None
     else Some \<lparr>pv_is_create = last cs, pv_saw_delete = (False \<in> set cs)\<rparr>)"

lemma events_of_snoc [simp]:
  "events_of pid (evs @ [(p, c)]) = events_of pid evs @ (if p = pid then [c] else [])"
  by (simp add: events_of_def)

lemma events_of_Nil [simp]: "events_of pid [] = []"
  by (simp add: events_of_def)

lemma offer_events_snoc [simp]: "offer_events (evs @ [(p, c)]) r = add_event p c (offer_events evs r)"
  by (simp add: offer_events_def)

lemma offer_events_Nil [simp]: "offer_events [] r = r"
  by (simp add: offer_events_def)

lemma add_event_frame [simp]:
  "er_running (add_event p c r) = er_running r"
  "er_tracked_pids (add_event p c r) = er_tracked_pids r"
  "er_pc (add_event p c r) = er_pc r"
  by (simp_all add: add_event_def split: option.split)

lemma offer_events_frame [simp]:
  "er_running (offer_events evs r) = er_running r"
  "er_tracked_pids (offer_events evs r) = er_tracked_pids r"
proof (induction evs rule: rev_induct)
  case (snoc p evs)
  { case 1 show ?case using snoc by (cases p) simp next case 2 show ?case using snoc by (cases p) simp }
qed simp_all

lemma add_event_dropped: "er_events_dropped r \<Longrightarrow> er_events_dropped (add_event p c r)"
  by (simp add: add_event_def split: option.split)

lemma add_event_lookup:
  assumes "er_running r" "0 < p" "\<not> er_events_dropped (add_event p c r)"
  shows "map_of (er_pending_events (add_event p c r)) q =
    (if q = p then Some \<lparr>pv_is_create = c, pv_saw_delete =
        ((case map_of (er_pending_events r) p of None \<Rightarrow> False | Some e \<Rightarrow> pv_saw_delete e) \<or> \<not> c)\<rparr>
     else map_of (er_pending_events r) q)"
  using assms by (auto simp: add_event_def new_event_def split: option.splits if_splits)

lemma offer_events_summary:
  assumes "er_running r" "er_pending_events r = []" "\<not> er_events_dropped (offer_events evs r)"
  shows "map_of (er_pending_events (offer_events evs r)) pid = event_summary evs pid"
  using assms(3)
proof (induction evs arbitrary: pid rule: rev_induct)
  case Nil
  then show ?case by (simp add: assms(2) event_summary_def)
next
  case (snoc x evs)
  obtain p c where x: "x = (p, c)" by (cases x)
  have "\<not> er_events_dropped (offer_events evs r)" using snoc.prems add_event_dropped by (auto simp: x)
  note IH = snoc.IH [OF this]
  show ?case
  proof (cases "p \<le> 0")
    case True
    then have "event_summary (evs @ [x]) pid = event_summary evs pid"
      by (auto simp: event_summary_def x Let_def)
    with True IH show ?thesis by (simp add: x add_event_def)
  next
    case False
    have "0 < p" using False by simp
    from this add_event_lookup [OF _ this, of "offer_events evs r" c pid] snoc.prems assms(1) IH
    show ?thesis by (auto simp: x event_summary_def Let_def split: if_splits)
  qed
qed

lemma add_event_ok: "umap_ok (er_pending_events r) \<Longrightarrow> umap_ok (er_pending_events (add_event p c r))"
  by (simp add: add_event_def split: option.split)

lemma offer_events_ok:
  assumes "umap_ok (er_pending_events r)"
  shows "umap_ok (er_pending_events (offer_events evs r))"
proof (induction evs rule: rev_induct)
  case (snoc x evs)
  then show ?case by (cases x) (simp add: add_event_ok)
qed (simp add: assms)

subsection \<open>What the handler is told\<close>

lemma classify_fold:
  assumes "umap_ok b" "fold classify_event b (t, n, d, c) = (t', n', d', c')"
  shows "t' = {p. case map_of b p of None \<Rightarrow> p \<in> t | Some e \<Rightarrow> pv_is_create e} \<and>
    n' = n \<union> {p. \<exists>e. map_of b p = Some e \<and> pv_is_create e \<and> (pv_saw_delete e \<or> p \<notin> t)} \<and>
    d' = d \<union> {p. \<exists>e. map_of b p = Some e \<and> \<not> pv_is_create e} \<and>
    c' = c \<union> {p. \<exists>e. map_of b p = Some e \<and> pv_is_create e \<and> pv_saw_delete e}"
  using assms
proof (induction b arbitrary: t n d c)
  case (Cons x b)
  obtain pid e where x: "x = (pid, e)" by (cases x)
  obtain t1 n1 d1 c1 where step: "classify_event x (t, n, d, c) = (t1, n1, d1, c1)" by (metis surj_pair)
  have ok: "umap_ok b" and new: "map_of b pid = None"
    using Cons.prems(1) by (auto simp: umap_ok_def x map_of_eq_None_iff)
  have rest: "fold classify_event b (t1, n1, d1, c1) = (t', n', d', c')"
    using Cons.prems(2) step by simp
  have eqs: "t1 = (if pv_is_create e then insert pid t else t - {pid})"
    "n1 = (if pv_is_create e \<and> (pv_saw_delete e \<or> pid \<notin> t) then insert pid n else n)"
    "d1 = (if pv_is_create e then d else insert pid d)"
    "c1 = (if pv_is_create e \<and> pv_saw_delete e then insert pid c else c)"
    using step by (auto simp: classify_event_def x Let_def split: if_splits)
  note IH = Cons.IH [OF ok rest]
  have t': "p \<in> t' \<longleftrightarrow> (case map_of (x # b) p of None \<Rightarrow> p \<in> t | Some e \<Rightarrow> pv_is_create e)" for p
  proof (cases "p = pid")
    case True then show ?thesis by (simp add: IH [THEN conjunct1] x new eqs)
  next
    case False then show ?thesis by (simp add: IH [THEN conjunct1] x eqs split: option.split)
  qed
  have n': "p \<in> n' \<longleftrightarrow> p \<in> n \<or> (\<exists>e. map_of (x # b) p = Some e \<and> pv_is_create e \<and> (pv_saw_delete e \<or> p \<notin> t))" for p
    by (cases "p = pid"; simp add: IH [THEN conjunct2, THEN conjunct1] x new eqs; blast?)
  have d': "p \<in> d' \<longleftrightarrow> p \<in> d \<or> (\<exists>e. map_of (x # b) p = Some e \<and> \<not> pv_is_create e)" for p
    by (cases "p = pid"; simp add: IH [THEN conjunct2, THEN conjunct2, THEN conjunct1] x new eqs; blast?)
  have c': "p \<in> c' \<longleftrightarrow> p \<in> c \<or> (\<exists>e. map_of (x # b) p = Some e \<and> pv_is_create e \<and> pv_saw_delete e)" for p
    by (cases "p = pid"; simp add: IH [THEN conjunct2, THEN conjunct2, THEN conjunct2] x new eqs; blast?)
  show ?case unfolding set_eq_iff by (intro conjI allI) (simp_all only: t' n' d' c' Un_iff mem_Collect_eq)
qed simp

lemma classify_events_eq:
  assumes "umap_ok b"
  shows "classify_events b t =
    ({p. case map_of b p of None \<Rightarrow> p \<in> t | Some e \<Rightarrow> pv_is_create e},
     {p. \<exists>e. map_of b p = Some e \<and> pv_is_create e \<and> (pv_saw_delete e \<or> p \<notin> t)},
     {p. \<exists>e. map_of b p = Some e \<and> \<not> pv_is_create e},
     {p. \<exists>e. map_of b p = Some e \<and> pv_is_create e \<and> pv_saw_delete e})"
proof -
  obtain t' n' d' c' where run: "fold classify_event b (t, {}, {}, {}) = (t', n', d', c')"
    by (metis surj_pair)
  from classify_fold [OF assms run] run show ?thesis by (simp add: classify_events_def)
qed

text \<open>A process is seen to end in a list of events when its last event is an exit.\<close>

definition ends :: "(int \<times> bool) list \<Rightarrow> int \<Rightarrow> bool" where
  "ends evs pid \<longleftrightarrow> 0 < pid \<and> events_of pid evs \<noteq> [] \<and> \<not> last (events_of pid evs)"

definition begins :: "(int \<times> bool) list \<Rightarrow> int \<Rightarrow> bool" where
  "begins evs pid \<longleftrightarrow> 0 < pid \<and> events_of pid evs \<noteq> [] \<and> last (events_of pid evs)"

lemma classify_summary:
  assumes "er_running r" "er_pending_events r = []" "\<not> er_events_dropped (offer_events evs r)"
  shows "classify_events (er_pending_events (offer_events evs r)) t =
    ({p. begins evs p \<or> p \<in> t \<and> \<not> ends evs p},
     {p. begins evs p \<and> (False \<in> set (events_of p evs) \<or> p \<notin> t)},
     {p. ends evs p},
     {p. begins evs p \<and> False \<in> set (events_of p evs)})"
proof -
  have "umap_ok (er_pending_events (offer_events evs r))" by (rule offer_events_ok) (simp add: assms(2))
  from classify_events_eq [OF this, of t] show ?thesis
    by (auto simp: offer_events_summary [OF assms] event_summary_def begins_def ends_def Let_def
        split: if_splits)
qed

subsection \<open>The tracked set follows the events\<close>

definition accepts :: "int \<Rightarrow> 's EventRouter \<Rightarrow> bool" where
  "accepts pid r \<longleftrightarrow> 0 < pid \<and> er_running r \<and>
     (map_of (er_pending_events r) pid \<noteq> None \<or> length (er_pending_events r) < kMaxPendingEvents)"

text \<open>
  \<open>router_trace evs r\<close>: the router is in state \<open>r\<close> after some interleaving of events, its own
  steps and restarts, and \<open>evs\<close> are the events accepted since it was last started.
\<close>

inductive router_trace :: "(int \<times> bool) list \<Rightarrow> 's EventRouter \<Rightarrow> bool" where
  trace_new: "router_trace [] (new_router ms)"
| trace_start: "router_trace evs r \<Longrightarrow> \<not> er_running r \<Longrightarrow> er_pc r = Exited \<Longrightarrow> er_tracked_pids r = {} \<Longrightarrow>
    router_trace [] (snd (start_router spawned h f r))"
| trace_event: "router_trace evs r \<Longrightarrow>
    router_trace (if accepts pid r then evs @ [(pid, c)] else evs) (add_event pid c r)"
| trace_step: "router_trace evs r \<Longrightarrow> router_step r r' \<Longrightarrow> router_trace evs r'"
| trace_join: "router_trace evs r \<Longrightarrow> \<not> er_running r \<Longrightarrow> er_pc r = Exited \<Longrightarrow>
    router_trace [] (stop_finish r)"

definition batch_of :: "'s EventRouter \<Rightarrow> pending_events" where
  "batch_of r = (case er_pc r of Taken b d h f \<Rightarrow> b | _ \<Rightarrow> [])"

definition last_event :: "(int \<times> bool) list \<Rightarrow> int \<Rightarrow> bool option" where
  "last_event evs pid = map_of (rev evs) pid"

lemma last_event_snoc [simp]:
  "last_event (evs @ [(p, c)]) q = (if q = p then Some c else last_event evs q)"
  by (simp add: last_event_def)

definition router_inv :: "(int \<times> bool) list \<Rightarrow> 's EventRouter \<Rightarrow> bool" where
  "router_inv evs r \<longleftrightarrow> umap_ok (er_pending_events r) \<and> umap_ok (batch_of r) \<and>
     length (er_pending_events r) \<le> kMaxPendingEvents \<and>
     (\<forall>p. case map_of (er_pending_events r) p of
        Some e \<Rightarrow> last_event evs p = Some (pv_is_create e)
      | None \<Rightarrow> (case map_of (batch_of r) p of
          Some e \<Rightarrow> last_event evs p = Some (pv_is_create e)
        | None \<Rightarrow> p \<in> er_tracked_pids r \<longleftrightarrow> last_event evs p = Some True))"

lemma router_invI:
  assumes "umap_ok (er_pending_events r)" "umap_ok (batch_of r)"
    "length (er_pending_events r) \<le> kMaxPendingEvents"
    "\<And>p e. map_of (er_pending_events r) p = Some e \<Longrightarrow> last_event evs p = Some (pv_is_create e)"
    "\<And>p e. map_of (er_pending_events r) p = None \<Longrightarrow> map_of (batch_of r) p = Some e \<Longrightarrow>
       last_event evs p = Some (pv_is_create e)"
    "\<And>p. map_of (er_pending_events r) p = None \<Longrightarrow> map_of (batch_of r) p = None \<Longrightarrow>
       p \<in> er_tracked_pids r \<longleftrightarrow> last_event evs p = Some True"
  shows "router_inv evs r"
  using assms by (auto simp: router_inv_def split: option.split)

lemma router_invD:
  assumes "router_inv evs r"
  shows "umap_ok (er_pending_events r)" "umap_ok (batch_of r)"
    "length (er_pending_events r) \<le> kMaxPendingEvents"
    "map_of (er_pending_events r) p = Some e \<Longrightarrow> last_event evs p = Some (pv_is_create e)"
    "map_of (er_pending_events r) p = None \<Longrightarrow> map_of (batch_of r) p = Some e \<Longrightarrow>
       last_event evs p = Some (pv_is_create e)"
    "map_of (er_pending_events r) p = None \<Longrightarrow> map_of (batch_of r) p = None \<Longrightarrow>
       p \<in> er_tracked_pids r \<longleftrightarrow> last_event evs p = Some True"
  using assms by (auto simp: router_inv_def split: option.splits dest: spec [of _ p])

lemma batch_of_add_event [simp]: "batch_of (add_event p c r) = batch_of r"
  by (simp add: batch_of_def)

lemma refused_event: "\<not> accepts p r \<Longrightarrow> er_pending_events (add_event p c r) = er_pending_events r"
  by (auto simp: accepts_def add_event_def split: option.split)

lemma refused_event_is_flagged:
  "\<not> accepts p r \<Longrightarrow> er_running r \<Longrightarrow> 0 < p \<Longrightarrow> er_events_dropped (add_event p c r)"
  by (auto simp: accepts_def add_event_def split: option.split)

lemma event_update [simp]:
  "e\<lparr>pv_is_create := c, pv_saw_delete := d\<rparr> = \<lparr>pv_is_create = c, pv_saw_delete = d\<rparr>"
  by (cases e) simp

lemma accepted_event:
  assumes "accepts p r"
  shows "\<exists>d. er_pending_events (add_event p c r) =
    AList.update p \<lparr>pv_is_create = c, pv_saw_delete = d\<rparr> (er_pending_events r)"
  using assms by (auto simp: accepts_def add_event_def new_event_def split: option.split)

lemma event_length:
  assumes "length (er_pending_events r) \<le> kMaxPendingEvents"
  shows "length (er_pending_events (add_event p c r)) \<le> kMaxPendingEvents"
proof (cases "map_of (er_pending_events r) p")
  case None
  then show ?thesis
    using assms umap_length_update_le [of p "new_event\<lparr>pv_is_create := c, pv_saw_delete := \<not> c\<rparr>" "er_pending_events r"]
    by (simp add: add_event_def)
next
  case (Some e)
  then have "p \<in> fst ` set (er_pending_events r)" by (simp add: umap_mem_iff)
  with Some assms show ?thesis by (simp add: add_event_def umap_length_update_mem)
qed

lemma event_inv:
  assumes "router_inv evs r"
  shows "router_inv (if accepts pid r then evs @ [(pid, c)] else evs) (add_event pid c r)"
proof (cases "accepts pid r")
  case True
  obtain d where new: "er_pending_events (add_event pid c r) =
      AList.update pid \<lparr>pv_is_create = c, pv_saw_delete = d\<rparr> (er_pending_events r)"
    using accepted_event [OF True] by blast
  have "router_inv (evs @ [(pid, c)]) (add_event pid c r)"
    using router_invD [OF assms] event_length [of r pid c]
    by (intro router_invI) (auto simp: new split: if_splits)
  with True show ?thesis by simp
next
  case False
  with router_invD [OF assms] have "router_inv evs (add_event pid c r)"
    by (intro router_invI) (simp_all add: refused_event)
  with False show ?thesis by simp
qed

lemma classify_inv:
  assumes "router_inv evs r" "er_pc r = Taken b d h f"
  shows "router_inv evs (classify_batch r)"
proof -
  have batch: "batch_of r = b" using assms(2) by (simp add: batch_of_def)
  note inv = router_invD [OF assms(1)]
  have "umap_ok b" using inv(2) batch by simp
  from classify_events_eq [OF this, of "er_tracked_pids r"] obtain n e c where
    run: "classify_events b (er_tracked_pids r) =
      ({p. case map_of b p of None \<Rightarrow> p \<in> er_tracked_pids r | Some e \<Rightarrow> pv_is_create e}, n, e, c)"
    by blast
  have "er_pending_events (classify_batch r) = er_pending_events r" "batch_of (classify_batch r) = []"
    "er_tracked_pids (classify_batch r) =
      {p. case map_of b p of None \<Rightarrow> p \<in> er_tracked_pids r | Some e \<Rightarrow> pv_is_create e}"
    by (simp_all add: classify_batch_def assms(2) run batch_of_def)
  with inv show ?thesis
    by (intro router_invI) (auto simp: batch split: option.splits)
qed

lemma router_inv_frame:
  assumes "er_pending_events r' = er_pending_events r" "batch_of r' = batch_of r"
    "er_tracked_pids r' = er_tracked_pids r"
  shows "router_inv evs r' = router_inv evs r"
  unfolding router_inv_def assms by (rule refl)

lemma router_step_inv:
  assumes "router_step r r'" "router_inv evs r"
  shows "router_inv evs r'"
  using assms(1)
proof (cases rule: router_step.cases)
  case (step_classify b d h f)
  with assms(2) classify_inv show ?thesis by blast
next
  case step_take
  then have "batch_of r = []" "batch_of r' = er_pending_events r" "er_pending_events r' = []"
    "er_tracked_pids r' = er_tracked_pids r"
    by (simp_all add: batch_of_def take_batch_def)
  with router_invD [OF assms(2)] show ?thesis by (intro router_invI) auto
qed (rule iffD2 [OF router_inv_frame assms(2)];
  simp add: batch_of_def loop_test_def router_wake_def stop_request_def set_throttle_ms_def)+

lemma fresh_inv: "er_pending_events r = [] \<Longrightarrow> batch_of r = [] \<Longrightarrow> er_tracked_pids r = {} \<Longrightarrow> router_inv [] r"
  by (simp add: router_inv_def last_event_def)

lemma trace_inv: "router_trace evs r \<Longrightarrow> router_inv evs r"
proof (induction rule: router_trace.induct)
  case (trace_new ms)
  show ?case by (rule fresh_inv) (simp_all add: new_router_def batch_of_def)
next
  case (trace_start evs r spawned h f)
  then show ?case by (intro fresh_inv) (simp_all add: start_router_def batch_of_def Let_def)
next
  case (trace_event evs r pid c)
  show ?case by (rule event_inv [OF trace_event.IH])
next
  case (trace_step evs r r')
  show ?case by (rule router_step_inv [OF trace_step.hyps(2) trace_step.IH])
next
  case (trace_join evs r)
  then show ?case by (intro fresh_inv) (simp_all add: stop_finish_def batch_of_def)
qed

lemma trace_tracks:
  assumes "router_trace evs r" "er_pending_events r = []" "batch_of r = []"
  shows "er_tracked_pids r = {p. last_event evs p = Some True}"
  using router_invD(6) [OF trace_inv [OF assms(1)]] assms(2,3) by auto

subsection \<open>A lost event is reported\<close>

text \<open>
  Once an event is refused, the flag stays up until the batch is taken, and the handler of that
  batch is called with it.
\<close>

definition pc_dropped :: "'s EventRouter \<Rightarrow> bool" where
  "pc_dropped r = (case er_pc r of Taken b d h f \<Rightarrow> d | Delivering n e c d h f \<Rightarrow> d | _ \<Rightarrow> False)"

lemma dropped_step:
  assumes "router_step r r'" "er_events_dropped r"
  shows "er_events_dropped r' \<or> pc_dropped r'"
  using assms
  by (cases rule: router_stepE)
    (auto simp: loop_test_def router_wake_def take_batch_def classify_batch_def pc_dropped_def
      stop_request_def set_throttle_ms_def split: prod.splits)

lemma dropped_handler_called:
  "deliver_batch new_pids dead_pids recycled_pids True (Some h) failure = do {
     ok \<leftarrow> h new_pids dead_pids recycled_pids True;
     if ok then State_Monad.return () else notify_handler_failure failure }"
  by (simp add: deliver_batch_def)

end
