(* ===== verification/Inotify.thy ===== *)
theory Inotify
  imports Cxx_Text Kernel "HOL-Library.Multiset"
begin

section \<open>File watches (inotify)\<close>

text \<open>
  What the process monitor (core/cpuset\_monitor.hpp) and the watcher of the configuration file (main.cpp)
  share: the system calls of a watch, the parameter \<open>wo\<close>, and the walk over the event records a \<open>read\<close>
  delivers. A record is a header of 16 bytes (watch, mask, cookie, length, each of four bytes, least
  significant first as on the platforms of the program) and a name padded with zero bytes. The layout and
  the mask bits are those of \<open>inotify(7)\<close>. Main results: the walk gives back the events the kernel
  encodes (\<open>records_encode\<close>) and stops at a record that is cut off (\<open>records_cut\<close>);
  \<open>ledger wo\<close> counts the descriptors opened and closed.
\<close>

subsection \<open>Events and their masks\<close>

record inotify_event =
  ie_wd :: "32 word"
  ie_mask :: "32 word"
  ie_cookie :: "32 word"
  ie_name :: string

definition IN_MODIFY :: "32 word" where "IN_MODIFY = 0x2"
definition IN_ATTRIB :: "32 word" where "IN_ATTRIB = 0x4"
definition IN_CLOSE_WRITE :: "32 word" where "IN_CLOSE_WRITE = 0x8"
definition IN_MOVED_TO :: "32 word" where "IN_MOVED_TO = 0x80"
definition IN_CREATE :: "32 word" where "IN_CREATE = 0x100"
definition IN_DELETE :: "32 word" where "IN_DELETE = 0x200"
definition IN_DELETE_SELF :: "32 word" where "IN_DELETE_SELF = 0x400"
definition IN_MOVE_SELF :: "32 word" where "IN_MOVE_SELF = 0x800"
definition IN_Q_OVERFLOW :: "32 word" where "IN_Q_OVERFLOW = 0x4000"
definition IN_IGNORED :: "32 word" where "IN_IGNORED = 0x8000"
definition IN_ISDIR :: "32 word" where "IN_ISDIR = 0x40000000"

unbundle bit_operations_syntax

definition has_bits :: "inotify_event \<Rightarrow> 32 word \<Rightarrow> bool" where
  "has_bits e bits \<longleftrightarrow> ie_mask e AND bits \<noteq> 0"

text \<open>The name up to its first zero byte, as \<open>strnlen\<close> finds it.\<close>

definition event_name :: "inotify_event \<Rightarrow> string" where
  "event_name e = c_str (ie_name e)"

subsection \<open>Walking over a buffer\<close>

definition kEventSize :: nat where "kEventSize = 16"

definition le_word :: "string \<Rightarrow> 32 word" where
  "le_word bs = horner_sum of_char 256 bs"

text \<open>The value is the list of the complete records and whether the last one was cut off.\<close>

function records :: "string \<Rightarrow> inotify_event list \<times> bool" where
  "records buf =
     (if length buf < kEventSize then ([], False)
      else let len = unat (le_word (take 4 (drop 12 buf)))
        in if length buf - kEventSize < len then ([], True)
           else case records (drop (kEventSize + len) buf) of (evs, broken) \<Rightarrow>
             (\<lparr>ie_wd = le_word (take 4 buf), ie_mask = le_word (take 4 (drop 4 buf)),
               ie_cookie = le_word (take 4 (drop 8 buf)), ie_name = take len (drop kEventSize buf)\<rparr> # evs, broken))"
  by pat_completeness auto
termination by (relation "measure length") (auto simp: kEventSize_def)

declare records.simps [simp del]

subsection \<open>What the kernel writes\<close>

definition le_bytes :: "32 word \<Rightarrow> string" where
  "le_bytes w = map (\<lambda>i. char_of (unat w div 256 ^ i)) [0, 1, 2, 3]"

definition encode_event :: "inotify_event \<Rightarrow> string" where
  "encode_event e = le_bytes (ie_wd e) @ le_bytes (ie_mask e) @ le_bytes (ie_cookie e)
     @ le_bytes (of_nat (length (ie_name e))) @ ie_name e"

definition event_fits :: "inotify_event \<Rightarrow> bool" where
  "event_fits e \<longleftrightarrow> length (ie_name e) < 2 ^ 32"

lemma le_bytes_length [simp]: "length (le_bytes w) = 4"
  by (simp add: le_bytes_def)

lemma base_256:
  assumes "n < 2 ^ 32"
  shows "n mod 256 + 256 * (n div 256 mod 256 + 256 * (n div 65536 mod 256 + 256 * (n div 16777216 mod 256))) = (n :: nat)"
proof -
  have split: "m mod 256 + 256 * (m div 256) = m" for m :: nat by (rule mod_mult_div_eq)
  have "n div 65536 = n div 256 div 256" "n div 16777216 = n div 256 div 256 div 256"
    by (simp_all flip: div_mult2_eq)
  moreover have "n div 256 div 256 div 256 mod 256 = n div 256 div 256 div 256"
    using assms by (intro mod_less) (simp add: less_mult_imp_div_less flip: div_mult2_eq)
  ultimately show ?thesis by (simp only: split)
qed

lemma le_word_of_nat: "le_word bs = of_nat (horner_sum of_char 256 bs)"
proof (induction bs)
  case (Cons c bs)
  have "(of_nat (of_char c) :: 32 word) = of_char c" by (rule of_nat_of_char)
  with Cons show ?case by (simp add: le_word_def)
qed (simp add: le_word_def)

lemma le_word_bytes [simp]: "le_word (le_bytes w) = w"
proof -
  have "horner_sum of_char 256 (le_bytes w) = unat w"
    using base_256 [of "unat w"] unsigned_less [of w, where ?'a = nat] by (simp add: le_bytes_def)
  then show ?thesis by (simp add: le_word_of_nat)
qed

lemma records_encode_one:
  assumes "event_fits e"
  shows "records (encode_event e @ rest) = (e # fst (records rest), snd (records rest))"
proof -
  have len: "unat (of_nat (length (ie_name e)) :: 32 word) = length (ie_name e)"
    using assms by (simp add: event_fits_def unat_of_nat)
  show ?thesis
    by (subst records.simps)
      (simp add: encode_event_def kEventSize_def len Let_def split: prod.split)
qed

lemma records_append:
  assumes "\<forall>e \<in> set evs. event_fits e"
  shows "records (concat (map encode_event evs) @ rest) = (evs @ fst (records rest), snd (records rest))"
  using assms by (induction evs) (simp_all add: records_encode_one)

lemma records_short: "length buf < kEventSize \<Longrightarrow> records buf = ([], False)"
  by (subst records.simps) simp

lemma records_encode:
  "\<forall>e \<in> set evs. event_fits e \<Longrightarrow> records (concat (map encode_event evs)) = (evs, False)"
  using records_append [of evs "[]"] by (simp add: records_short kEventSize_def)

text \<open>Of a buffer that ends inside a record the complete records are seen, and the cut one only if its header is there.\<close>

lemma records_cut:
  assumes "\<forall>e \<in> set evs. event_fits e" "event_fits e" "k < length (encode_event e)"
  shows "records (concat (map encode_event evs) @ take k (encode_event e)) = (evs, kEventSize \<le> k)"
proof -
  have "records (take k (encode_event e)) = ([], kEventSize \<le> k)"
  proof (cases "k < kEventSize")
    case True
    then show ?thesis by (simp add: records_short)
  next
    case False
    have len: "unat (of_nat (length (ie_name e)) :: 32 word) = length (ie_name e)"
      using assms(2) by (simp add: event_fits_def unat_of_nat)
    have "take 4 (drop 12 (take k (encode_event e))) = le_bytes (of_nat (length (ie_name e)))"
      using False by (simp add: encode_event_def kEventSize_def drop_take min_def)
    moreover have "kEventSize \<le> k" "k - kEventSize < length (ie_name e)" "k \<le> kEventSize + length (ie_name e)"
      using False assms(3) by (simp_all add: kEventSize_def encode_event_def)
    ultimately show ?thesis
      by (subst records.simps) (simp add: len kEventSize_def encode_event_def Let_def)
  qed
  with records_append [OF assms(1)] show ?thesis by simp
qed

subsection \<open>The calls of a watch and their ledger\<close>

datatype watch_read = WatchData string | WatchAgain | WatchInterrupted | WatchFailed

text \<open>The answer of \<open>poll\<close> on the two descriptors of the process monitor.\<close>

datatype watch_poll = WatchPollInterrupted | WatchPollFailed
  | WatchReady (stop_readable: bool) (events_readable: bool) (events_trouble: bool)

text \<open>\<open>wa_read fd n\<close> reads at most \<open>n\<close> bytes; \<open>wa_signal\<close> and \<open>wa_drain\<close> write and read an eventfd.\<close>

record 'w watch_os =
  wa_init :: "('w, int) state"
  wa_add :: "int \<Rightarrow> string \<Rightarrow> 32 word \<Rightarrow> ('w, int) state"
  wa_eventfd :: "('w, int) state"
  wa_close :: "int \<Rightarrow> ('w, unit) state"
  wa_read :: "int \<Rightarrow> nat \<Rightarrow> ('w, watch_read) state"
  wa_poll :: "int \<Rightarrow> int \<Rightarrow> ('w, watch_poll) state"
  wa_signal :: "int \<Rightarrow> ('w, unit) state"
  wa_drain :: "int \<Rightarrow> ('w, unit) state"
  wa_spawn :: "('w, bool) state"

text \<open>
  \<open>ledger wo\<close> is the same kernel with two counts beside it: the descriptors it has handed out and those that were
  closed. A component that owns descriptors is correct when the first are the second and what it still holds.
\<close>

type_synonym 'w booked = "'w \<times> int multiset \<times> int multiset"

definition on_kernel :: "('w, 'a) state \<Rightarrow> ('w booked, 'a) state" where
  "on_kernel m = zoom fst (\<lambda>w s. (w, snd s)) m"

definition held_fd :: "int \<Rightarrow> int multiset" where
  "held_fd fd = (if 0 \<le> fd then {#fd#} else {#})"

definition book_open :: "('w, int) state \<Rightarrow> ('w booked, int) state" where
  "book_open m = do {
     fd \<leftarrow> on_kernel m;
     modify (\<lambda>(w, opened, closed). (w, held_fd fd + opened, closed));
     State_Monad.return fd }"

definition book_close :: "int \<Rightarrow> ('w, unit) state \<Rightarrow> ('w booked, unit) state" where
  "book_close fd m = do {
     modify (\<lambda>(w, opened, closed). (w, opened, add_mset fd closed));
     on_kernel m }"

definition ledger :: "'w watch_os \<Rightarrow> 'w booked watch_os" where
  "ledger wo = \<lparr>wa_init = book_open (wa_init wo), wa_add = (\<lambda>fd p m. on_kernel (wa_add wo fd p m)),
     wa_eventfd = book_open (wa_eventfd wo), wa_close = (\<lambda>fd. book_close fd (wa_close wo fd)),
     wa_read = (\<lambda>fd n. on_kernel (wa_read wo fd n)), wa_poll = (\<lambda>a b. on_kernel (wa_poll wo a b)),
     wa_signal = (\<lambda>fd. on_kernel (wa_signal wo fd)), wa_drain = (\<lambda>fd. on_kernel (wa_drain wo fd)),
     wa_spawn = on_kernel (wa_spawn wo)\<rparr>"

definition balanced :: "int multiset \<Rightarrow> 'w booked \<Rightarrow> bool" where
  "balanced held b \<longleftrightarrow> fst (snd b) = snd (snd b) + held"

lemma held_fd_simps [simp]: "0 \<le> fd \<Longrightarrow> held_fd fd = {#fd#}" "fd < 0 \<Longrightarrow> held_fd fd = {#}"
  by (simp_all add: held_fd_def)

text \<open>The rules for the calls: what they do to the books.\<close>

lemma wp_ledger [wp_rules]:
  "(\<And>fd w. Q1 fd (w, held_fd fd + fst (snd b), snd (snd b))) \<Longrightarrow> wp (wa_init (ledger wo)) Q1 b"
  "(\<And>fd w. Q1 fd (w, held_fd fd + fst (snd b), snd (snd b))) \<Longrightarrow> wp (wa_eventfd (ledger wo)) Q1 b"
  "(\<And>w. Q2 () (w, fst (snd b), {#fd#} + snd (snd b))) \<Longrightarrow> wp (wa_close (ledger wo) fd) Q2 b"
  "(\<And>x w. Q1 x (w, snd b)) \<Longrightarrow> wp (wa_add (ledger wo) fd path m) Q1 b"
  "(\<And>x w. Q3 x (w, snd b)) \<Longrightarrow> wp (wa_read (ledger wo) fd n) Q3 b"
  "(\<And>x w. Q4 x (w, snd b)) \<Longrightarrow> wp (wa_poll (ledger wo) fd fd') Q4 b"
  "(\<And>w. Q2 () (w, snd b)) \<Longrightarrow> wp (wa_signal (ledger wo) fd) Q2 b"
  "(\<And>w. Q2 () (w, snd b)) \<Longrightarrow> wp (wa_drain (ledger wo) fd) Q2 b"
  "(\<And>x w. Q5 x (w, snd b)) \<Longrightarrow> wp (wa_spawn (ledger wo)) Q5 b"
  by (auto simp: ledger_def book_open_def book_close_def on_kernel_def wp_def split: prod.splits)

lemma ledger_read_keeps: "keeps snd (wa_read (ledger wo) fd n)"
  by (simp add: ledger_def on_kernel_def keeps_def split: prod.splits)

end
