(* ===== verification/Proc_Monitor.thy ===== *)
theory Proc_Monitor
  imports Inotify File_Utils
begin

section \<open>The process monitor (core/cpuset\_monitor.hpp)\<close>

text \<open>
  \<open>ProcMonitor\<close> watches \<open>/proc\<close> from a thread of its own and calls back once for every process created or
  deleted, and once when the kernel dropped events. Its owner starts it, asks it to stop, joins it, and
  starts it again after the thread ended on an error. \<open>monitor_step\<close> interleaves the owner's operations
  with the rounds of the thread. The descriptors and the two callbacks are its state; what the callbacks do
  is done to a client state of their own. Main results: no descriptor is leaked and none is closed twice,
  on any path, errors included (\<open>reachable_monitor_ok\<close>); a buffer of events has the callbacks called
  exactly for its events, in their order (\<open>handle_buffer_tells\<close>).
\<close>

subsection \<open>State\<close>

text \<open>The thread: not joinable, in its loop, or ended and not joined yet.\<close>

datatype monitor_thread = NoThread | Looping | ThreadEnded

record 's ProcMonitor =
  pm_running :: bool
  pm_started :: bool
  pm_inotify_fd :: int
  pm_stop_fd :: int
  pm_thread :: monitor_thread
  pm_on_process_change :: "(int \<Rightarrow> ('s, unit) state) option"
  pm_on_events_dropped :: "('s, unit) state option"

definition new_monitor :: "'s ProcMonitor" where
  "new_monitor = \<lparr>pm_running = False, pm_started = False, pm_inotify_fd = -1, pm_stop_fd = -1,
     pm_thread = NoThread, pm_on_process_change = None, pm_on_events_dropped = None\<rparr>"

record ('w, 's) monitor_ctx =
  mx_world :: 'w
  mx_client :: 's
  mx_monitor :: "'s ProcMonitor"

definition monitor_sys :: "('w, 'a) state \<Rightarrow> (('w, 's) monitor_ctx, 'a) state" where
  "monitor_sys m = zoom mx_world (\<lambda>w c. c\<lparr>mx_world := w\<rparr>) m"

definition call_back :: "('s, 'a) state \<Rightarrow> (('w, 's) monitor_ctx, 'a) state" where
  "call_back m = zoom mx_client (\<lambda>s c. c\<lparr>mx_client := s\<rparr>) m"

definition set_monitor :: "('s ProcMonitor \<Rightarrow> 's ProcMonitor) \<Rightarrow> (('w, 's) monitor_ctx, unit) state" where
  "set_monitor f = modify (\<lambda>c. c\<lparr>mx_monitor := f (mx_monitor c)\<rparr>)"

subsection \<open>The owner's operations\<close>

text \<open>
  \<open>stop\<close> in two parts: up to the join, which returns when the thread has ended, and after it. The value of
  the write that wakes the thread is only logged.
\<close>

definition stop_signal :: "'w watch_os \<Rightarrow> (('w, 's) monitor_ctx, unit) state" where
  "stop_signal wo = do {
     m \<leftarrow> gets mx_monitor;
     set_monitor (\<lambda>m. m\<lparr>pm_started := False, pm_running := False\<rparr>);
     if pm_running m \<and> 0 \<le> pm_stop_fd m then monitor_sys (wa_signal wo (pm_stop_fd m))
     else State_Monad.return () }"

definition close_inotify :: "'w watch_os \<Rightarrow> (('w, 's) monitor_ctx, unit) state" where
  "close_inotify wo = do {
     m \<leftarrow> gets mx_monitor;
     if 0 \<le> pm_inotify_fd m
     then do { monitor_sys (wa_close wo (pm_inotify_fd m)); set_monitor (\<lambda>m. m\<lparr>pm_inotify_fd := -1\<rparr>) }
     else State_Monad.return () }"

definition close_stop :: "'w watch_os \<Rightarrow> (('w, 's) monitor_ctx, unit) state" where
  "close_stop wo = do {
     m \<leftarrow> gets mx_monitor;
     if 0 \<le> pm_stop_fd m
     then do { monitor_sys (wa_close wo (pm_stop_fd m)); set_monitor (\<lambda>m. m\<lparr>pm_stop_fd := -1\<rparr>) }
     else State_Monad.return () }"

definition stop_release :: "'w watch_os \<Rightarrow> (('w, 's) monitor_ctx, unit) state" where
  "stop_release wo = do {
     set_monitor (\<lambda>m. m\<lparr>pm_thread := NoThread\<rparr>);
     close_inotify wo;
     close_stop wo }"

text \<open>\<open>MonitorThrew\<close>: the thread could not be created, and \<open>start\<close> throws on.\<close>

datatype monitor_start = MonitorStarted | MonitorUnavailable | MonitorThrew

definition spawn_monitor :: "'w watch_os \<Rightarrow> (('w, 's) monitor_ctx, monitor_start) state" where
  "spawn_monitor wo = do {
     set_monitor (\<lambda>m. m\<lparr>pm_running := True, pm_started := True\<rparr>);
     spawned \<leftarrow> monitor_sys (wa_spawn wo);
     if spawned
     then do { set_monitor (\<lambda>m. m\<lparr>pm_thread := Looping\<rparr>); State_Monad.return MonitorStarted }
     else do {
       set_monitor (\<lambda>m. m\<lparr>pm_running := False, pm_started := False\<rparr>);
       m \<leftarrow> gets mx_monitor;
       monitor_sys (wa_close wo (pm_inotify_fd m));
       monitor_sys (wa_close wo (pm_stop_fd m));
       set_monitor (\<lambda>m. m\<lparr>pm_inotify_fd := -1, pm_stop_fd := -1, pm_on_process_change := None\<rparr>);
       State_Monad.return MonitorThrew } }"

definition open_monitor :: "'w watch_os \<Rightarrow> (('w, 's) monitor_ctx, monitor_start) state" where
  "open_monitor wo = do {
     fd \<leftarrow> monitor_sys (wa_init wo);
     set_monitor (\<lambda>m. m\<lparr>pm_inotify_fd := fd\<rparr>);
     if fd < 0 then State_Monad.return MonitorUnavailable
     else do {
       watch \<leftarrow> monitor_sys (wa_add wo fd ''/proc'' (IN_CREATE OR IN_DELETE OR IN_ISDIR));
       if watch < 0
       then do {
         monitor_sys (wa_close wo fd);
         set_monitor (\<lambda>m. m\<lparr>pm_inotify_fd := -1\<rparr>);
         State_Monad.return MonitorUnavailable }
       else do {
         stop_fd \<leftarrow> monitor_sys (wa_eventfd wo);
         set_monitor (\<lambda>m. m\<lparr>pm_stop_fd := stop_fd\<rparr>);
         if stop_fd < 0
         then do {
           monitor_sys (wa_close wo fd);
           set_monitor (\<lambda>m. m\<lparr>pm_inotify_fd := -1\<rparr>);
           State_Monad.return MonitorUnavailable }
         else spawn_monitor wo } } }"

text \<open>A \<open>stop\<close> inside \<open>start\<close> never waits: the monitor is not started, so its thread has ended.\<close>

definition start_monitor ::
  "'w watch_os \<Rightarrow> (int \<Rightarrow> ('s, unit) state) option \<Rightarrow> ('s, unit) state option
     \<Rightarrow> (('w, 's) monitor_ctx, monitor_start) state" where
  "start_monitor wo on_process_change on_events_dropped = do {
     m \<leftarrow> gets mx_monitor;
     if pm_started m then State_Monad.return MonitorStarted
     else do {
       (if pm_thread m \<noteq> NoThread \<or> 0 \<le> pm_inotify_fd m \<or> 0 \<le> pm_stop_fd m
        then do { stop_signal wo; stop_release wo } else State_Monad.return ());
       set_monitor (\<lambda>m. m\<lparr>pm_on_process_change := on_process_change,
         pm_on_events_dropped := on_events_dropped\<rparr>);
       open_monitor wo } }"

definition is_running :: "'s ProcMonitor \<Rightarrow> bool" where
  "is_running m \<longleftrightarrow> pm_started m"

subsection \<open>The thread\<close>

definition handle_event :: "inotify_event \<Rightarrow> (('w, 's) monitor_ctx, unit) state" where
  "handle_event e = do {
     m \<leftarrow> gets mx_monitor;
     if has_bits e IN_Q_OVERFLOW
     then (case pm_on_events_dropped m of None \<Rightarrow> State_Monad.return () | Some f \<Rightarrow> call_back f)
     else if ie_name e \<noteq> []
     then (case parse_id_entry (event_name e) of None \<Rightarrow> State_Monad.return ()
       | Some pid \<Rightarrow> (case pm_on_process_change m of None \<Rightarrow> State_Monad.return ()
           | Some f \<Rightarrow>
               if has_bits e IN_CREATE then call_back (f pid)
               else if has_bits e IN_DELETE then call_back (f (- pid))
               else State_Monad.return ()))
     else State_Monad.return () }"

fun handle_each :: "inotify_event list \<Rightarrow> (('w, 's) monitor_ctx, unit) state" where
  "handle_each [] = State_Monad.return ()"
| "handle_each (e # es) = do { handle_event e; handle_each es }"

definition handle_buffer :: "string \<Rightarrow> (('w, 's) monitor_ctx, unit) state" where
  "handle_buffer buf = handle_each (fst (records buf))"

definition kBufferSize :: nat where "kBufferSize = 4096 * (kEventSize + 16)"

text \<open>One turn of the loop after its test; the value is whether the loop goes on.\<close>

definition monitor_turn :: "'w watch_os \<Rightarrow> (('w, 's) monitor_ctx, bool) state" where
  "monitor_turn wo = do {
     m \<leftarrow> gets mx_monitor;
     ret \<leftarrow> monitor_sys (wa_poll wo (pm_inotify_fd m) (pm_stop_fd m));
     case ret of
       WatchPollInterrupted \<Rightarrow> State_Monad.return True
     | WatchPollFailed \<Rightarrow> State_Monad.return False
     | WatchReady stop_in events_in trouble \<Rightarrow>
         if stop_in then do { monitor_sys (wa_drain wo (pm_stop_fd m)); State_Monad.return False }
         else if \<not> events_in then State_Monad.return (\<not> trouble)
         else do {
           r \<leftarrow> monitor_sys (wa_read wo (pm_inotify_fd m) kBufferSize);
           case r of
             WatchData buf \<Rightarrow> do { handle_buffer buf; State_Monad.return True }
           | WatchAgain \<Rightarrow> State_Monad.return True
           | WatchInterrupted \<Rightarrow> State_Monad.return True
           | WatchFailed \<Rightarrow> State_Monad.return False } }"

definition monitor_end :: "(('w, 's) monitor_ctx, unit) state" where
  "monitor_end = set_monitor (\<lambda>m. m\<lparr>pm_running := False, pm_started := False, pm_thread := ThreadEnded\<rparr>)"

definition monitor_round :: "'w watch_os \<Rightarrow> (('w, 's) monitor_ctx, unit) state" where
  "monitor_round wo = do {
     m \<leftarrow> gets mx_monitor;
     if \<not> pm_running m then monitor_end
     else do {
       go_on \<leftarrow> monitor_turn wo;
       if go_on then State_Monad.return () else monitor_end } }"

text \<open>The whole of \<open>stop\<close>: the round the thread is in is its last (\<open>asked_round_ends\<close>).\<close>

definition stop_monitor :: "'w watch_os \<Rightarrow> (('w, 's) monitor_ctx, unit) state" where
  "stop_monitor wo = do {
     stop_signal wo;
     m \<leftarrow> gets mx_monitor;
     (if pm_thread m = Looping then monitor_round wo else State_Monad.return ());
     stop_release wo }"

subsection \<open>Everything that happens to the monitor\<close>

text \<open>
  \<open>stop\<close> is a request, rounds of the thread until it has ended, and the release; the owner calls nothing else in
  between.
\<close>

inductive monitor_step :: "'w watch_os \<Rightarrow> ('w, 's) monitor_ctx \<Rightarrow> ('w, 's) monitor_ctx \<Rightarrow> bool" for wo where
  monitor_starts: "(pm_thread (mx_monitor c) = Looping \<longrightarrow> pm_started (mx_monitor c)) \<Longrightarrow> monitor_step wo c (snd (run_state (start_monitor wo f g) c))"
| monitor_rounds: "pm_thread (mx_monitor c) = Looping \<Longrightarrow> monitor_step wo c (snd (run_state (monitor_round wo) c))"
| monitor_asked: "monitor_step wo c (snd (run_state (stop_signal wo) c))"
| monitor_joined: "pm_thread (mx_monitor c) \<noteq> Looping \<Longrightarrow> \<not> pm_started (mx_monitor c) \<Longrightarrow>
    monitor_step wo c (snd (run_state (stop_release wo) c))"

inductive monitor_reachable :: "'w watch_os \<Rightarrow> 'w \<Rightarrow> 's \<Rightarrow> ('w, 's) monitor_ctx \<Rightarrow> bool" for wo w s where
  monitor_created: "monitor_reachable wo w s \<lparr>mx_world = w, mx_client = s, mx_monitor = new_monitor\<rparr>"
| monitor_moved: "monitor_reachable wo w s c \<Longrightarrow> monitor_step wo c c' \<Longrightarrow> monitor_reachable wo w s c'"


subsection \<open>No descriptor is lost\<close>

definition monitor_holds :: "'s ProcMonitor \<Rightarrow> int multiset" where
  "monitor_holds m = held_fd (pm_inotify_fd m) + held_fd (pm_stop_fd m)"

definition monitor_ok :: "('w booked, 's) monitor_ctx \<Rightarrow> bool" where
  "monitor_ok c \<longleftrightarrow> (let m = mx_monitor c in
     balanced (monitor_holds m) (mx_world c) \<and>
     (pm_started m \<longleftrightarrow> pm_running m) \<and> (pm_started m \<longrightarrow> pm_thread m = Looping) \<and>
     (if pm_thread m = NoThread then pm_inotify_fd m < 0 \<and> pm_stop_fd m < 0
      else 0 \<le> pm_inotify_fd m \<and> 0 \<le> pm_stop_fd m))"

definition monitor_closed :: "('w booked, 's) monitor_ctx \<Rightarrow> bool" where
  "monitor_closed c \<longleftrightarrow> (let m = mx_monitor c in
     balanced {#} (mx_world c) \<and> \<not> pm_started m \<and> \<not> pm_running m \<and> pm_thread m = NoThread \<and>
     pm_inotify_fd m < 0 \<and> pm_stop_fd m < 0)"

lemma wp_set_monitor [wp_rules]: "Q () (c\<lparr>mx_monitor := f (mx_monitor c)\<rparr>) \<Longrightarrow> wp (set_monitor f) Q c"
  by (simp add: set_monitor_def wp_def)

lemma wp_monitor_sys [wp_rules]: "wp m (\<lambda>a w. Q a (c\<lparr>mx_world := w\<rparr>)) (mx_world c) \<Longrightarrow> wp (monitor_sys m) Q c"
  unfolding monitor_sys_def by (rule wp_zoom)

lemmas monitor_simps = monitor_ok_def monitor_closed_def monitor_holds_def balanced_def Let_def

lemma closed_is_ok: "monitor_closed c \<Longrightarrow> monitor_ok c"
  by (simp add: monitor_simps)

lemma open_monitor_ok:
  assumes "monitor_closed c"
  shows "wp (open_monitor (ledger wo)) (\<lambda>_. monitor_ok) c"
  using assms unfolding open_monitor_def spawn_monitor_def
  by (intro wp_rules) (simp_all add: monitor_simps)

lemma stop_release_closes:
  assumes "monitor_ok c" "pm_thread (mx_monitor c) \<noteq> Looping"
  shows "wp (stop_release (ledger wo)) (\<lambda>_. monitor_closed) c"
  using assms unfolding stop_release_def close_inotify_def close_stop_def
  by (intro wp_rules) (auto simp: monitor_simps split: if_splits)

lemma stop_signal_ok:
  assumes "monitor_ok c"
  shows "wp (stop_signal (ledger wo)) (\<lambda>_ c'. monitor_ok c' \<and> \<not> pm_started (mx_monitor c') \<and>
    pm_thread (mx_monitor c') = pm_thread (mx_monitor c)) c"
  using assms unfolding stop_signal_def
  by (intro wp_rules) (auto simp: monitor_simps split: if_splits)

lemma start_monitor_ok:
  assumes "monitor_ok c" "pm_thread (mx_monitor c) = Looping \<longrightarrow> pm_started (mx_monitor c)"
  shows "wp (start_monitor (ledger wo) f g) (\<lambda>_. monitor_ok) c"
proof -
  let ?m = "mx_monitor c"
  have join: "wp (do { stop_signal (ledger wo); stop_release (ledger wo) }) (\<lambda>_. monitor_closed) c" if "\<not> pm_started ?m"
    by (intro wp_bind wp_conseq [OF stop_signal_ok [OF assms(1)]] stop_release_closes)
      (use that assms(2) in auto)
  have idle: "monitor_closed c" if "\<not> (pm_thread ?m \<noteq> NoThread \<or> 0 \<le> pm_inotify_fd ?m \<or> 0 \<le> pm_stop_fd ?m)"
    using assms(1) that by (auto simp: monitor_simps split: if_splits)
  have ready: "wp (if pm_thread ?m \<noteq> NoThread \<or> 0 \<le> pm_inotify_fd ?m \<or> 0 \<le> pm_stop_fd ?m
      then do { stop_signal (ledger wo); stop_release (ledger wo) } else State_Monad.return ())
    (\<lambda>_. monitor_closed) c" if "\<not> pm_started ?m"
    using join [OF that] idle by (intro wp_if wp_return) blast+
  have start: "wp (do {
      set_monitor (\<lambda>m. m\<lparr>pm_on_process_change := f, pm_on_events_dropped := g\<rparr>);
      open_monitor (ledger wo) }) (\<lambda>_. monitor_ok) c'" if "monitor_closed c'" for c'
    by (intro wp_bind wp_set_monitor open_monitor_ok) (use that in \<open>simp add: monitor_simps\<close>)
  show ?thesis
    unfolding start_monitor_def
    by (rule wp_bind, rule wp_gets, rule wp_if, rule wp_return, rule assms(1), rule wp_bind,
        erule wp_conseq [OF ready start])
qed

text \<open>The callbacks touch the client only, the rest of a round only what the kernel delivers.\<close>

lemma callbacks_frame [keeps_rules]: "keeps (\<lambda>c. (mx_world c, mx_monitor c)) (call_back m)"
  unfolding call_back_def by (rule keeps_zoom) simp

lemma handle_event_frame [keeps_rules]: "keeps (\<lambda>c. (mx_world c, mx_monitor c)) (handle_event e)"
  unfolding handle_event_def by (intro keeps_rules)

lemma handle_buffer_frame: "keeps (\<lambda>c. (mx_world c, mx_monitor c)) (handle_buffer buf)"
proof -
  have "keeps (\<lambda>c. (mx_world c, mx_monitor c)) (handle_each es)" for es
    by (induction es) (auto intro!: keeps_rules)
  then show ?thesis by (simp add: handle_buffer_def)
qed

lemma wp_handle_buffer:
  assumes "monitor_ok c" "\<And>a c'. monitor_ok c' \<Longrightarrow> mx_monitor c' = mx_monitor c \<Longrightarrow> Q a c'"
  shows "wp (handle_buffer buf) Q c"
  unfolding wp_iff
proof (intro allI impI)
  fix a c' assume "run_state (handle_buffer buf) c = (a, c')"
  from keepsD [OF handle_buffer_frame this] assms(1) show "Q a c'"
    by (intro assms(2)) (simp_all add: monitor_ok_def)
qed

lemma monitor_turn_ok:
  assumes "monitor_ok c"
  shows "wp (monitor_turn (ledger wo)) (\<lambda>_ c'. monitor_ok c' \<and> mx_monitor c' = mx_monitor c) c"
  unfolding monitor_turn_def
proof (intro wp_bind wp_gets wp_monitor_sys wp_ledger)
  fix ret w
  let ?c = "c\<lparr>mx_world := (w, snd (mx_world c))\<rparr>"
  have same: "monitor_ok (?c\<lparr>mx_world := (w', snd (mx_world c))\<rparr>)" for w'
    using assms by (simp add: monitor_simps)
  have ok: "monitor_ok ?c" using same [of w] by simp
  show "wp (case ret of WatchPollInterrupted \<Rightarrow> State_Monad.return True | WatchPollFailed \<Rightarrow> State_Monad.return False
     | WatchReady stop_in events_in trouble \<Rightarrow>
         if stop_in then do { monitor_sys (wa_drain (ledger wo) (pm_stop_fd (mx_monitor c))); State_Monad.return False }
         else if \<not> events_in then State_Monad.return (\<not> trouble)
         else do {
           r \<leftarrow> monitor_sys (wa_read (ledger wo) (pm_inotify_fd (mx_monitor c)) kBufferSize);
           case r of
             WatchData buf \<Rightarrow> do { handle_buffer buf; State_Monad.return True }
           | WatchAgain \<Rightarrow> State_Monad.return True
           | WatchInterrupted \<Rightarrow> State_Monad.return True
           | WatchFailed \<Rightarrow> State_Monad.return False })
     (\<lambda>_ c'. monitor_ok c' \<and> mx_monitor c' = mx_monitor c) ?c"
    using ok same
    by (auto split: watch_poll.split watch_read.split intro!: wp_rules wp_handle_buffer)
qed

lemma monitor_round_ok:
  assumes "monitor_ok c" "pm_thread (mx_monitor c) = Looping"
  shows "wp (monitor_round (ledger wo)) (\<lambda>_. monitor_ok) c"
proof -
  have ended: "monitor_ok (c'\<lparr>mx_monitor := (mx_monitor c')\<lparr>pm_running := False, pm_started := False,
      pm_thread := ThreadEnded\<rparr>\<rparr>)" if "monitor_ok c'" "mx_monitor c' = mx_monitor c" for c'
    using that assms(2) by (simp add: monitor_simps)
  show ?thesis
    unfolding monitor_round_def monitor_end_def
    by (intro wp_bind wp_gets wp_if wp_set_monitor wp_conseq [OF monitor_turn_ok [OF assms(1)]] wp_return)
      (use ended assms(1) in \<open>fastforce+\<close>)
qed

lemma reachable_monitor_ok:
  "monitor_reachable (ledger wo) (w, {#}, {#}) s c \<Longrightarrow> monitor_ok c"
proof (induction rule: monitor_reachable.induct)
  case monitor_created
  show ?case by (simp add: monitor_simps new_monitor_def)
next
  case (monitor_moved c c')
  from monitor_moved(2) show ?case
  proof (cases rule: monitor_step.cases)
    case (monitor_starts f g)
    then show ?thesis using wp_snd [OF start_monitor_ok [OF monitor_moved(3)]] by simp
  next
    case monitor_rounds
    then show ?thesis using wp_snd [OF monitor_round_ok [OF monitor_moved(3)]] by simp
  next
    case monitor_asked
    then show ?thesis using wp_snd [OF stop_signal_ok [OF monitor_moved(3)]] by simp
  next
    case monitor_joined
    then show ?thesis using closed_is_ok [OF wp_snd [OF stop_release_closes [OF monitor_moved(3)]]] by simp
  qed
qed

subsection \<open>What the callbacks are told\<close>

text \<open>The number an event stands for: the process created, or the negated number of the process deleted.\<close>

definition process_change :: "inotify_event \<Rightarrow> int option" where
  "process_change e =
     (if has_bits e IN_Q_OVERFLOW \<or> ie_name e = [] then None
      else case parse_id_entry (event_name e) of None \<Rightarrow> None
        | Some pid \<Rightarrow>
            if has_bits e IN_CREATE then Some pid else if has_bits e IN_DELETE then Some (- pid) else None)"

definition told :: "(int \<Rightarrow> ('s, unit) state) \<Rightarrow> ('s, unit) state \<Rightarrow> inotify_event \<Rightarrow> 's \<Rightarrow> 's" where
  "told f g e s =
     (if has_bits e IN_Q_OVERFLOW then snd (run_state g s)
      else case process_change e of None \<Rightarrow> s | Some n \<Rightarrow> snd (run_state (f n) s))"

lemma handle_event_tells:
  assumes "pm_on_process_change (mx_monitor c) = Some f" "pm_on_events_dropped (mx_monitor c) = Some g"
  shows "run_state (handle_event e) c = ((), c\<lparr>mx_client := told f g e (mx_client c)\<rparr>)"
  using assms
  by (simp add: handle_event_def told_def process_change_def call_back_def split: option.split prod.split)

text \<open>In the code's terms: the callbacks are called once for each event that matters, in the order of the buffer.\<close>

lemma handle_buffer_tells:
  assumes "pm_on_process_change (mx_monitor c) = Some f" "pm_on_events_dropped (mx_monitor c) = Some g"
  shows "run_state (handle_buffer buf) c =
    ((), c\<lparr>mx_client := fold (told f g) (fst (records buf)) (mx_client c)\<rparr>)"
proof -
  have "run_state (handle_each es) c = ((), c\<lparr>mx_client := fold (told f g) es (mx_client c)\<rparr>)" for es
    using assms by (induction es arbitrary: c) (simp_all add: handle_event_tells)
  then show ?thesis by (simp add: handle_buffer_def)
qed

text \<open>A process number is positive, so the sign tells a deletion from a creation.\<close>

lemma parse_id_entry_valid: "parse_id_entry name = Some pid \<Longrightarrow> is_valid_pid pid"
  by (auto simp: parse_id_entry_def split: if_splits option.splits prod.splits)

lemma process_change_sign:
  assumes "process_change e = Some n"
  shows "if has_bits e IN_CREATE then is_valid_pid n else is_valid_pid (- n)"
  using assms parse_id_entry_valid by (auto simp: process_change_def split: if_splits option.splits)

subsection \<open>Stopping\<close>

text \<open>Once asked to stop, the thread ends with the round it is in, whatever the kernel answers.\<close>

lemma asked_round_ends:
  assumes "\<not> pm_running (mx_monitor c)"
  shows "pm_thread (mx_monitor (snd (run_state (monitor_round wo) c))) = ThreadEnded"
  using assms by (simp add: monitor_round_def monitor_end_def set_monitor_def)

text \<open>And a thread that waits is woken: the stop descriptor is written exactly when the thread was running.\<close>

lemma stop_signal_run:
  "snd (run_state (stop_signal wo) c) =
     (let m = mx_monitor c; c1 = c\<lparr>mx_monitor := m\<lparr>pm_started := False, pm_running := False\<rparr>\<rparr>
      in if pm_running m \<and> 0 \<le> pm_stop_fd m
         then c1\<lparr>mx_world := snd (run_state (wa_signal wo (pm_stop_fd m)) (mx_world c))\<rparr> else c1)"
  by (simp add: stop_signal_def set_monitor_def monitor_sys_def Let_def split: prod.split)

text \<open>A thread that is told of the stop by \<open>poll\<close> ends too, without reading another event.\<close>

lemma woken_round_ends:
  assumes "run_state (wa_poll wo (pm_inotify_fd (mx_monitor c)) (pm_stop_fd (mx_monitor c))) (mx_world c) =
      (WatchReady True events_in trouble, w)"
  shows "mx_client (snd (run_state (monitor_round wo) c)) = mx_client c \<and>
    pm_thread (mx_monitor (snd (run_state (monitor_round wo) c))) = ThreadEnded"
  using assms
  by (simp add: monitor_round_def monitor_turn_def monitor_end_def set_monitor_def monitor_sys_def split: prod.split)

text \<open>A stop therefore closes everything, in whatever state it finds the monitor.\<close>

lemma stop_monitor_closes:
  assumes "monitor_ok c"
  shows "wp (stop_monitor (ledger wo)) (\<lambda>_. monitor_closed) c"
  unfolding stop_monitor_def
proof (rule wp_bind, rule wp_conseq [OF stop_signal_ok [OF assms]], rule wp_bind, rule wp_gets, rule wp_bind)
  fix a :: unit and c' :: "('a booked, 'b) monitor_ctx"
  assume c': "monitor_ok c' \<and> \<not> pm_started (mx_monitor c') \<and> pm_thread (mx_monitor c') = pm_thread (mx_monitor c)"
  have last: "wp (monitor_round (ledger wo)) (\<lambda>_ c1. monitor_ok c1 \<and> pm_thread (mx_monitor c1) = ThreadEnded) c'"
    if "pm_thread (mx_monitor c') = Looping"
  proof -
    have "\<not> pm_running (mx_monitor c')" using c' by (auto simp: monitor_simps)
    from asked_round_ends [OF this, of "ledger wo"] wp_snd [OF monitor_round_ok [OF _ that, of wo]] c'
    show ?thesis by (auto simp: wp_def split: prod.splits)
  qed
  show "wp (if pm_thread (mx_monitor c') = Looping then monitor_round (ledger wo) else State_Monad.return ())
      (\<lambda>_. wp (stop_release (ledger wo)) (\<lambda>_. monitor_closed)) c'"
  proof (rule wp_if)
    assume "pm_thread (mx_monitor c') = Looping"
    from last [OF this] show "wp (monitor_round (ledger wo)) (\<lambda>_. wp (stop_release (ledger wo)) (\<lambda>_. monitor_closed)) c'"
      by (rule wp_conseq) (auto intro: stop_release_closes)
  next
    assume "pm_thread (mx_monitor c') \<noteq> Looping"
    with c' show "wp (State_Monad.return ()) (\<lambda>_. wp (stop_release (ledger wo)) (\<lambda>_. monitor_closed)) c'"
      by (intro wp_return stop_release_closes) simp_all
  qed
qed

end
