(* ===== verification/Config_Watcher.thy ===== *)
theory Config_Watcher
  imports Inotify
begin

section \<open>The watcher of the configuration file (main.cpp)\<close>

text \<open>
  \<open>ConfigFileWatcher\<close> watches the directory of the configuration file without blocking: once per round
  \<open>check_and_clear\<close> reads everything that has happened, makes the watch anew when it was lost, and says
  whether the file was touched since the last call. The loop over the pending reads ends when the queue is
  empty (\<open>queue_law\<close>), so it is a partial function. Main results: \<open>check_and_clear\<close> reports a change exactly
  when one of the events read concerns the file, or events were dropped (\<open>check_reports\<close>); it never leaks
  a descriptor (\<open>check_keeps_books\<close>).
\<close>

subsection \<open>State\<close>

record ConfigFileWatcher =
  cw_config_path :: string
  cw_watch_dir :: string
  cw_watch_basename :: string
  cw_inotify_fd :: int
  cw_watch_fd :: int
  cw_config_changed :: bool

text \<open>\<open>rfind('/')\<close>: what stands before and after the last slash.\<close>

definition split_path :: "string \<Rightarrow> string \<times> string" where
  "split_path path =
     (if CHR ''/'' \<notin> set path then (''.'', path)
      else (rev (tl (dropWhile (\<lambda>c. c \<noteq> CHR ''/'') (rev path))), rev (takeWhile (\<lambda>c. c \<noteq> CHR ''/'') (rev path))))"

definition new_watcher :: "string \<Rightarrow> ConfigFileWatcher" where
  "new_watcher path = \<lparr>cw_config_path = path, cw_watch_dir = fst (split_path path),
     cw_watch_basename = snd (split_path path), cw_inotify_fd = -1, cw_watch_fd = -1, cw_config_changed = False\<rparr>"

type_synonym ('w, 'a) watching = "('w \<times> ConfigFileWatcher, 'a) state"

definition watcher_sys :: "('w, 'a) state \<Rightarrow> ('w, 'a) watching" where
  "watcher_sys m = zoom fst (\<lambda>w c. (w, snd c)) m"

definition set_watcher :: "(ConfigFileWatcher \<Rightarrow> ConfigFileWatcher) \<Rightarrow> ('w, unit) watching" where
  "set_watcher f = modify (\<lambda>(w, cw). (w, f cw))"

subsection \<open>Making and dropping the watch\<close>

definition kWatchMask :: "32 word" where
  "kWatchMask = IN_MODIFY OR IN_CLOSE_WRITE OR IN_MOVED_TO OR IN_ATTRIB OR IN_DELETE_SELF OR IN_MOVE_SELF
     OR IN_IGNORED OR IN_Q_OVERFLOW"

definition add_watch :: "'w watch_os \<Rightarrow> ('w, bool) watching" where
  "add_watch wo = do {
     (_, cw) \<leftarrow> State_Monad.get;
     fd \<leftarrow> watcher_sys (wa_add wo (cw_inotify_fd cw) (cw_watch_dir cw) kWatchMask);
     set_watcher (\<lambda>cw. cw\<lparr>cw_watch_fd := fd\<rparr>);
     State_Monad.return (0 \<le> fd) }"

definition stop_watcher :: "'w watch_os \<Rightarrow> ('w, unit) watching" where
  "stop_watcher wo = do {
     (_, cw) \<leftarrow> State_Monad.get;
     (if 0 \<le> cw_inotify_fd cw
      then do { watcher_sys (wa_close wo (cw_inotify_fd cw)); set_watcher (\<lambda>cw. cw\<lparr>cw_inotify_fd := -1\<rparr>) }
      else State_Monad.return ());
     set_watcher (\<lambda>cw. cw\<lparr>cw_watch_fd := -1\<rparr>) }"

definition start_watcher :: "'w watch_os \<Rightarrow> ('w, bool) watching" where
  "start_watcher wo = do {
     stop_watcher wo;
     fd \<leftarrow> watcher_sys (wa_init wo);
     set_watcher (\<lambda>cw. cw\<lparr>cw_inotify_fd := fd\<rparr>);
     if fd < 0 then State_Monad.return False
     else do {
       added \<leftarrow> add_watch wo;
       if \<not> added
       then do {
         watcher_sys (wa_close wo fd);
         set_watcher (\<lambda>cw. cw\<lparr>cw_inotify_fd := -1\<rparr>);
         State_Monad.return False }
       else State_Monad.return True } }"

subsection \<open>Reading what happened\<close>

definition watch_lost :: "inotify_event \<Rightarrow> bool" where
  "watch_lost e \<longleftrightarrow> has_bits e (IN_IGNORED OR IN_DELETE_SELF OR IN_MOVE_SELF)"

definition file_touched :: "string \<Rightarrow> inotify_event \<Rightarrow> bool" where
  "file_touched basename e \<longleftrightarrow> ie_name e \<noteq> [] \<and> basename = event_name e \<and>
     has_bits e (IN_MODIFY OR IN_CLOSE_WRITE OR IN_MOVED_TO OR IN_ATTRIB)"

text \<open>One event, on \<open>(rewatch_needed, config_changed)\<close>.\<close>

definition note_event :: "string \<Rightarrow> inotify_event \<Rightarrow> bool \<times> bool \<Rightarrow> bool \<times> bool" where
  "note_event basename e s = (case s of (rewatch, changed) \<Rightarrow>
     let changed1 = (changed \<or> has_bits e IN_Q_OVERFLOW);
         rewatch1 = (rewatch \<or> watch_lost e)
     in (rewatch1, changed1 \<or> file_touched basename e))"

definition note_buffer :: "string \<Rightarrow> string \<Rightarrow> bool \<times> bool \<Rightarrow> bool \<times> bool" where
  "note_buffer basename buf s = (case records buf of (evs, broken) \<Rightarrow>
     case fold (note_event basename) evs s of (rewatch, changed) \<Rightarrow> (rewatch \<or> broken, changed))"

partial_function (option) drain_events ::
  "'w watch_os \<Rightarrow> int \<Rightarrow> string \<Rightarrow> bool \<times> bool \<Rightarrow> 'w \<Rightarrow> ((bool \<times> bool) \<times> 'w) option" where
  "drain_events wo fd basename s w =
     (case run_state (wa_read wo fd 4096) w of (r, w1) \<Rightarrow>
       (case r of
          WatchAgain \<Rightarrow> Some (s, w1)
        | WatchInterrupted \<Rightarrow> drain_events wo fd basename s w1
        | WatchFailed \<Rightarrow> Some ((True, snd s), w1)
        | WatchData buf \<Rightarrow>
            if buf = [] then Some ((True, snd s), w1)
            else drain_events wo fd basename (note_buffer basename buf s) w1))"

declare drain_events.simps [code]

definition check_drain ::
  "'w watch_os \<Rightarrow> 'w \<times> ConfigFileWatcher \<Rightarrow> (bool \<times> ('w \<times> ConfigFileWatcher)) option" where
  "check_drain wo c = (case c of (w, cw) \<Rightarrow>
     (case drain_events wo (cw_inotify_fd cw) (cw_watch_basename cw) (False, cw_config_changed cw) w of
        None \<Rightarrow> None
      | Some ((rewatch, changed), w1) \<Rightarrow>
          (case (if rewatch then snd (run_state (do { stop_watcher wo; start_watcher wo }) (w1, cw)) else (w1, cw)) of
             (w2, cw2) \<Rightarrow> Some (changed, (w2, cw2\<lparr>cw_config_changed := False\<rparr>)))))"

definition check_and_clear ::
  "'w watch_os \<Rightarrow> 'w \<times> ConfigFileWatcher \<Rightarrow> (bool \<times> ('w \<times> ConfigFileWatcher)) option" where
  "check_and_clear wo c =
     (if cw_inotify_fd (snd c) < 0
      then (case run_state (start_watcher wo) c of (ok, c1) \<Rightarrow> if \<not> ok then Some (False, c1) else check_drain wo c1)
      else check_drain wo c)"

subsection \<open>The reading ends\<close>

text \<open>
  Without blocking there is only so much to read: an interrupted call or a buffer of events brings the queue
  nearer to its end.
\<close>

definition queue_law :: "'w watch_os \<Rightarrow> ('w \<Rightarrow> nat) \<Rightarrow> bool" where
  "queue_law wo len \<longleftrightarrow> (\<forall>fd n w r w'. run_state (wa_read wo fd n) w = (r, w') \<longrightarrow>
     r = WatchInterrupted \<or> (\<exists>buf. r = WatchData buf \<and> buf \<noteq> []) \<longrightarrow> len w' < len w)"

lemma drain_ends:
  assumes "queue_law wo len"
  shows "\<exists>r. drain_events wo fd basename s w = Some r"
proof (induction "len w" arbitrary: s w rule: less_induct)
  case less
  obtain r w1 where read: "run_state (wa_read wo fd 4096) w = (r, w1)" by (metis surj_pair)
  have next_read: "\<exists>x. drain_events wo fd basename s' w1 = Some x"
    if "r = WatchInterrupted \<or> (\<exists>buf. r = WatchData buf \<and> buf \<noteq> [])" for s'
    using less assms read that unfolding queue_law_def by blast
  show ?case
    by (subst drain_events.simps) (use next_read in \<open>auto simp: read split: watch_read.split\<close>)
qed

lemma check_ends:
  assumes "queue_law wo len"
  shows "\<exists>r. check_and_clear wo c = Some r"
proof -
  have "\<exists>r. check_drain wo c = Some r" for c
  proof -
    obtain w cw where c: "c = (w, cw)" by (cases c)
    obtain s w1 where "drain_events wo (cw_inotify_fd cw) (cw_watch_basename cw) (False, cw_config_changed cw) w = Some (s, w1)"
      using drain_ends [OF assms] by (metis surj_pair)
    then show ?thesis by (simp add: check_drain_def c split: prod.split)
  qed
  then show ?thesis by (simp add: check_and_clear_def split: prod.split)
qed

subsection \<open>What is reported\<close>

text \<open>\<open>transcript wo\<close> is the same kernel with a log of the buffers it delivers.\<close>

definition unlogged :: "('w, 'a) state \<Rightarrow> ('w \<times> string list, 'a) state" where
  "unlogged m = zoom fst (\<lambda>w s. (w, snd s)) m"

definition log_read :: "('w, watch_read) state \<Rightarrow> ('w \<times> string list, watch_read) state" where
  "log_read m = do {
     r \<leftarrow> unlogged m;
     (case r of WatchData buf \<Rightarrow> modify (\<lambda>(w, bufs). (w, bufs @ [buf])) | _ \<Rightarrow> State_Monad.return ());
     State_Monad.return r }"

definition transcript :: "'w watch_os \<Rightarrow> ('w \<times> string list) watch_os" where
  "transcript wo = \<lparr>wa_init = unlogged (wa_init wo), wa_add = (\<lambda>fd p m. unlogged (wa_add wo fd p m)),
     wa_eventfd = unlogged (wa_eventfd wo), wa_close = (\<lambda>fd. unlogged (wa_close wo fd)),
     wa_read = (\<lambda>fd n. log_read (wa_read wo fd n)), wa_poll = (\<lambda>a b. unlogged (wa_poll wo a b)),
     wa_signal = (\<lambda>fd. unlogged (wa_signal wo fd)), wa_drain = (\<lambda>fd. unlogged (wa_drain wo fd)),
     wa_spawn = unlogged (wa_spawn wo)\<rparr>"

lemma transcript_queue_law:
  assumes "queue_law wo len"
  shows "queue_law (transcript wo) (len \<circ> fst)"
  unfolding queue_law_def
proof (intro allI impI)
  fix fd n and x x' :: "'a \<times> string list" and r
  assume run: "run_state (wa_read (transcript wo) fd n) x = (r, x')"
    and r: "r = WatchInterrupted \<or> (\<exists>buf. r = WatchData buf \<and> buf \<noteq> [])"
  have "run_state (wa_read wo fd n) (fst x) = (r, fst x')"
    using run by (auto simp: transcript_def log_read_def unlogged_def split: prod.splits watch_read.splits)
  with assms r show "(len \<circ> fst) x' < (len \<circ> fst) x" unfolding queue_law_def by auto
qed

definition events_of_buffers :: "string list \<Rightarrow> inotify_event list" where
  "events_of_buffers bufs = concat (map (fst \<circ> records) bufs)"

definition concerns_file :: "string \<Rightarrow> inotify_event \<Rightarrow> bool" where
  "concerns_file basename e \<longleftrightarrow> has_bits e IN_Q_OVERFLOW \<or> file_touched basename e"

lemma fold_note_event:
  "fold (note_event basename) evs (rewatch, changed) =
     (rewatch \<or> (\<exists>e \<in> set evs. watch_lost e), changed \<or> (\<exists>e \<in> set evs. concerns_file basename e))"
  by (induction evs arbitrary: rewatch changed) (auto simp: note_event_def concerns_file_def Let_def)

lemma note_buffer_eq:
  "note_buffer basename buf (rewatch, changed) =
     (rewatch \<or> (\<exists>e \<in> set (fst (records buf)). watch_lost e) \<or> snd (records buf),
      changed \<or> (\<exists>e \<in> set (fst (records buf)). concerns_file basename e))"
  by (auto simp: note_buffer_def fold_note_event split: prod.split)

definition drained :: "string \<Rightarrow> bool \<times> bool \<Rightarrow> string list \<Rightarrow> bool \<times> bool \<Rightarrow> bool" where
  "drained basename s bufs s' \<longleftrightarrow>
     (snd s' \<longleftrightarrow> snd s \<or> (\<exists>e \<in> set (events_of_buffers bufs). concerns_file basename e)) \<and>
     (fst s \<or> (\<exists>e \<in> set (events_of_buffers bufs). watch_lost e) \<or> (\<exists>buf \<in> set bufs. snd (records buf)) \<longrightarrow> fst s')"

lemma drained_step:
  "drained basename (note_buffer basename buf s) bufs s' \<Longrightarrow> drained basename s (buf # bufs) s'"
  by (cases s) (auto simp: drained_def note_buffer_eq events_of_buffers_def)

lemma drain_transcript:
  assumes "drain_events wo' fd basename s x = Some r" "wo' = transcript wo"
  shows "\<exists>bufs. snd (snd r) = snd x @ bufs \<and> drained basename s bufs (fst r)"
  using assms
proof (induction rule: drain_events.raw_induct [rotated, consumes 1])
  case (1 drain wo' fd basename s x r)
  obtain a w1 where read: "run_state (wa_read wo fd 4096) (fst x) = (a, w1)" by (metis surj_pair)
  have unread: "drained basename s [] (True, snd s)" "drained basename s [] s"
    by (simp_all add: drained_def events_of_buffers_def)
  have log: "run_state (wa_read wo' fd 4096) x =
      (a, (w1, case a of WatchData buf \<Rightarrow> snd x @ [buf] | _ \<Rightarrow> snd x))"
    using read by (simp add: 1(3) transcript_def log_read_def unlogged_def split: watch_read.split)
  show ?case
  proof (cases a)
    case (WatchData buf)
    show ?thesis
    proof (cases "buf = []")
      case True
      with 1(2) log WatchData unread show ?thesis
        by (auto simp: drained_def events_of_buffers_def records_short kEventSize_def)
    next
      case False
      with 1(2) log WatchData have "drain wo' fd basename (note_buffer basename buf s) (w1, snd x @ [buf]) = Some r"
        by simp
      from 1(1) [OF this 1(3)] obtain bufs where
        "snd (snd r) = snd x @ buf # bufs" "drained basename (note_buffer basename buf s) bufs (fst r)" by auto
      then show ?thesis by (intro exI [of _ "buf # bufs"]) (simp add: drained_step)
    qed
  next
    case WatchInterrupted
    with 1(2) log have "drain wo' fd basename s (w1, snd x) = Some r" by simp
    from 1(1) [OF this 1(3)] show ?thesis by simp
  next
    case WatchAgain
    with 1(2) log have "r = (s, w1, snd x)" by simp
    with unread(2) show ?thesis by simp
  next
    case WatchFailed
    with 1(2) log unread show ?thesis by auto
  qed
qed

text \<open>The buffers of the transcript are untouched by making a watch anew.\<close>

lemma unlogged_keeps [keeps_rules]: "keeps snd (unlogged m)"
  unfolding unlogged_def by (rule keeps_zoom) simp

lemma watcher_sys_keeps [keeps_rules]: "keeps f m \<Longrightarrow> keeps (\<lambda>c. f (fst c)) (watcher_sys m)"
  by (auto simp: watcher_sys_def keeps_def split: prod.splits) (metis snd_conv)

lemma set_watcher_keeps [keeps_rules]: "keeps (\<lambda>c. f (fst c)) (set_watcher g)"
  by (simp add: set_watcher_def keeps_def split: prod.split)

definition watch_config :: "'w \<times> ConfigFileWatcher \<Rightarrow> string \<times> string \<times> string \<times> bool" where
  "watch_config c = (cw_config_path (snd c), cw_watch_dir (snd c), cw_watch_basename (snd c), cw_config_changed (snd c))"

lemma watch_config_keeps [keeps_rules]:
  "keeps watch_config (watcher_sys m)"
  "keeps watch_config (set_watcher (\<lambda>cw. cw\<lparr>cw_inotify_fd := fd\<rparr>))"
  "keeps watch_config (set_watcher (\<lambda>cw. cw\<lparr>cw_watch_fd := fd\<rparr>))"
  by (simp_all add: keeps_def watch_config_def watcher_sys_def set_watcher_def split: prod.split)

lemma stop_watcher_keeps [keeps_rules]: "keeps watch_config (stop_watcher wo)"
  unfolding stop_watcher_def by (intro keeps_rules)

lemma start_watcher_keeps [keeps_rules]: "keeps watch_config (start_watcher wo)"
  unfolding start_watcher_def add_watch_def by (intro keeps_rules)

lemma transcript_quiet [keeps_rules]:
  "keeps snd (wa_init (transcript wo))" "keeps snd (wa_add (transcript wo) fd p m)"
  "keeps snd (wa_close (transcript wo) fd)"
  by (simp_all add: transcript_def unlogged_keeps)

lemma stop_watcher_silent [keeps_rules]: "keeps (\<lambda>c. snd (fst c)) (stop_watcher (transcript wo))"
  unfolding stop_watcher_def by (intro keeps_rules)

lemma start_watcher_silent [keeps_rules]: "keeps (\<lambda>c. snd (fst c)) (start_watcher (transcript wo))"
  unfolding start_watcher_def add_watch_def by (intro keeps_rules)

lemma check_drain_reports:
  assumes "check_drain (transcript wo) c = Some (reported, c')"
  shows "\<exists>bufs. snd (fst c') = snd (fst c) @ bufs \<and>
    (reported \<longleftrightarrow> cw_config_changed (snd c) \<or>
      (\<exists>e \<in> set (events_of_buffers bufs). concerns_file (cw_watch_basename (snd c)) e)) \<and>
    \<not> cw_config_changed (snd c')"
proof -
  obtain w cw where c: "c = (w, cw)" by (cases c)
  obtain rewatch changed w1 where run:
    "drain_events (transcript wo) (cw_inotify_fd cw) (cw_watch_basename cw) (False, cw_config_changed cw) w =
      Some ((rewatch, changed), w1)"
    using assms by (auto simp: check_drain_def c split: option.splits)
  from drain_transcript [OF run refl] obtain bufs where bufs: "snd w1 = snd w @ bufs"
    "drained (cw_watch_basename cw) (False, cw_config_changed cw) bufs (rewatch, changed)" by auto
  obtain w2 cw2 where again: "(if rewatch then snd (run_state (do { stop_watcher (transcript wo); start_watcher (transcript wo) })
      (w1, cw)) else (w1, cw)) = (w2, cw2)" by (metis surj_pair)
  have "keeps (\<lambda>c. snd (fst c)) (do { stop_watcher (transcript wo); start_watcher (transcript wo) })"
    by (intro keeps_rules)
  then have "snd (fst (snd (run_state (do { stop_watcher (transcript wo); start_watcher (transcript wo) }) (w1, cw)))) = snd w1"
    by (simp only: keeps_def fst_conv)
  with again have "snd w2 = snd w1" by (cases rewatch) (metis fst_conv)+
  with assms run again bufs show ?thesis by (auto simp: check_drain_def c drained_def)
qed

lemma check_reports:
  assumes "check_and_clear (transcript wo) c = Some (reported, c')" "\<not> cw_config_changed (snd c)"
  shows "\<exists>bufs. snd (fst c') = snd (fst c) @ bufs \<and>
    (reported \<longleftrightarrow> (\<exists>e \<in> set (events_of_buffers bufs). concerns_file (cw_watch_basename (snd c)) e)) \<and>
    \<not> cw_config_changed (snd c')"
proof (cases "cw_inotify_fd (snd c) < 0")
  case True
  obtain ok c1 where start: "run_state (start_watcher (transcript wo)) c = (ok, c1)" by (metis surj_pair)
  have same: "watch_config c1 = watch_config c" "snd (fst c1) = snd (fst c)"
    using keepsD [OF start_watcher_keeps start] keepsD [OF start_watcher_silent start] by simp_all
  show ?thesis
  proof (cases ok)
    case True': True
    with assms(1) True start have "check_drain (transcript wo) c1 = Some (reported, c')"
      by (simp add: check_and_clear_def)
    from check_drain_reports [OF this] same assms(2) show ?thesis by (simp add: watch_config_def)
  next
    case False
    with assms True start same show ?thesis
      by (intro exI [of _ "[]"]) (auto simp: check_and_clear_def events_of_buffers_def watch_config_def)
  qed
next
  case False
  with assms(1) have "check_drain (transcript wo) c = Some (reported, c')" by (simp add: check_and_clear_def)
  from check_drain_reports [OF this] assms(2) show ?thesis by simp
qed

subsection \<open>The books\<close>

definition watcher_books :: "'w booked \<times> ConfigFileWatcher \<Rightarrow> bool" where
  "watcher_books c \<longleftrightarrow> balanced (held_fd (cw_inotify_fd (snd c))) (fst c)"

lemma watcher_books_flag [simp]: "watcher_books (w, cw\<lparr>cw_config_changed := b\<rparr>) = watcher_books (w, cw)"
  by (simp add: watcher_books_def)

lemma wp_watcher_sys [wp_rules]: "wp m (\<lambda>a w. Q a (w, snd c)) (fst c) \<Longrightarrow> wp (watcher_sys m) Q c"
  unfolding watcher_sys_def by (rule wp_zoom)

lemma wp_set_watcher [wp_rules]: "Q () (fst c, f (snd c)) \<Longrightarrow> wp (set_watcher f) Q c"
  by (cases c) (simp add: set_watcher_def wp_def)

lemma wp_get [wp_rules]: "Q s s \<Longrightarrow> wp State_Monad.get Q s"
  by (simp add: wp_def)

lemma stop_watcher_books:
  assumes "watcher_books c"
  shows "wp (stop_watcher (ledger wo)) (\<lambda>_ c'. watcher_books c' \<and> cw_inotify_fd (snd c') < 0) c"
  using assms unfolding stop_watcher_def
  by (intro wp_rules) (auto simp: watcher_books_def balanced_def)

lemma open_watcher_books:
  assumes "watcher_books c" "cw_inotify_fd (snd c) < 0"
  shows "wp (do {
      fd \<leftarrow> watcher_sys (wa_init (ledger wo));
      set_watcher (\<lambda>cw. cw\<lparr>cw_inotify_fd := fd\<rparr>);
      if fd < 0 then State_Monad.return False
      else do {
        added \<leftarrow> add_watch (ledger wo);
        if \<not> added
        then do {
          watcher_sys (wa_close (ledger wo) fd);
          set_watcher (\<lambda>cw. cw\<lparr>cw_inotify_fd := -1\<rparr>);
          State_Monad.return False }
        else State_Monad.return True } }) (\<lambda>_. watcher_books) c"
  using assms unfolding add_watch_def
  by (intro wp_rules) (auto simp: watcher_books_def balanced_def)

lemma start_watcher_books:
  assumes "watcher_books c"
  shows "wp (start_watcher (ledger wo)) (\<lambda>_. watcher_books) c"
  unfolding start_watcher_def
  by (rule wp_bind, rule wp_conseq [OF stop_watcher_books [OF assms]], rule open_watcher_books) auto

lemma drain_books:
  assumes "drain_events wo' fd basename s x = Some r" "wo' = ledger wo"
  shows "snd (snd r) = snd x"
  using assms
proof (induction rule: drain_events.raw_induct [rotated, consumes 1])
  case (1 drain wo' fd basename s x r)
  obtain a x1 where read: "run_state (wa_read wo' fd 4096) x = (a, x1)" by (metis surj_pair)
  have "snd x1 = snd x" using keepsD [OF ledger_read_keeps read [unfolded 1(3)]] .
  with 1 read show ?case by (auto split: watch_read.splits if_splits)
qed

lemma check_drain_books:
  assumes "check_drain (ledger wo) c = Some (reported, c')" "watcher_books c"
  shows "watcher_books c'"
proof -
  obtain w cw where c: "c = (w, cw)" by (cases c)
  obtain rewatch changed w1 where run:
    "drain_events (ledger wo) (cw_inotify_fd cw) (cw_watch_basename cw) (False, cw_config_changed cw) w =
      Some ((rewatch, changed), w1)"
    using assms by (auto simp: check_drain_def c split: option.splits)
  have ok: "watcher_books (w1, cw)"
    using drain_books [OF run refl] assms(2) by (simp add: c watcher_books_def balanced_def)
  have "wp (do { stop_watcher (ledger wo); start_watcher (ledger wo) }) (\<lambda>_. watcher_books) (w1, cw)"
    by (rule wp_bind, rule wp_conseq [OF stop_watcher_books [OF ok]], rule start_watcher_books) simp
  from wp_snd [OF this] ok have "watcher_books (if rewatch
      then snd (run_state (do { stop_watcher (ledger wo); start_watcher (ledger wo) }) (w1, cw)) else (w1, cw))"
    by (cases rewatch) (simp_all only: if_True if_False simp_thms)
  then show ?thesis using assms(1) run by (auto simp: check_drain_def c split: prod.splits)
qed

lemma check_keeps_books:
  assumes "check_and_clear (ledger wo) c = Some (reported, c')" "watcher_books c"
  shows "watcher_books c'"
proof (cases "cw_inotify_fd (snd c) < 0")
  case True
  obtain ok c1 where start: "run_state (start_watcher (ledger wo)) c = (ok, c1)" by (metis surj_pair)
  have "watcher_books c1" using wp_run [OF start_watcher_books [OF assms(2)] start] .
  with assms(1) True start show ?thesis
    by (auto simp: check_and_clear_def split: if_splits dest: check_drain_books)
next
  case False
  with assms show ?thesis by (simp add: check_and_clear_def check_drain_books)
qed

end
