(* ===== verification/Main_Loop.thy ===== *)
theory Main_Loop
  imports Cache_Safety Event_Router Proc_Monitor Config_Watcher
begin

section \<open>The whole program (main.cpp)\<close>

text \<open>
  \<open>reuperf\<close> puts the parts together as \<open>main\<close> does: the daemon, the event router with its thread, the process
  monitor with its thread, and the watcher of the configuration file. The monitor's callbacks hand events to
  the router and request a full scan when events were dropped; the router's callback is \<open>handle_events\<close>.
  \<open>main_round\<close> is one round of the main loop, \<open>program_step\<close> interleaves it with the two threads, the workers and a
  signal, and \<open>program_exit\<close> is the way out, with the other threads still going on. The parts share the world behind
  the system calls and the request flag of the scan. Main results:
  every step of the program is a sequence of steps of the daemon (\<open>program_daemon\<close>), so that what holds of the
  daemon holds of the program; what the monitor reads is what the router is offered (\<open>monitor_offers\<close>); the exit
  code is the truth (\<open>program_exit_result\<close>), and leaving is always possible (\<open>main_exit_leaves\<close>).
\<close>

subsection \<open>The callbacks\<close>

type_synonym 'w monitor_client = "'w daemon EventRouter \<times> bool"

definition process_changed :: "int \<Rightarrow> ('w monitor_client, unit) state" where
  "process_changed pid = modify (\<lambda>(r, rescan).
     if 0 < pid then (on_process_created pid r, rescan)
     else if pid < 0 then (on_process_exited (- pid) r, rescan)
     else (r, rescan))"

definition note_events_dropped :: "('w monitor_client, unit) state" where
  "note_events_dropped = modify (\<lambda>(r, _). (r, True))"

definition batch_handler ::
  "'w os \<Rightarrow> (string \<Rightarrow> nat) \<Rightarrow> 'r regex_lib \<Rightarrow> (int \<Rightarrow> 64 word) \<Rightarrow> (nat \<Rightarrow> 64 word) \<Rightarrow> 'w daemon event_handler" where
  "batch_handler os hash rx hi hu new_pids dead_pids recycled_pids dropped = do {
     d \<leftarrow> State_Monad.get;
     on_cycle (handle_events os hash rx (make_matcher rx (md_config d)) (worker_pool hi hu (length (md_workers d)))
       (sched (md_config d)) new_pids dead_pids recycled_pids dropped);
     State_Monad.return True }"

definition handler_failed :: "('w daemon, bool) state" where
  "handler_failed = do { on_cycle request_full_scan; State_Monad.return True }"

subsection \<open>State\<close>

record 'w watches =
  wt_router :: "'w daemon EventRouter"
  wt_monitor :: "'w monitor_client ProcMonitor"
  wt_watcher :: ConfigFileWatcher
  wt_next_restart :: int

record 'w reuperf =
  pg_daemon :: "'w daemon"
  pg_watches :: "'w watches"

definition daemon_world :: "'w daemon \<Rightarrow> 'w" where
  "daemon_world d = world (sl_env (cy_slice (md_cycle d)))"

definition put_world :: "'w \<Rightarrow> 'w daemon \<Rightarrow> 'w daemon" where
  "put_world w d = d\<lparr>md_cycle := (md_cycle d)\<lparr>cy_slice := (cy_slice (md_cycle d))\<lparr>sl_env :=
     (sl_env (cy_slice (md_cycle d)))\<lparr>world := w\<rparr>\<rparr>\<rparr>\<rparr>"

definition put_rescan :: "bool \<Rightarrow> 'w daemon \<Rightarrow> 'w daemon" where
  "put_rescan b d = d\<lparr>md_cycle := (md_cycle d)\<lparr>cy_rescan_needed := b\<rparr>\<rparr>"

definition on_daemon :: "('w daemon, 'a) state \<Rightarrow> ('w reuperf, 'a) state" where
  "on_daemon m = zoom pg_daemon (\<lambda>d p. p\<lparr>pg_daemon := d\<rparr>) m"

definition main_sys :: "('w, 'a) state \<Rightarrow> ('w reuperf, 'a) state" where
  "main_sys m = on_daemon (zoom daemon_world put_world m)"

text \<open>The monitor sees the world, the router and the request flag.\<close>

definition monitor_view :: "'w reuperf \<Rightarrow> ('w, 'w monitor_client) monitor_ctx" where
  "monitor_view p = \<lparr>mx_world = daemon_world (pg_daemon p),
     mx_client = (wt_router (pg_watches p), cy_rescan_needed (md_cycle (pg_daemon p))),
     mx_monitor = wt_monitor (pg_watches p)\<rparr>"

definition monitor_put :: "('w, 'w monitor_client) monitor_ctx \<Rightarrow> 'w reuperf \<Rightarrow> 'w reuperf" where
  "monitor_put c p = p\<lparr>pg_daemon := put_rescan (snd (mx_client c)) (put_world (mx_world c) (pg_daemon p)),
     pg_watches := (pg_watches p)\<lparr>wt_router := fst (mx_client c), wt_monitor := mx_monitor c\<rparr>\<rparr>"

definition on_monitor :: "(('w, 'w monitor_client) monitor_ctx, 'a) state \<Rightarrow> ('w reuperf, 'a) state" where
  "on_monitor m = zoom monitor_view monitor_put m"

subsection \<open>The start\<close>

text \<open>Creating a thread may throw here, where nothing catches it: the value \<open>None\<close> is the end of the process.\<close>

definition start_monitoring ::
  "'w os \<Rightarrow> 'w watch_os \<Rightarrow> 'w daemon EventRouter \<Rightarrow> TimingConfig \<Rightarrow> string \<Rightarrow> ('w, 'w watches option) state" where
  "start_monitoring os wo router timing path = do {
     (st, router1, monitor) \<leftarrow> State (\<lambda>w. case run_state (start_monitor wo (Some process_changed) (Some note_events_dropped))
         \<lparr>mx_world = w, mx_client = (router, True), mx_monitor = new_monitor\<rparr> of
       (st, c) \<Rightarrow> ((st, fst (mx_client c), mx_monitor c), mx_world c));
     if st = MonitorThrew then State_Monad.return None
     else do {
       now \<leftarrow> os_now os;
       watcher \<leftarrow> State (\<lambda>w. case run_state (start_watcher wo) (w, new_watcher path) of (_, (w1, cw)) \<Rightarrow> (cw, w1));
       State_Monad.return (Some \<lparr>wt_router = router1, wt_monitor = monitor, wt_watcher = watcher,
         wt_next_restart = now + monitor_initial_restart_delay_s timing * 1000000000\<rparr>) } }"

definition start_watches ::
  "'w os \<Rightarrow> 'w main_os \<Rightarrow> 'w watch_os \<Rightarrow> 'w daemon event_handler \<Rightarrow> string \<Rightarrow> Config
     \<Rightarrow> ('w slice, 'w watches option) state" where
  "start_watches os mo wo handler path config = on_env (sys (do {
     spawned \<leftarrow> mo_spawn_thread mo;
     let timing = sc_timing (sched config);
     case start_router spawned (Some handler) (Some handler_failed) (new_router (event_throttle_ms timing)) of
       (ok, router) \<Rightarrow>
         if \<not> ok then State_Monad.return None
         else start_monitoring os wo router timing path }))"

text \<open>From the arguments to the main loop: the exit code, \<open>None\<close> when the process was terminated, or the program.\<close>

definition program_start ::
  "json_lib \<Rightarrow> 'w os \<Rightarrow> 'w main_os \<Rightarrow> 'w watch_os \<Rightarrow> 'w child_os \<Rightarrow> (string \<Rightarrow> nat) \<Rightarrow> 'r regex_lib \<Rightarrow>
   (int \<Rightarrow> 64 word) \<Rightarrow> (nat \<Rightarrow> 64 word) \<Rightarrow> string \<Rightarrow> 'w slice \<Rightarrow> (int option + 'w reuperf) option" where
  "program_start js os mo wo ch hash rx hi hu path sl =
     (case startup js os mo ch (start_watches os mo wo (batch_handler os hash rx hi hu) path) path sl of
        None \<Rightarrow> None
      | Some (Exits code) \<Rightarrow> Some (Inl (Some code))
      | Some (Runs None d) \<Rightarrow> Some (Inl None)
      | Some (Runs (Some ws) d) \<Rightarrow> Some (Inr \<lparr>pg_daemon = d, pg_watches = ws\<rparr>))"

subsection \<open>A round of the main loop\<close>

text \<open>The value is whether the start threw, which the handlers of the round catch.\<close>

definition watch_monitor :: "'w os \<Rightarrow> 'w watch_os \<Rightarrow> ('w reuperf, bool) state" where
  "watch_monitor os wo = do {
     now \<leftarrow> main_sys (os_now os);
     p \<leftarrow> State_Monad.get;
     if \<not> is_running (wt_monitor (pg_watches p)) \<and> wt_next_restart (pg_watches p) \<le> now
     then do {
       r \<leftarrow> on_monitor (start_monitor wo (Some process_changed) (Some note_events_dropped));
       if r = MonitorThrew then State_Monad.return True
       else do {
         on_daemon (on_cycle request_full_scan);
         modify (\<lambda>p. p\<lparr>pg_watches := (pg_watches p)\<lparr>wt_next_restart :=
           now + monitor_restart_retry_delay_s (sc_timing (sched (md_config (pg_daemon p)))) * 1000000000\<rparr>\<rparr>);
         State_Monad.return False } }
     else State_Monad.return False }"

text \<open>The rest of the round after the configuration was looked at: the scan and the pause.\<close>

definition scan_and_sleep ::
  "'w os \<Rightarrow> (string \<Rightarrow> nat) \<Rightarrow> 'r regex_lib \<Rightarrow> (int \<Rightarrow> 64 word) \<Rightarrow> (nat \<Rightarrow> 64 word) \<Rightarrow> 'w daemon \<Rightarrow> 'w daemon option" where
  "scan_and_sleep os hash rx hi hu d =
     (case scan_round os hash rx (make_matcher rx (md_config d)) (worker_pool hi hu (length (md_workers d)))
         (sched (md_config d)) (md_refresh_ms d) (md_cycle d) of
        None \<Rightarrow> None
      | Some c \<Rightarrow> Some (snd (run_state (zoom daemon_world put_world (os_sleep_us os (md_highspeed_ms d * 1000)))
          (d\<lparr>md_cycle := c\<rparr>))))"

text \<open>
  A reload sets the router's throttle; between reloads it is that of the configuration in force, so setting
  it again changes nothing.
\<close>

definition follow_config ::
  "json_lib \<Rightarrow> 'w os \<Rightarrow> 'w main_os \<Rightarrow> 'w watch_os \<Rightarrow> 'w child_os \<Rightarrow> string \<Rightarrow> 'w reuperf \<Rightarrow> 'w reuperf option" where
  "follow_config js os mo wo ch path p =
     (case check_and_clear wo (daemon_world (pg_daemon p), wt_watcher (pg_watches p)) of
        None \<Rightarrow> None
      | Some (changed, (w, cw)) \<Rightarrow>
          (case check_config js os mo ch path changed (put_world w (pg_daemon p)) of
             None \<Rightarrow> None
           | Some d \<Rightarrow> Some (p\<lparr>pg_daemon := d, pg_watches := (pg_watches p)\<lparr>wt_watcher := cw,
               wt_router := set_throttle_ms (md_throttle_ms d) (wt_router (pg_watches p))\<rparr>\<rparr>)))"

definition main_round ::
  "json_lib \<Rightarrow> 'w os \<Rightarrow> 'w main_os \<Rightarrow> 'w watch_os \<Rightarrow> 'w child_os \<Rightarrow> string \<Rightarrow> (string \<Rightarrow> nat) \<Rightarrow> 'r regex_lib \<Rightarrow>
   (int \<Rightarrow> 64 word) \<Rightarrow> (nat \<Rightarrow> 64 word) \<Rightarrow> 'w reuperf \<Rightarrow> 'w reuperf option" where
  "main_round js os mo wo ch path hash rx hi hu p =
     (case run_state (watch_monitor os wo) p of (threw, p1) \<Rightarrow>
        if threw then Some p1
        else case follow_config js os mo wo ch path p1 of
            None \<Rightarrow> None
          | Some p2 \<Rightarrow> map_option (\<lambda>d. p2\<lparr>pg_daemon := d\<rparr>) (scan_and_sleep os hash rx hi hu (pg_daemon p2)))"

subsection \<open>The end\<close>

text \<open>One step of the router's thread.\<close>

definition set_router :: "('w daemon EventRouter \<Rightarrow> 'w daemon EventRouter) \<Rightarrow> ('w reuperf, unit) state" where
  "set_router f = modify (\<lambda>p. p\<lparr>pg_watches := (pg_watches p)\<lparr>wt_router := f (wt_router (pg_watches p))\<rparr>\<rparr>)"

definition router_turn :: "('w reuperf, unit) state" where
  "router_turn = do {
     r \<leftarrow> gets (\<lambda>p. wt_router (pg_watches p));
     case er_pc r of
       LoopTop \<Rightarrow> set_router loop_test
     | Waiting \<Rightarrow> if wake_condition r then set_router router_wake else State_Monad.return ()
     | Aggregating \<Rightarrow> set_router take_batch
     | Taken b d h f \<Rightarrow> set_router classify_batch
     | Delivering n e c d h f \<Rightarrow> do {
         on_daemon (deliver_batch n e c d h f);
         set_router (\<lambda>r. r\<lparr>er_pc := LoopTop\<rparr>) }
     | Exited \<Rightarrow> State_Monad.return () }"

text \<open>\<open>stop\<close> of the router; after the request its thread ends within five steps (\<open>stopped_router_exits\<close>).\<close>

fun router_turns :: "nat \<Rightarrow> ('w reuperf, unit) state" where
  "router_turns 0 = State_Monad.return ()"
| "router_turns (Suc n) = do { router_turn; router_turns n }"

definition stop_event_router :: "('w reuperf, unit) state" where
  "stop_event_router = do {
     r \<leftarrow> gets (\<lambda>p. wt_router (pg_watches p));
     if \<not> er_running r then State_Monad.return ()
     else do {
       set_router stop_request;
       router_turns 5;
       set_router stop_finish } }"

definition main_exit :: "'w os \<Rightarrow> 'w watch_os \<Rightarrow> ('w reuperf, int) state" where
  "main_exit os wo = do {
     on_monitor (stop_monitor wo);
     stop_event_router;
     on_daemon (shut_down os) }"

subsection \<open>Everything that happens to the program\<close>

text \<open>What happens beside the main loop and the monitor: the router's thread, the workers, the world, a signal.\<close>

inductive side_step ::
  "'w os \<Rightarrow> (string \<Rightarrow> nat) \<Rightarrow> 'r regex_lib \<Rightarrow> (int \<Rightarrow> 64 word) \<Rightarrow> (nat \<Rightarrow> 64 word) \<Rightarrow>
   'w reuperf \<Rightarrow> 'w reuperf \<Rightarrow> bool"
  for os hash rx hi hu where
  side_router: "side_step os hash rx hi hu p (snd (run_state router_turn p))"
| side_worker: "i < length (md_workers (pg_daemon p)) \<Longrightarrow> sw_started (md_workers (pg_daemon p) ! i) \<Longrightarrow>
    side_step os hash rx hi hu p (snd (run_state (on_daemon (worker_turn os hash rx hi hu i)) p))"
| side_world: "side_step os hash rx hi hu p (p\<lparr>pg_daemon := put_world w (pg_daemon p)\<rparr>)"
| side_signal: "side_step os hash rx hi hu p
      (p\<lparr>pg_daemon := (pg_daemon p)\<lparr>md_shutdown_requested := True, md_running := False\<rparr>\<rparr>)"

inductive program_step ::
  "json_lib \<Rightarrow> 'w os \<Rightarrow> 'w main_os \<Rightarrow> 'w watch_os \<Rightarrow> 'w child_os \<Rightarrow> string \<Rightarrow> (string \<Rightarrow> nat) \<Rightarrow> 'r regex_lib \<Rightarrow>
   (int \<Rightarrow> 64 word) \<Rightarrow> (nat \<Rightarrow> 64 word) \<Rightarrow> 'w reuperf \<Rightarrow> 'w reuperf \<Rightarrow> bool"
  for js os mo wo ch path hash rx hi hu where
  program_round: "md_running (pg_daemon p) \<Longrightarrow> main_round js os mo wo ch path hash rx hi hu p = Some p' \<Longrightarrow>
    program_step js os mo wo ch path hash rx hi hu p p'"
| program_monitor: "pm_thread (wt_monitor (pg_watches p)) = Looping \<Longrightarrow>
    program_step js os mo wo ch path hash rx hi hu p (snd (run_state (on_monitor (monitor_round wo)) p))"
| program_side: "side_step os hash rx hi hu p p' \<Longrightarrow> program_step js os mo wo ch path hash rx hi hu p p'"

text \<open>
  Leaving: the monitor is stopped, the router asked to stop and joined, the workers stopped and everything put
  back, while the other threads go on in between. The join returns when the router's thread has ended.
  \<open>program_exit p joined code p'\<close> names the state \<open>joined\<close> in which only the workers are left to stop.
\<close>

inductive program_exit ::
  "'w os \<Rightarrow> 'w watch_os \<Rightarrow> (string \<Rightarrow> nat) \<Rightarrow> 'r regex_lib \<Rightarrow> (int \<Rightarrow> 64 word) \<Rightarrow> (nat \<Rightarrow> 64 word) \<Rightarrow>
   'w reuperf \<Rightarrow> 'w reuperf \<Rightarrow> int \<Rightarrow> 'w reuperf \<Rightarrow> bool"
  for os wo hash rx hi hu where
  program_left: "\<not> md_running (pg_daemon p) \<Longrightarrow> run_state (on_monitor (stop_monitor wo)) p = (u, p1) \<Longrightarrow>
    rtranclp (side_step os hash rx hi hu) p1 p2 \<Longrightarrow>
    rtranclp (side_step os hash rx hi hu) (snd (run_state (set_router stop_request) p2)) p3 \<Longrightarrow>
    er_pc (wt_router (pg_watches p3)) = Exited \<Longrightarrow>
    rtranclp (side_step os hash rx hi hu) (snd (run_state (set_router stop_finish) p3)) joined \<Longrightarrow>
    run_state (on_daemon (shut_down os)) joined = (code, p') \<Longrightarrow>
    program_exit os wo hash rx hi hu p joined code p'"

inductive program_reachable ::
  "json_lib \<Rightarrow> 'w os \<Rightarrow> 'w main_os \<Rightarrow> 'w watch_os \<Rightarrow> 'w child_os \<Rightarrow> string \<Rightarrow> (string \<Rightarrow> nat) \<Rightarrow> 'r regex_lib \<Rightarrow>
   (int \<Rightarrow> 64 word) \<Rightarrow> (nat \<Rightarrow> 64 word) \<Rightarrow> 'w reuperf \<Rightarrow> bool"
  for js os mo wo ch path hash rx hi hu where
  program_started: "program_start js os mo wo ch hash rx hi hu path sl = Some (Inr p) \<Longrightarrow>
    program_reachable js os mo wo ch path hash rx hi hu p"
| program_next: "program_reachable js os mo wo ch path hash rx hi hu p \<Longrightarrow>
    program_step js os mo wo ch path hash rx hi hu p p' \<Longrightarrow>
    program_reachable js os mo wo ch path hash rx hi hu p'"

subsection \<open>The callbacks are in place\<close>

text \<open>
  The monitor only ever holds the callbacks of \<open>main\<close>, and the router only its handler, also in the local
  variables of its thread; with \<open>run\<close>, the router runs.
\<close>

definition monitor_calls_ok :: "'w monitor_client ProcMonitor \<Rightarrow> bool" where
  "monitor_calls_ok m \<longleftrightarrow> pm_on_process_change m \<in> {None, Some process_changed} \<and>
     pm_on_events_dropped m \<in> {None, Some note_events_dropped}"

definition router_calls_ok :: "bool \<Rightarrow> 's event_handler \<Rightarrow> ('s, bool) state \<Rightarrow> 's EventRouter \<Rightarrow> bool" where
  "router_calls_ok run h0 f0 r \<longleftrightarrow> (run \<longrightarrow> er_running r) \<and>
     er_on_event r \<in> {None, Some h0} \<and> er_on_handler_failure r \<in> {None, Some f0} \<and>
     (case er_pc r of
        Taken b d h f \<Rightarrow> h \<in> {None, Some h0} \<and> f \<in> {None, Some f0}
      | Delivering n e c d h f \<Rightarrow> h \<in> {None, Some h0} \<and> f \<in> {None, Some f0}
      | _ \<Rightarrow> True)"

lemma router_calls_kept:
  assumes "router_calls_ok run h0 f0 r"
  shows "router_calls_ok run h0 f0 (add_event pid b r)" "router_calls_ok run h0 f0 (loop_test r)"
    "router_calls_ok run h0 f0 (router_wake r)" "router_calls_ok run h0 f0 (take_batch r)"
    "router_calls_ok run h0 f0 (classify_batch r)" "router_calls_ok run h0 f0 (r\<lparr>er_pc := LoopTop\<rparr>)"
    "router_calls_ok run h0 f0 (set_throttle_ms ms r)"
  using assms
  by (auto simp: router_calls_ok_def add_event_def loop_test_def router_wake_def take_batch_def classify_batch_def
      set_throttle_ms_def split: option.split router_pc.splits prod.split)

definition calls_ok ::
  "bool \<Rightarrow> 'w os \<Rightarrow> (string \<Rightarrow> nat) \<Rightarrow> 'r regex_lib \<Rightarrow> (int \<Rightarrow> 64 word) \<Rightarrow> (nat \<Rightarrow> 64 word) \<Rightarrow> 'w watches \<Rightarrow> bool" where
  "calls_ok run os hash rx hi hu ws \<longleftrightarrow> monitor_calls_ok (wt_monitor ws) \<and>
     router_calls_ok run (batch_handler os hash rx hi hu) handler_failed (wt_router ws)"

subsection \<open>What the monitor does to its client\<close>

text \<open>The request flag is only ever raised, and the callbacks stay.\<close>

definition client_ok ::
  "bool \<Rightarrow> 'w daemon event_handler \<Rightarrow> ('w daemon, bool) state \<Rightarrow> bool \<Rightarrow> ('w, 'w monitor_client) monitor_ctx \<Rightarrow> bool" where
  "client_ok run h0 f0 b c \<longleftrightarrow> monitor_calls_ok (mx_monitor c) \<and> (b \<longrightarrow> snd (mx_client c)) \<and>
     router_calls_ok run h0 f0 (fst (mx_client c))"

lemma client_sys [hoare_rules]: "inv_kept (client_ok run h0 f0 b) (monitor_sys m)"
  unfolding monitor_sys_def by (rule inv_kept_zoom) (simp add: client_ok_def)

lemma client_set_monitor:
  assumes "\<And>m. pm_on_process_change (f m) \<in> {None, Some process_changed, pm_on_process_change m}"
    "\<And>m. pm_on_events_dropped (f m) \<in> {None, Some note_events_dropped, pm_on_events_dropped m}"
  shows "inv_kept (client_ok run h0 f0 b) (set_monitor f)"
  unfolding set_monitor_def
proof (rule inv_kept_modify)
  fix c :: "('a, 'a monitor_client) monitor_ctx"
  assume "client_ok run h0 f0 b c"
  with assms [of "mx_monitor c"] show "client_ok run h0 f0 b (c\<lparr>mx_monitor := f (mx_monitor c)\<rparr>)"
    by (auto simp: client_ok_def monitor_calls_ok_def)
qed

definition offered_change :: "int \<Rightarrow> 's EventRouter \<Rightarrow> 's EventRouter" where
  "offered_change n r =
     (if 0 < n then on_process_created n r else if n < 0 then on_process_exited (- n) r else r)"

lemma run_process_changed [simp]:
  "run_state (process_changed n) s = ((), (offered_change n (fst s), snd s))"
  by (cases s) (simp add: process_changed_def offered_change_def)

lemma run_note_events_dropped [simp]: "run_state note_events_dropped s = ((), (fst s, True))"
  by (cases s) (simp add: note_events_dropped_def)

lemma offered_change_calls: "router_calls_ok run h0 f0 r \<Longrightarrow> router_calls_ok run h0 f0 (offered_change n r)"
  by (simp add: offered_change_def on_process_created_def on_process_exited_def router_calls_kept(1))

lemma client_event: "inv_kept (client_ok run h0 f0 b) (handle_event e)"
proof (rule inv_keptI)
  fix c a c' assume "client_ok run h0 f0 b c" "run_state (handle_event e) c = (a, c')"
  then show "client_ok run h0 f0 b c'"
    by (auto simp: handle_event_def client_ok_def monitor_calls_ok_def call_back_def offered_change_calls
        split: if_splits option.splits)
qed

lemma client_buffer: "inv_kept (client_ok run h0 f0 b) (handle_buffer buf)"
proof -
  have "inv_kept (client_ok run h0 f0 b) (handle_each es)" for es
    by (induction es) (auto intro!: hoare_rules client_event)
  then show ?thesis by (simp add: handle_buffer_def)
qed

lemma client_round: "inv_kept (client_ok run h0 f0 b) (monitor_round wo)"
proof -
  have read: "inv_kept (client_ok run h0 f0 b) (case r of
        WatchData buf \<Rightarrow> do { handle_buffer buf; State_Monad.return True }
      | WatchAgain \<Rightarrow> State_Monad.return True | WatchInterrupted \<Rightarrow> State_Monad.return True
      | WatchFailed \<Rightarrow> State_Monad.return False)" for r
    by (cases r) (auto intro!: hoare_rules client_buffer)
  have poll: "inv_kept (client_ok run h0 f0 b) (case ret of
       WatchPollInterrupted \<Rightarrow> State_Monad.return True
     | WatchPollFailed \<Rightarrow> State_Monad.return False
     | WatchReady stop_in events_in trouble \<Rightarrow>
         if stop_in then do { monitor_sys (wa_drain wo (pm_stop_fd m)); State_Monad.return False }
         else if \<not> events_in then State_Monad.return (\<not> trouble)
         else do { r \<leftarrow> monitor_sys (wa_read wo (pm_inotify_fd m) kBufferSize);
           case r of
             WatchData buf \<Rightarrow> do { handle_buffer buf; State_Monad.return True }
           | WatchAgain \<Rightarrow> State_Monad.return True | WatchInterrupted \<Rightarrow> State_Monad.return True
           | WatchFailed \<Rightarrow> State_Monad.return False })" for ret m
    by (cases ret) (auto intro!: hoare_rules read)
  show ?thesis
    unfolding monitor_round_def monitor_turn_def monitor_end_def
    by (intro hoare_rules client_set_monitor poll) simp_all
qed

lemma client_stop: "inv_kept (client_ok run h0 f0 b) (stop_signal wo)" "inv_kept (client_ok run h0 f0 b) (stop_release wo)"
  unfolding stop_signal_def stop_release_def close_inotify_def close_stop_def
  by (intro hoare_rules client_set_monitor; simp)+

lemma client_start:
  "inv_kept (client_ok run h0 f0 b) (start_monitor wo (Some process_changed) (Some note_events_dropped))"
  unfolding start_monitor_def open_monitor_def spawn_monitor_def
  by (intro hoare_rules client_set_monitor client_stop) simp_all

subsection \<open>The program is the daemon\<close>

text \<open>
  \<open>follows run d0 p\<close>: the daemon of the program is reached from \<open>d0\<close> by steps of the daemon, the callbacks are
  in place, and with \<open>run\<close> the router was not asked to stop.
\<close>

definition follows ::
  "bool \<Rightarrow> json_lib \<Rightarrow> 'w os \<Rightarrow> 'w main_os \<Rightarrow> 'w child_os \<Rightarrow> string \<Rightarrow> (string \<Rightarrow> nat) \<Rightarrow> 'r regex_lib \<Rightarrow>
   (int \<Rightarrow> 64 word) \<Rightarrow> (nat \<Rightarrow> 64 word) \<Rightarrow> 'w daemon \<Rightarrow> 'w reuperf \<Rightarrow> bool" where
  "follows run js os mo ch path hash rx hi hu d0 p \<longleftrightarrow>
     rtranclp (daemon_step js os mo ch path hash rx hi hu) d0 (pg_daemon p) \<and>
     calls_ok run os hash rx hi hu (pg_watches p)"

lemma world_step: "daemon_step js os mo ch path hash rx hi hu d (put_world w d)"
  unfolding put_world_def by (rule step_world)

lemma rescan_steps:
  assumes "cy_rescan_needed (md_cycle d) \<longrightarrow> b"
  shows "rtranclp (daemon_step js os mo ch path hash rx hi hu) d (put_rescan b d)"
proof (cases "b = cy_rescan_needed (md_cycle d)")
  case True
  then show ?thesis by (simp add: put_rescan_def)
next
  case False
  with assms have "b" by simp
  then have "daemon_step js os mo ch path hash rx hi hu d (put_rescan b d)"
    by (simp add: put_rescan_def step_request)
  then show ?thesis by (rule r_into_rtranclp)
qed

lemma follows_step:
  assumes "follows run js os mo ch path hash rx hi hu d0 p"
    and "daemon_step js os mo ch path hash rx hi hu (pg_daemon p) d"
  shows "follows run js os mo ch path hash rx hi hu d0 (p\<lparr>pg_daemon := d\<rparr>)"
  using assms by (auto simp: follows_def intro: rtranclp.rtrancl_into_rtrancl)

lemma follows_watches:
  "follows run js os mo ch path hash rx hi hu d0 p \<Longrightarrow> calls_ok run os hash rx hi hu ws \<Longrightarrow>
   follows run js os mo ch path hash rx hi hu d0 (p\<lparr>pg_watches := ws\<rparr>)"
  by (simp add: follows_def)

lemma follows_calls: "follows run js os mo ch path hash rx hi hu d0 p \<Longrightarrow> calls_ok run os hash rx hi hu (pg_watches p)"
  by (simp add: follows_def)

lemma follows_sys: "inv_kept (follows run js os mo ch path hash rx hi hu d0) (main_sys m)"
  unfolding main_sys_def on_daemon_def
  by (rule inv_keptI) (auto split: prod.splits intro: follows_step world_step)

lemma follows_request:
  "inv_kept (follows run js os mo ch path hash rx hi hu d0) (on_daemon (on_cycle request_full_scan))"
  unfolding on_daemon_def on_cycle_def request_full_scan_def
  by (rule inv_keptI) (auto intro: follows_step step_request)

lemma follows_monitor:
  assumes "\<And>b. inv_kept (client_ok run (batch_handler os hash rx hi hu) handler_failed b) m"
  shows "inv_kept (follows run js os mo ch path hash rx hi hu d0) (on_monitor m)"
proof (rule inv_keptI)
  fix p a p'
  assume ok: "follows run js os mo ch path hash rx hi hu d0 p" and run: "run_state (on_monitor m) p = (a, p')"
  let ?b = "cy_rescan_needed (md_cycle (pg_daemon p))"
  let ?step = "daemon_step js os mo ch path hash rx hi hu"
  obtain c where m: "run_state m (monitor_view p) = (a, c)" and p': "p' = monitor_put c p"
    using run by (auto simp: on_monitor_def split: prod.splits)
  have "client_ok run (batch_handler os hash rx hi hu) handler_failed ?b (monitor_view p)"
    using ok by (simp add: follows_def calls_ok_def client_ok_def monitor_view_def)
  from inv_keptD [OF assms this m]
  have c: "client_ok run (batch_handler os hash rx hi hu) handler_failed ?b c" .
  have "?step (pg_daemon p) (put_world (mx_world c) (pg_daemon p))" by (rule world_step)
  moreover have "rtranclp ?step (put_world (mx_world c) (pg_daemon p))
      (put_rescan (snd (mx_client c)) (put_world (mx_world c) (pg_daemon p)))"
    by (rule rescan_steps) (use c in \<open>simp add: put_world_def client_ok_def\<close>)
  ultimately have "rtranclp ?step (pg_daemon p) (pg_daemon p')"
    by (simp add: p' monitor_put_def converse_rtranclp_into_rtranclp)
  moreover have "calls_ok run os hash rx hi hu (pg_watches p')"
    using c ok by (simp add: p' monitor_put_def client_ok_def calls_ok_def)
  ultimately show "follows run js os mo ch path hash rx hi hu d0 p'"
    using ok by (auto simp: follows_def intro: rtranclp_trans)
qed

lemma follows_watch_monitor:
  "inv_kept (follows run js os mo ch path hash rx hi hu d0) (watch_monitor os wo)"
  unfolding watch_monitor_def
  by (intro hoare_rules follows_sys follows_request follows_monitor client_start)
    (simp add: follows_def calls_ok_def)

lemma follows_config:
  assumes "follow_config js os mo wo ch path p = Some p'" "follows run js os mo ch path hash rx hi hu d0 p"
  shows "follows run js os mo ch path hash rx hi hu d0 p'"
proof -
  obtain changed w cw d where check: "check_config js os mo ch path changed (put_world w (pg_daemon p)) = Some d"
    and p': "p' = p\<lparr>pg_daemon := d, pg_watches := (pg_watches p)\<lparr>wt_watcher := cw,
      wt_router := set_throttle_ms (md_throttle_ms d) (wt_router (pg_watches p))\<rparr>\<rparr>"
    using assms(1) by (auto simp: follow_config_def split: option.splits)
  have "follows run js os mo ch path hash rx hi hu d0 (p\<lparr>pg_daemon := put_world w (pg_daemon p)\<rparr>)"
    using assms(2) world_step by (rule follows_step)
  from follows_step [OF this, of d] check
  have "follows run js os mo ch path hash rx hi hu d0 (p\<lparr>pg_daemon := d\<rparr>)"
    by (simp add: step_config)
  then show ?thesis
    unfolding p' by (rule follows_watches [where p = "p\<lparr>pg_daemon := d\<rparr>", simplified])
      (use follows_calls [OF assms(2)] in \<open>simp add: calls_ok_def router_calls_kept(7)\<close>)
qed

lemma follows_scan:
  assumes "scan_and_sleep os hash rx hi hu (pg_daemon p) = Some d" "follows run js os mo ch path hash rx hi hu d0 p"
  shows "follows run js os mo ch path hash rx hi hu d0 (p\<lparr>pg_daemon := d\<rparr>)"
proof -
  obtain c w where c: "scan_round os hash rx (make_matcher rx (md_config (pg_daemon p)))
      (worker_pool hi hu (length (md_workers (pg_daemon p)))) (sched (md_config (pg_daemon p)))
      (md_refresh_ms (pg_daemon p)) (md_cycle (pg_daemon p)) = Some c"
    and d: "d = put_world w ((pg_daemon p)\<lparr>md_cycle := c\<rparr>)"
    using assms(1) by (auto simp: scan_and_sleep_def split: option.splits prod.splits)
  from follows_step [OF assms(2) step_round [OF c]]
  have "follows run js os mo ch path hash rx hi hu d0 (p\<lparr>pg_daemon := (pg_daemon p)\<lparr>md_cycle := c\<rparr>\<rparr>)" .
  from follows_step [OF this world_step] show ?thesis by (simp add: d)
qed

lemma follows_round:
  assumes "main_round js os mo wo ch path hash rx hi hu p = Some p'" "follows run js os mo ch path hash rx hi hu d0 p"
  shows "follows run js os mo ch path hash rx hi hu d0 p'"
proof -
  obtain threw p1 where p1: "run_state (watch_monitor os wo) p = (threw, p1)" by (metis surj_pair)
  have f1: "follows run js os mo ch path hash rx hi hu d0 p1"
    using inv_keptD [OF follows_watch_monitor assms(2) p1] .
  show ?thesis
  proof (cases threw)
    case True
    with assms(1) p1 f1 show ?thesis by (simp add: main_round_def)
  next
    case False
    with assms(1) p1 obtain p2 d where p2: "follow_config js os mo wo ch path p1 = Some p2"
      and d: "scan_and_sleep os hash rx hi hu (pg_daemon p2) = Some d" "p' = p2\<lparr>pg_daemon := d\<rparr>"
      by (auto simp: main_round_def split: option.splits)
    from follows_scan [OF d(1) follows_config [OF p2 f1]] d(2) show ?thesis by simp
  qed
qed

lemma follows_set_router:
  assumes "\<And>r. router_calls_ok run (batch_handler os hash rx hi hu) handler_failed r \<Longrightarrow>
    router_calls_ok run (batch_handler os hash rx hi hu) handler_failed (f r)"
  shows "inv_kept (follows run js os mo ch path hash rx hi hu d0) (set_router f)"
  unfolding set_router_def by (rule inv_kept_modify) (auto simp: follows_def calls_ok_def intro: assms)

lemma follows_deliver:
  assumes "h \<in> {None, Some (batch_handler os hash rx hi hu)}" "f \<in> {None, Some handler_failed}"
  shows "inv_kept (follows run js os mo ch path hash rx hi hu d0) (on_daemon (deliver_batch n e c x h f))"
proof (rule inv_keptI)
  fix p a p'
  assume ok: "follows run js os mo ch path hash rx hi hu d0 p"
    and run: "run_state (on_daemon (deliver_batch n e c x h f)) p = (a, p')"
  show "follows run js os mo ch path hash rx hi hu d0 p'"
  proof (cases "h = Some (batch_handler os hash rx hi hu) \<and> (n \<noteq> {} \<or> e \<noteq> {} \<or> c \<noteq> {} \<or> x)")
    case True
    let ?d = "pg_daemon p"
    obtain u cy where events: "run_state (handle_events os hash rx (make_matcher rx (md_config ?d))
        (worker_pool hi hu (length (md_workers ?d))) (sched (md_config ?d)) n e c x) (md_cycle ?d) = (u, cy)"
      by (metis surj_pair)
    from True run events have "p' = p\<lparr>pg_daemon := ?d\<lparr>md_cycle := cy\<rparr>\<rparr>"
      by (auto simp: on_daemon_def deliver_batch_def batch_handler_def on_cycle_def)
    with follows_step [OF ok step_events [OF events]] show ?thesis by simp
  next
    case False
    with run assms(1) ok show ?thesis by (auto simp: on_daemon_def deliver_batch_def)
  qed
qed

lemma follows_router: "inv_kept (follows run js os mo ch path hash rx hi hu d0) router_turn"
proof (rule inv_keptI)
  fix p a p'
  assume ok: "follows run js os mo ch path hash rx hi hu d0 p" and run: "run_state router_turn p = (a, p')"
  let ?r = "wt_router (pg_watches p)"
  have set: "follows run js os mo ch path hash rx hi hu d0 p'"
    if "run_state (set_router f) p = (a, p')" "\<And>r. router_calls_ok run (batch_handler os hash rx hi hu) handler_failed r \<Longrightarrow>
      router_calls_ok run (batch_handler os hash rx hi hu) handler_failed (f r)" for f
    using inv_keptD [OF follows_set_router [OF that(2)] ok that(1)] by simp
  show "follows run js os mo ch path hash rx hi hu d0 p'"
  proof (cases "er_pc ?r")
    case (Delivering n e c x h f)
    then have calls: "h \<in> {None, Some (batch_handler os hash rx hi hu)}" "f \<in> {None, Some handler_failed}"
      using ok by (auto simp: follows_def calls_ok_def router_calls_ok_def)
    have "inv_kept (follows run js os mo ch path hash rx hi hu d0) (do {
         on_daemon (deliver_batch n e c x h f); set_router (\<lambda>r. r\<lparr>er_pc := LoopTop\<rparr>) })"
      by (intro hoare_rules follows_deliver calls follows_set_router router_calls_kept(6))
    from inv_keptD [OF this ok] run Delivering show ?thesis by (simp add: router_turn_def)
  next
    case LoopTop
    with run set [OF _ router_calls_kept(2)] show ?thesis by (simp add: router_turn_def)
  next
    case Waiting
    with run ok set [OF _ router_calls_kept(3)] show ?thesis by (auto simp: router_turn_def split: if_splits)
  next
    case Aggregating
    with run set [OF _ router_calls_kept(4)] show ?thesis by (simp add: router_turn_def)
  next
    case Taken
    with run set [OF _ router_calls_kept(5)] show ?thesis by (simp add: router_turn_def)
  next
    case Exited
    with run ok show ?thesis by (simp add: router_turn_def)
  qed
qed

lemma follows_worker:
  assumes "i < length (md_workers (pg_daemon p))" "sw_started (md_workers (pg_daemon p) ! i)"
    and "follows run js os mo ch path hash rx hi hu d0 p"
  shows "follows run js os mo ch path hash rx hi hu d0
    (snd (run_state (on_daemon (worker_turn os hash rx hi hu i)) p))"
proof -
  have "snd (run_state (on_daemon (worker_turn os hash rx hi hu i)) p) =
      p\<lparr>pg_daemon := snd (run_state (worker_turn os hash rx hi hu i) (pg_daemon p))\<rparr>"
    by (simp add: on_daemon_def split: prod.split)
  with follows_step [OF assms(3) step_worker [OF assms(1,2)]] show ?thesis by simp
qed

lemma side_step_follows:
  assumes "side_step os hash rx hi hu p p'" "follows run js os mo ch path hash rx hi hu d0 p"
  shows "follows run js os mo ch path hash rx hi hu d0 p'"
  using assms(1)
proof (cases rule: side_step.cases)
  case side_router
  then show ?thesis using inv_kept_snd [OF follows_router assms(2)] by simp
next
  case (side_worker i)
  then show ?thesis using follows_worker assms(2) by simp
next
  case side_world
  then show ?thesis using follows_step [OF assms(2) world_step] by simp
next
  case side_signal
  then show ?thesis using follows_step [OF assms(2) step_signal] by simp
qed

lemma side_steps_follow:
  "rtranclp (side_step os hash rx hi hu) p p' \<Longrightarrow> follows run js os mo ch path hash rx hi hu d0 p \<Longrightarrow>
   follows run js os mo ch path hash rx hi hu d0 p'"
  by (induction rule: rtranclp_induct) (auto intro: side_step_follows)

lemma program_step_follows:
  assumes "program_step js os mo wo ch path hash rx hi hu p p'"
    "follows run js os mo ch path hash rx hi hu d0 p"
  shows "follows run js os mo ch path hash rx hi hu d0 p'"
  using assms(1)
proof (cases rule: program_step.cases)
  case program_round
  then show ?thesis using follows_round assms(2) by blast
next
  case program_monitor
  then show ?thesis using inv_kept_snd [OF follows_monitor [OF client_round] assms(2)] by simp
next
  case program_side
  then show ?thesis using side_step_follows assms(2) by blast
qed

lemma start_watches_calls:
  assumes "run_state (start_watches os mo wo (batch_handler os hash rx hi hu) path config) sl = (Some ws, sl')"
  shows "calls_ok run os hash rx hi hu ws"
proof -
  let ?timing = "sc_timing (sched config)"
  obtain spawned w ok router where router: "start_router spawned (Some (batch_handler os hash rx hi hu))
      (Some handler_failed) (new_router (event_throttle_ms ?timing)) = (ok, router)" and ok
    and run: "run_state (start_monitoring os wo router ?timing path) w = (Some ws, world (sl_env sl'))"
    using assms by (auto simp: start_watches_def on_env_def sys_def Let_def split: prod.splits if_splits)
  have r: "router_calls_ok run (batch_handler os hash rx hi hu) handler_failed router"
    using router \<open>ok\<close> by (auto simp: start_router_def new_router_def router_calls_ok_def Let_def split: if_splits)
  let ?c = "\<lparr>mx_world = w, mx_client = (router, True), mx_monitor = new_monitor\<rparr>"
  obtain st c where start: "run_state (start_monitor wo (Some process_changed) (Some note_events_dropped)) ?c = (st, c)"
    by (metis surj_pair)
  have "client_ok run (batch_handler os hash rx hi hu) handler_failed True ?c"
    using r by (simp add: client_ok_def monitor_calls_ok_def new_monitor_def)
  from inv_keptD [OF client_start this start] run start show ?thesis
    by (auto simp: start_monitoring_def client_ok_def calls_ok_def split: prod.splits if_splits)
qed

lemma startup_watches:
  assumes "startup js os mo ch watches path sl = Some (Runs x d)"
  shows "\<exists>config s s'. run_state (watches config) s = (x, s')"
proof -
  have "fst (run_state (start_scheduler os mo watches path config) s) = Runs x d \<Longrightarrow>
      \<exists>config s s'. run_state (watches config) s = (x, s')" for config s
    by (auto simp: start_scheduler_def split: prod.splits if_splits)
  with assms show ?thesis by (auto simp: startup_def split: prod.splits option.splits if_splits)
qed

text \<open>Every reachable state of the program is, in its daemon, a reachable state of the daemon.\<close>

lemma program_daemon:
  assumes "program_reachable js os mo wo ch path hash rx hi hu p"
  shows "daemon_reachable js os mo ch path hash rx hi hu (pg_daemon p) \<and>
    calls_ok True os hash rx hi hu (pg_watches p)"
proof -
  let ?step = "daemon_step js os mo ch path hash rx hi hu"
  have steps: "daemon_reachable js os mo ch path hash rx hi hu d'"
    if "rtranclp ?step d d'" "daemon_reachable js os mo ch path hash rx hi hu d" for d d'
    using that by (induction rule: rtranclp_induct) (auto intro: daemon_next)
  have "\<exists>d. daemon_reachable js os mo ch path hash rx hi hu d \<and>
      follows True js os mo ch path hash rx hi hu d p"
    using assms
  proof (induction rule: program_reachable.induct)
    case (program_started sl p)
    then obtain ws d where run: "startup js os mo ch (start_watches os mo wo (batch_handler os hash rx hi hu) path) path sl =
        Some (Runs (Some ws) d)" and p: "p = \<lparr>pg_daemon = d, pg_watches = ws\<rparr>"
      by (auto simp: program_start_def split: option.splits startup_result.splits)
    have "calls_ok True os hash rx hi hu ws" using startup_watches [OF run] start_watches_calls by blast
    with started_any [OF run] show ?case by (auto simp: p follows_def intro!: exI [of _ d])
  next
    case (program_next p p')
    then show ?case using program_step_follows by blast
  qed
  with steps show ?thesis by (auto simp: follows_def)
qed

subsection \<open>What the monitor reads is what the router is offered\<close>

text \<open>An event of the kernel as an event of the router: the process, and whether it was created.\<close>

definition process_event :: "inotify_event \<Rightarrow> (int \<times> bool) option" where
  "process_event e = map_option (\<lambda>n. (\<bar>n\<bar>, 0 < n)) (process_change e)"

lemma told_one:
  "told process_changed note_events_dropped e (r, b) =
     (offer_events (List.map_filter process_event [e]) r, b \<or> has_bits e IN_Q_OVERFLOW)"
proof (cases "process_change e")
  case None
  then show ?thesis by (simp add: told_def process_event_def offer_events_def map_filter_simps)
next
  case (Some n)
  then have "\<not> has_bits e IN_Q_OVERFLOW" by (auto simp: process_change_def)
  moreover have "offered_change n r = add_event \<bar>n\<bar> (0 < n) r"
    using process_change_sign [OF Some]
    by (auto simp: offered_change_def on_process_created_def on_process_exited_def is_valid_pid_def split: if_splits)
  ultimately show ?thesis
    using Some by (simp add: told_def process_event_def offer_events_def map_filter_simps)
qed

lemma told_offers:
  "fold (told process_changed note_events_dropped) evs c =
     (offer_events (List.map_filter process_event evs) (fst c), snd c \<or> (\<exists>e \<in> set evs. has_bits e IN_Q_OVERFLOW))"
proof (induction evs arbitrary: c)
  case (Cons e evs)
  have one: "told process_changed note_events_dropped e c =
      (offer_events (List.map_filter process_event [e]) (fst c), snd c \<or> has_bits e IN_Q_OVERFLOW)"
    using told_one by (cases c) simp
  show ?case
    by (simp only: fold_simps comp_apply one Cons.IH)
      (auto simp: offer_events_def map_filter_simps split: option.split)
qed (simp add: offer_events_def map_filter_simps)

lemma monitor_offers:
  assumes "\<forall>e \<in> set evs. event_fits e"
    and "pm_on_process_change (mx_monitor c) = Some process_changed"
    and "pm_on_events_dropped (mx_monitor c) = Some note_events_dropped"
  shows "run_state (handle_buffer (concat (map encode_event evs))) c = ((), c\<lparr>mx_client :=
    (offer_events (List.map_filter process_event evs) (fst (mx_client c)),
     snd (mx_client c) \<or> (\<exists>e \<in> set evs. has_bits e IN_Q_OVERFLOW))\<rparr>)"
  by (simp add: handle_buffer_tells [OF assms(2,3)] records_encode [OF assms(1)] told_offers)

subsection \<open>The end of the program\<close>

lemma router_turns_frame: "keeps (\<lambda>p. er_running (wt_router (pg_watches p))) (router_turns n)"
proof -
  have "keeps (\<lambda>p. er_running (wt_router (pg_watches p))) router_turn"
    by (rule keepsI)
      (auto simp: router_turn_def set_router_def on_daemon_def loop_test_def router_wake_def take_batch_def
        classify_batch_def split: router_pc.splits if_splits prod.splits)
  then show ?thesis by (induction n) (auto intro!: keeps_rules)
qed

text \<open>How far the router's thread is from its end once it was asked to stop.\<close>

fun turns_left :: "'s router_pc \<Rightarrow> nat" where
  "turns_left Exited = 0"
| "turns_left LoopTop = 1"
| "turns_left (Delivering n e c x h f) = 2"
| "turns_left (Taken b x h f) = 3"
| "turns_left Aggregating = 4"
| "turns_left Waiting = 5"

abbreviation router_pc_of :: "'w reuperf \<Rightarrow> 'w daemon router_pc" where
  "router_pc_of p \<equiv> er_pc (wt_router (pg_watches p))"

lemma router_turn_nearer:
  assumes "\<not> er_running (wt_router (pg_watches p))"
  shows "turns_left (router_pc_of (snd (run_state router_turn p))) \<le> turns_left (router_pc_of p) - 1"
  using assms
  by (cases "router_pc_of p")
    (auto simp: router_turn_def set_router_def on_daemon_def loop_test_def router_wake_def take_batch_def
      classify_batch_def wake_condition_def split: prod.splits)

lemma stopped_router_exits:
  assumes "\<not> er_running (wt_router (pg_watches p))" "turns_left (router_pc_of p) \<le> n"
  shows "router_pc_of (snd (run_state (router_turns n) p)) = Exited"
  using assms
proof (induction n arbitrary: p)
  case 0
  then show ?case by (cases "router_pc_of p") auto
next
  case (Suc n)
  obtain u p1 where turn: "run_state router_turn p = (u, p1)" by (metis surj_pair)
  have "\<not> er_running (wt_router (pg_watches p1))"
    using keepsD [OF router_turns_frame [of 1], of p u p1] turn Suc.prems(1) by simp
  moreover have "turns_left (router_pc_of p1) \<le> n"
    using router_turn_nearer [OF Suc.prems(1)] turn Suc.prems(2) by simp
  ultimately show ?case using Suc.IH turn by simp
qed

lemma turns_left_bound: "turns_left pc \<le> 5"
  by (cases pc) auto

lemma router_stops:
  assumes "er_running (wt_router (pg_watches p))"
  shows "router_pc_of (snd (run_state stop_event_router p)) = Exited"
proof -
  obtain u p1 v p2 where p1: "run_state (set_router stop_request) p = (u, p1)"
    and p2: "run_state (router_turns 5) p1 = (v, p2)" by (metis surj_pair)
  have "\<not> er_running (wt_router (pg_watches p1))" using p1 by (auto simp: set_router_def stop_request_def)
  from stopped_router_exits [OF this turns_left_bound] p2 have "router_pc_of p2 = Exited" by (metis snd_conv)
  with p1 p2 assms show ?thesis by (simp add: stop_event_router_def) (simp add: set_router_def stop_finish_def)
qed

lemma follows_asked:
  "follows run js os mo ch path hash rx hi hu d0 p \<Longrightarrow>
   follows False js os mo ch path hash rx hi hu d0 (snd (run_state (set_router stop_request) p))"
  "follows False js os mo ch path hash rx hi hu d0 p \<Longrightarrow>
   follows False js os mo ch path hash rx hi hu d0 (snd (run_state (set_router stop_finish) p))"
  by (auto simp: set_router_def follows_def calls_ok_def router_calls_ok_def stop_request_def stop_finish_def
      split: router_pc.splits)

lemma client_stop_monitor: "inv_kept (client_ok run h0 f0 b) (stop_monitor wo)"
  unfolding stop_monitor_def by (intro hoare_rules client_stop client_round)

lemma side_exited:
  assumes "rtranclp (side_step os hash rx hi hu) p p'" "router_pc_of p = Exited"
  shows "router_pc_of p' = Exited"
  using assms
  by (induction rule: rtranclp_induct)
    (auto elim!: side_step.cases simp: router_turn_def on_daemon_def split: prod.splits)

text \<open>The monitor's thread was joined first, and nothing starts it again.\<close>

lemma close_keeps_thread [keeps_rules]:
  "keeps (\<lambda>c. pm_thread (mx_monitor c)) (close_inotify wo)"
  "keeps (\<lambda>c. pm_thread (mx_monitor c)) (close_stop wo)"
  by (auto simp: keeps_def close_inotify_def close_stop_def set_monitor_def monitor_sys_def split: prod.splits)

lemma closes_keep_thread: "keeps (\<lambda>c. pm_thread (mx_monitor c)) (do { close_inotify wo; close_stop wo })"
  by (intro keeps_rules)

lemma stop_release_joins: "pm_thread (mx_monitor (snd (run_state (stop_release wo) c))) = NoThread"
  using closes_keep_thread [of wo, unfolded keeps_def, rule_format,
      of "c\<lparr>mx_monitor := (mx_monitor c)\<lparr>pm_thread := NoThread\<rparr>\<rparr>"]
  by (simp add: stop_release_def set_monitor_def)

lemma stop_monitor_joins: "pm_thread (mx_monitor (snd (run_state (stop_monitor wo) c))) = NoThread"
  by (simp add: stop_monitor_def stop_release_joins split: prod.split)

lemma side_monitor:
  assumes "rtranclp (side_step os hash rx hi hu) p p'"
  shows "wt_monitor (pg_watches p') = wt_monitor (pg_watches p)"
  using assms
proof (induction rule: rtranclp_induct)
  case (step p1 p2)
  have "wt_monitor (pg_watches (snd (run_state router_turn p1))) = wt_monitor (pg_watches p1)"
    by (cases "router_pc_of p1") (auto simp: router_turn_def set_router_def on_daemon_def split: prod.splits)
  with step show ?case by (auto elim!: side_step.cases simp: on_daemon_def split: prod.splits)
qed simp

lemma program_exit_result:
  assumes "program_reachable js os mo wo ch path hash rx hi hu p"
    and "program_exit os wo hash rx hi hu p joined code p'"
  shows "code = (if baselines_left (after_attempts os (pg_daemon joined)) = [] then 0 else 2)"
    and "cy_cache (md_cycle (pg_daemon p')) = (if code = 0 then []
      else cy_cache (md_cycle (after_attempts os (pg_daemon joined))))"
    and "\<forall>w \<in> set (md_workers (pg_daemon p')). \<not> sw_started w \<and> \<not> wq_running (sw_queue w)"
    and "er_pc (wt_router (pg_watches p')) = Exited" "pm_thread (wt_monitor (pg_watches p')) = NoThread"
proof -
  obtain u p1 p2 p3 where left: "run_state (on_monitor (stop_monitor wo)) p = (u, p1)"
      "rtranclp (side_step os hash rx hi hu) p1 p2"
      "rtranclp (side_step os hash rx hi hu) (snd (run_state (set_router stop_request) p2)) p3"
      "er_pc (wt_router (pg_watches p3)) = Exited"
      "rtranclp (side_step os hash rx hi hu) (snd (run_state (set_router stop_finish) p3)) joined"
      "run_state (on_daemon (shut_down os)) joined = (code, p')"
    using assms(2) by (auto elim: program_exit.cases)
  let ?follows = "\<lambda>run. follows run js os mo ch path hash rx hi hu (pg_daemon p)"
  have start: "daemon_reachable js os mo ch path hash rx hi hu (pg_daemon p)" "?follows True p"
    using program_daemon [OF assms(1)] by (simp_all add: follows_def)
  have "?follows True p1"
    using inv_keptD [OF follows_monitor [OF client_stop_monitor] start(2) left(1)] .
  from follows_asked(1) [OF side_steps_follow [OF left(2) this]]
  have "?follows False p3" by (rule side_steps_follow [OF left(3)])
  from side_steps_follow [OF left(5) follows_asked(2) [OF this]]
  have "rtranclp (daemon_step js os mo ch path hash rx hi hu) (pg_daemon p) (pg_daemon joined)"
    by (simp add: follows_def)
  then have reach: "daemon_reachable js os mo ch path hash rx hi hu (pg_daemon joined)"
    using start(1) by (induction rule: rtranclp_induct) (auto intro: daemon_next)
  obtain d where d: "run_state (shut_down os) (pg_daemon joined) = (code, d)" "p' = joined\<lparr>pg_daemon := d\<rparr>"
    using left(6) by (auto simp: on_daemon_def split: prod.splits)
  note shut = shutdown_of_reachable [OF reach d(1)]
  show "code = (if baselines_left (after_attempts os (pg_daemon joined)) = [] then 0 else 2)"
    "cy_cache (md_cycle (pg_daemon p')) = (if code = 0 then []
      else cy_cache (md_cycle (after_attempts os (pg_daemon joined))))"
    "\<forall>w \<in> set (md_workers (pg_daemon p')). \<not> sw_started w \<and> \<not> wq_running (sw_queue w)"
    using shut by (auto simp: d(2))
  have "router_pc_of joined = Exited"
    by (rule side_exited [OF left(5)]) (use left(4) in \<open>simp add: set_router_def stop_finish_def\<close>)
  then show "er_pc (wt_router (pg_watches p')) = Exited" by (simp add: d(2))
  have "pm_thread (wt_monitor (pg_watches p1)) = NoThread"
    using left(1) stop_monitor_joins [of wo "monitor_view p"]
    by (auto simp: on_monitor_def monitor_put_def split: prod.splits)
  with side_monitor [OF left(2)] side_monitor [OF left(3)] side_monitor [OF left(5)]
  show "pm_thread (wt_monitor (pg_watches p')) = NoThread" by (simp add: d(2) set_router_def)
qed

text \<open>\<open>main_exit\<close> is a way to leave, the one in which only the router's thread goes on; so leaving is always possible.\<close>

lemma router_turns_side:
  "rtranclp (side_step os hash rx hi hu) p (snd (run_state (router_turns n) p))"
proof (induction n arbitrary: p)
  case (Suc n)
  have "side_step os hash rx hi hu p (snd (run_state router_turn p))" by (rule side_router)
  with Suc [of "snd (run_state router_turn p)"] show ?case
    by (simp add: converse_rtranclp_into_rtranclp split: prod.split)
      (metis converse_rtranclp_into_rtranclp prod.sel(2))
qed simp

lemma main_exit_leaves:
  assumes "program_reachable js os mo wo ch path hash rx hi hu p" "\<not> md_running (pg_daemon p)"
    and "run_state (main_exit os wo) p = (code, p')"
  shows "\<exists>joined. program_exit os wo hash rx hi hu p joined code p'"
proof -
  obtain u p1 v p2 where p1: "run_state (on_monitor (stop_monitor wo)) p = (u, p1)"
    and p2: "run_state stop_event_router p1 = (v, p2)"
    and d: "run_state (on_daemon (shut_down os)) p2 = (code, p')"
    using assms(3) by (auto simp: main_exit_def split: prod.splits)
  have "follows True js os mo ch path hash rx hi hu (pg_daemon p) p1"
    by (rule inv_keptD [OF follows_monitor [OF client_stop_monitor] _ p1])
      (use program_daemon [OF assms(1)] in \<open>simp add: follows_def\<close>)
  then have on: "er_running (wt_router (pg_watches p1))"
    by (simp add: follows_def calls_ok_def router_calls_ok_def)
  let ?asked = "snd (run_state (set_router stop_request) p1)"
  let ?ended = "snd (run_state (router_turns 5) ?asked)"
  have "\<not> er_running (wt_router (pg_watches ?asked))" by (simp add: set_router_def stop_request_def)
  from stopped_router_exits [OF this turns_left_bound] have "router_pc_of ?ended = Exited" .
  moreover have "p2 = snd (run_state (set_router stop_finish) ?ended)"
    using p2 on by (simp add: stop_event_router_def split: prod.splits)
  ultimately show ?thesis
    using d by (intro exI [of _ p2] program_left [OF assms(2) p1 rtranclp.rtrancl_refl router_turns_side]) auto
qed

end
