(* ===== verification/Logger.thy ===== *)
theory Logger
  imports Cxx_Text Config_Types
begin

section \<open>The logger (utils/logger.hpp)\<close>

text \<open>
  A message is written when its level is within the level of its module, as a line of text or as one JSON
  object, to the console and to a file. The file stream, the console, the clock and the thread's number are
  the parameter \<open>lo\<close>; \<open>put_time\<close> and the JSON library give the texts they print. The locks make every
  operation one step. Main results: which messages are written (\<open>log_message_filter\<close>), that a message
  factory runs for those only (\<open>log_lazy_eq\<close>), and what becomes of the file when a write to it fails
  (\<open>write_output_takes\<close>): it is closed and opened again once, and a file that cannot be opened again stays
  closed (\<open>closed_file_stays\<close>).
\<close>

subsection \<open>State\<close>

text \<open>An \<open>ofstream\<close>: not open, open, or open with its fail bit set.\<close>

datatype log_stream = NotOpen | StreamGood | StreamFailed

record Logger =
  lg_level :: LogLevel
  lg_log_file :: string
  lg_console_output :: bool
  lg_structured_logging :: bool
  lg_file :: log_stream
  lg_module_levels :: "(string, LogLevel) umap"

text \<open>
  \<open>lo_time\<close> is one reading of the clock: the texts of \<open>%H:%M:%S\<close> and \<open>%Y-%m-%d %H:%M:%S\<close> in local time,
  and the milliseconds. \<open>lo_write\<close> is one insertion with \<open>endl\<close> into a stream that has not failed.
\<close>

record 'w log_os =
  lo_time :: "('w, string \<times> string \<times> nat) state"
  lo_thread_hash :: "('w, nat) state"
  lo_dump :: "(string \<times> string) list \<Rightarrow> string"
  lo_cerr :: "string \<Rightarrow> ('w, unit) state"
  lo_open :: "string \<Rightarrow> ('w, bool) state"
  lo_close :: "('w, unit) state"
  lo_write :: "string \<Rightarrow> ('w, bool) state"
  lo_strerror :: "('w, string) state"

type_synonym ('w, 'a) logging = "('w \<times> Logger, 'a) state"

definition log_sys :: "('w, 'a) state \<Rightarrow> ('w, 'a) logging" where
  "log_sys m = zoom fst (\<lambda>w s. (w, snd s)) m"

definition get_logger :: "('w, Logger) logging" where
  "get_logger = gets snd"

definition set_logger :: "(Logger \<Rightarrow> Logger) \<Rightarrow> ('w, unit) logging" where
  "set_logger f = modify (\<lambda>(w, l). (w, f l))"

definition new_logger :: Logger where
  "new_logger = \<lparr>lg_level = INFO, lg_log_file = [], lg_console_output = True, lg_structured_logging = False,
     lg_file = NotOpen, lg_module_levels = []\<rparr>"

subsection \<open>Configuration\<close>

definition open_log :: "'w log_os \<Rightarrow> ('w, unit) logging" where
  "open_log lo = do {
     l \<leftarrow> get_logger;
     opened \<leftarrow> log_sys (lo_open lo (lg_log_file l));
     set_logger (\<lambda>l. l\<lparr>lg_file := (if opened then StreamGood else NotOpen)\<rparr>) }"

definition close_log :: "'w log_os \<Rightarrow> ('w, unit) logging" where
  "close_log lo = do {
     log_sys (lo_close lo);
     set_logger (\<lambda>l. l\<lparr>lg_file := NotOpen\<rparr>) }"

definition init_logger :: "'w log_os \<Rightarrow> LogLevel \<Rightarrow> string \<Rightarrow> bool \<Rightarrow> bool \<Rightarrow> ('w, unit) logging" where
  "init_logger lo level log_file console_output structured = do {
     set_logger (\<lambda>l. l\<lparr>lg_level := level, lg_log_file := log_file, lg_console_output := console_output,
       lg_structured_logging := structured, lg_module_levels := []\<rparr>);
     l \<leftarrow> get_logger;
     (if lg_file l \<noteq> NotOpen then close_log lo else State_Monad.return ());
     if log_file \<noteq> [] then open_log lo else State_Monad.return () }"

definition set_level :: "LogLevel \<Rightarrow> Logger \<Rightarrow> Logger" where
  "set_level level l = l\<lparr>lg_level := level\<rparr>"

definition set_module_level :: "string \<Rightarrow> LogLevel \<Rightarrow> Logger \<Rightarrow> Logger" where
  "set_module_level module level l = l\<lparr>lg_module_levels := AList.update module level (lg_module_levels l)\<rparr>"

definition get_level :: "Logger \<Rightarrow> LogLevel" where
  "get_level l = lg_level l"

definition get_module_level :: "string \<Rightarrow> Logger \<Rightarrow> LogLevel" where
  "get_module_level module l = (case map_of (lg_module_levels l) module of Some v \<Rightarrow> v | None \<Rightarrow> lg_level l)"

definition enable_structured_logging :: "bool \<Rightarrow> Logger \<Rightarrow> Logger" where
  "enable_structured_logging enable l = l\<lparr>lg_structured_logging := enable\<rparr>"

subsection \<open>The text of a message\<close>

fun level_text :: "LogLevel \<Rightarrow> string" where
  "level_text ERR = ''ERROR''"
| "level_text WARN = ''WARN''"
| "level_text INFO = ''INFO''"
| "level_text DEBUG = ''DEBUG''"
| "level_text TRACE = ''TRACE''"

text \<open>\<open>setfill('0')\<close> and \<open>setw(3)\<close>.\<close>

definition pad3 :: "nat \<Rightarrow> string" where
  "pad3 n = replicate (3 - length (show_nat n)) (CHR ''0'') @ show_nat n"

definition get_timestamp_str :: "string \<Rightarrow> nat \<Rightarrow> string" where
  "get_timestamp_str date ms = date @ ''.'' @ pad3 ms"

definition plain_line :: "string \<Rightarrow> nat \<Rightarrow> LogLevel \<Rightarrow> string \<Rightarrow> string \<Rightarrow> string" where
  "plain_line time ms level tag msg =
     ''['' @ time @ ''.'' @ pad3 ms @ '']['' @ level_text level @ ''] '' @ tag @ '': '' @ msg"

definition format_output :: "'w log_os \<Rightarrow> LogLevel \<Rightarrow> string \<Rightarrow> string \<Rightarrow> bool \<Rightarrow> ('w, string) state" where
  "format_output lo level tag msg structured = do {
     (time, date, now) \<leftarrow> lo_time lo;
     let ms = now mod 1000;
     if structured
     then do {
       thread \<leftarrow> lo_thread_hash lo;
       State_Monad.return (lo_dump lo [(''timestamp'', get_timestamp_str date ms), (''level'', level_text level),
         (''module'', tag), (''message'', msg), (''thread_id'', show_nat thread)]) }
     else State_Monad.return (plain_line time ms level tag msg) }"

subsection \<open>Writing\<close>

definition insert_line :: "'w log_os \<Rightarrow> string \<Rightarrow> ('w, unit) logging" where
  "insert_line lo output = do {
     l \<leftarrow> get_logger;
     if lg_file l = StreamGood
     then do {
       ok \<leftarrow> log_sys (lo_write lo output);
       if ok then State_Monad.return () else set_logger (\<lambda>l. l\<lparr>lg_file := StreamFailed\<rparr>) }
     else State_Monad.return () }"

definition write_file_line :: "'w log_os \<Rightarrow> string \<Rightarrow> ('w, unit) logging" where
  "write_file_line lo output = do {
     insert_line lo output;
     l \<leftarrow> get_logger;
     if lg_file l = StreamFailed
     then do {
       close_log lo;
       open_log lo;
       insert_line lo output;
       l1 \<leftarrow> get_logger;
       if lg_file l1 = NotOpen
       then do {
         err \<leftarrow> log_sys (lo_strerror lo);
         log_sys (lo_cerr lo (''[Logger ERROR] Cannot open log file: '' @ lg_log_file l1 @ '' ('' @ err @ '')'')) }
       else State_Monad.return () }
     else State_Monad.return () }"

definition write_output :: "'w log_os \<Rightarrow> string \<Rightarrow> ('w, unit) logging" where
  "write_output lo output = do {
     l \<leftarrow> get_logger;
     (if lg_console_output l then log_sys (lo_cerr lo output) else State_Monad.return ());
     if lg_file l \<noteq> NotOpen then write_file_line lo output else State_Monad.return () }"

subsection \<open>Logging\<close>

definition log_enabled :: "LogLevel \<Rightarrow> string \<Rightarrow> Logger \<Rightarrow> bool" where
  "log_enabled level tag l \<longleftrightarrow> level \<le> get_module_level tag l"

text \<open>The overload with an explicit form, which the \<open>LOG_S\<close> macros call.\<close>

definition log_as :: "'w log_os \<Rightarrow> LogLevel \<Rightarrow> string \<Rightarrow> string \<Rightarrow> bool \<Rightarrow> ('w, unit) logging" where
  "log_as lo level tag msg structured = do {
     l \<leftarrow> get_logger;
     if \<not> log_enabled level tag l then State_Monad.return ()
     else do {
       output \<leftarrow> log_sys (format_output lo level tag msg structured);
       write_output lo output } }"

definition log_message :: "'w log_os \<Rightarrow> LogLevel \<Rightarrow> string \<Rightarrow> string \<Rightarrow> ('w, unit) logging" where
  "log_message lo level tag msg = do {
     l \<leftarrow> get_logger;
     if \<not> log_enabled level tag l then State_Monad.return ()
     else do {
       output \<leftarrow> log_sys (format_output lo level tag msg (lg_structured_logging l));
       write_output lo output } }"

definition log_lazy :: "'w log_os \<Rightarrow> LogLevel \<Rightarrow> string \<Rightarrow> ('w, string) state \<Rightarrow> ('w, unit) logging" where
  "log_lazy lo level tag message_factory = do {
     l \<leftarrow> get_logger;
     if \<not> log_enabled level tag l then State_Monad.return ()
     else do {
       message \<leftarrow> log_sys message_factory;
       output \<leftarrow> log_sys (format_output lo level tag message (lg_structured_logging l));
       write_output lo output } }"

definition log_e :: "'w log_os \<Rightarrow> string \<Rightarrow> string \<Rightarrow> ('w, unit) logging" where "log_e lo = log_message lo ERR"
definition log_w :: "'w log_os \<Rightarrow> string \<Rightarrow> string \<Rightarrow> ('w, unit) logging" where "log_w lo = log_message lo WARN"
definition log_i :: "'w log_os \<Rightarrow> string \<Rightarrow> string \<Rightarrow> ('w, unit) logging" where "log_i lo = log_message lo INFO"
definition log_d :: "'w log_os \<Rightarrow> string \<Rightarrow> string \<Rightarrow> ('w, unit) logging" where "log_d lo = log_message lo DEBUG"
definition log_t :: "'w log_os \<Rightarrow> string \<Rightarrow> string \<Rightarrow> ('w, unit) logging" where "log_t lo = log_message lo TRACE"

subsection \<open>Which messages are written\<close>

lemma run_log_sys [simp]: "run_state (log_sys m) c = (case run_state m (fst c) of (a, w) \<Rightarrow> (a, (w, snd c)))"
  by (simp add: log_sys_def split: prod.split)

lemma run_set_logger [simp]: "run_state (set_logger f) c = ((), (fst c, f (snd c)))"
  by (cases c) (simp add: set_logger_def)

lemma run_get_logger [simp]: "run_state get_logger c = (snd c, c)"
  by (simp add: get_logger_def)

lemma module_level_simps [simp]:
  "get_module_level m (set_module_level m' level l) = (if m = m' then level else get_module_level m l)"
  "lg_module_levels l = [] \<Longrightarrow> get_module_level m (set_level level l) = level"
  by (simp_all add: get_module_level_def set_module_level_def set_level_def split: option.split)

lemma init_logger_levels:
  assumes "run_state (init_logger lo level log_file con st) c = (u, c')"
  shows "get_module_level m (snd c') = level \<and> lg_file (snd c') \<noteq> StreamFailed \<and>
    (log_file = [] \<longrightarrow> lg_file (snd c') = NotOpen)"
  using assms
  by (auto simp: init_logger_def close_log_def open_log_def get_module_level_def split: if_splits prod.splits)

lemma log_message_filter:
  "\<not> log_enabled level tag (snd c) \<Longrightarrow> run_state (log_message lo level tag msg) c = ((), c)"
  "\<not> log_enabled level tag (snd c) \<Longrightarrow> run_state (log_lazy lo level tag f) c = ((), c)"
  "\<not> log_enabled level tag (snd c) \<Longrightarrow> run_state (log_as lo level tag msg st) c = ((), c)"
  by (simp_all add: log_message_def log_lazy_def log_as_def)

text \<open>A lazy message is the plain one, with its factory run first, and only when it is written.\<close>

lemma log_lazy_eq:
  "run_state (log_lazy lo level tag f) c =
     (if log_enabled level tag (snd c)
      then (case run_state f (fst c) of (msg, w) \<Rightarrow> run_state (log_message lo level tag msg) (w, snd c))
      else ((), c))"
  by (simp add: log_lazy_def log_message_def split: prod.split)

text \<open>A level lets through what a stricter level lets through.\<close>

lemma log_enabled_mono:
  "level \<le> level' \<Longrightarrow> log_enabled level' tag l \<Longrightarrow> log_enabled level tag l"
  "log_enabled level tag l \<Longrightarrow> get_module_level tag l \<le> v \<Longrightarrow> log_enabled level tag (set_module_level tag v l)"
  by (auto simp: log_enabled_def)

subsection \<open>What reaches the console and the file\<close>

datatype log_event = LCerr string | LWrite string | LClose | LOpen string

definition record_log :: "log_event \<Rightarrow> ('w, 'a) state \<Rightarrow> ('w \<times> log_event list, 'a) state" where
  "record_log e m = zoom fst (\<lambda>w s. (w, snd s @ [e])) m"

definition unrecorded :: "('w, 'a) state \<Rightarrow> ('w \<times> log_event list, 'a) state" where
  "unrecorded m = zoom fst (\<lambda>w s. (w, snd s)) m"

definition recorded_log :: "'w log_os \<Rightarrow> ('w \<times> log_event list) log_os" where
  "recorded_log lo = \<lparr>lo_time = unrecorded (lo_time lo), lo_thread_hash = unrecorded (lo_thread_hash lo),
     lo_dump = lo_dump lo, lo_cerr = (\<lambda>s. record_log (LCerr s) (lo_cerr lo s)),
     lo_open = (\<lambda>p. record_log (LOpen p) (lo_open lo p)), lo_close = record_log LClose (lo_close lo),
     lo_write = (\<lambda>s. record_log (LWrite s) (lo_write lo s)), lo_strerror = unrecorded (lo_strerror lo)\<rparr>"

text \<open>The texts a message can be written as, whatever the clock and the thread.\<close>

definition line_of :: "'w log_os \<Rightarrow> bool \<Rightarrow> LogLevel \<Rightarrow> string \<Rightarrow> string \<Rightarrow> string \<Rightarrow> bool" where
  "line_of lo structured level tag msg line \<longleftrightarrow> (\<exists>time date ms thread. line =
     (if structured
      then lo_dump lo [(''timestamp'', get_timestamp_str date (ms mod 1000)), (''level'', level_text level),
        (''module'', tag), (''message'', msg), (''thread_id'', show_nat thread)]
      else plain_line time (ms mod 1000) level tag msg))"

lemma format_output_line:
  assumes "run_state (format_output (recorded_log lo) level tag msg st) (w, es) = (line, (w', es'))"
  shows "es' = es \<and> line_of lo st level tag msg line"
  using assms
  by (cases st) (auto simp: format_output_def recorded_log_def unrecorded_def line_of_def Let_def split: prod.splits)

text \<open>
  Every way the file can take a line: it is written; or the write fails (or had failed before), the file is
  opened again, and the line is written a second time if that succeeds, or an error goes to the console.
\<close>

inductive file_takes :: "string \<Rightarrow> string \<Rightarrow> log_stream \<Rightarrow> log_event list \<Rightarrow> log_stream \<Rightarrow> bool" for path line where
  takes_none: "file_takes path line NotOpen [] NotOpen"
| takes_line: "file_takes path line StreamGood [LWrite line] StreamGood"
| takes_again: "st \<in> {StreamGood, StreamFailed} \<Longrightarrow> st' \<in> {StreamGood, StreamFailed} \<Longrightarrow>
    file_takes path line st ((if st = StreamGood then [LWrite line] else []) @ [LClose, LOpen path, LWrite line]) st'"
| takes_lost: "st \<in> {StreamGood, StreamFailed} \<Longrightarrow>
    file_takes path line st ((if st = StreamGood then [LWrite line] else []) @ [LClose, LOpen path, LCerr err]) NotOpen"

lemma write_output_takes:
  assumes "run_state (write_output (recorded_log lo) line) ((w, es), l) = (u, ((w', es'), l'))"
  shows "\<exists>fs. es' = es @ (if lg_console_output l then [LCerr line] else []) @ fs \<and>
    file_takes (lg_log_file l) line (lg_file l) fs (lg_file l') \<and> l' = l\<lparr>lg_file := lg_file l'\<rparr>"
  using assms
  by (cases "lg_file l")
    (auto simp: write_output_def write_file_line_def insert_line_def close_log_def open_log_def recorded_log_def
      record_log_def unrecorded_def file_takes.simps split: if_splits prod.splits)

text \<open>A file that was lost is not looked for again: only \<open>init\<close> opens one.\<close>

lemma closed_file_stays:
  assumes "lg_file l = NotOpen"
  shows "lg_file (snd (snd (run_state (log_message lo level tag msg) (w, l)))) = NotOpen"
  using assms by (auto simp: log_message_def write_output_def split: prod.split)

subsection \<open>The form of a line\<close>

lemma pad3_length: "n < 1000 \<Longrightarrow> length (pad3 n) = 3"
proof -
  assume "n < 1000"
  have "length (show_nat n) \<le> 3"
  proof -
    have "n div 10 div 10 < 10" using \<open>n < 1000\<close> by simp
    then show ?thesis by (simp add: show_nat.simps [of n] show_nat.simps [of "n div 10"] show_nat.simps [of "n div 10 div 10"])
  qed
  then show ?thesis by (simp add: pad3_def)
qed

end
