(* ===== verification/Spec2Isabelle.thy ===== *)
theory Spec2Isabelle
  imports Model_Kernel Configured_Groups Main_Loop Logger
begin

text \<open>
  ReUperf is a daemon for Android devices. It watches the processes of the system, matches their threads
  against the rules of a configuration file, and gives each matched thread the processors, the scheduling
  policy and the cgroup the rules ask for; what a thread had before is recorded, and put back when the
  configuration changes or the daemon ends. This is a shallow embedding of its C++ code under \<open>src/\<close>, with the
  theorems that make it correct.

  \<^bold>\<open>How the parts interact.\<close> \<open>main\<close> parses the configuration, prepares the cgroups and starts four scan workers,
  the event router and the process monitor. The main loop scans \<open>/proc\<close> in slices bounded by a time budget and
  offers the threads it finds to the workers; the monitor turns kernel events into calls of the router,
  whose batches make the callback of \<open>main\<close> dispatch new processes and forget dead ones. A worker
  takes a task from its queue, checks that the thread is still the one that was meant, matches it, records its
  baseline, and applies the result through the three setters. The watcher of the configuration file and the
  checksum of the file make the main loop reload: stop the workers, restore every thread, prepare the new
  groups, start new workers, or go back to the old configuration. The exit restores every thread.

  \<^bold>\<open>Which theory models what.\<close>
  \<^item> \<open>Prelude\<close>, \<open>Cxx_Text\<close>: association lists for \<open>std::unordered_map\<close>, the state monad with Hoare triples
    (\<open>hoare\<close>, \<open>wp\<close>, \<open>inv_kept\<close>), frame rules (\<open>keeps\<close>) and the projection \<open>zoom\<close> of a computation on a part of a
    state, the locale of time-to-live caches; the text functions of the C++ library.
  \<^item> \<open>Kernel\<close>: the system calls as a record \<open>os\<close> of arbitrary functions on a world \<open>'w\<close>, the effects of
    a \<open>traced\<close> kernel, the frame \<open>emits\<close> of what a computation does to the system.
  \<^item> \<open>File_Utils\<close>, \<open>Cgroup_State\<close> (utils/file\_utils.hpp), \<open>Cpu_Mask\<close> (utils/cpu\_mask.hpp), \<open>Logger\<close>
    (utils/logger.hpp): file access with the LRU cache, the parsers of \<open>/proc\<close>, cgroup paths and their
    classification; CPU sets and their texts; the logger.
  \<^item> \<open>Config_Types\<close>, \<open>Config_Parser\<close> (config/): the configuration structs and everything the parser does with
    the JSON value.
  \<^item> \<open>Thread_Matcher\<close>, \<open>Thread_Cache\<close>, \<open>Task_Queue\<close>, \<open>Scan_Worker\<close>, \<open>Restoration\<close>, \<open>Event_Router\<close>, \<open>Proc_Monitor\<close>,
    \<open>Scan_Cursor\<close>, \<open>Cgroup_Init\<close>, \<open>Launcher_Finder\<close>: the classes of core/, one theory each (\<open>Restoration\<close> also
    the functions of main.cpp that restore, \<open>Inotify\<close> what the monitor shares with the watcher).
  \<^item> \<open>Cpuset_Setter\<close>, \<open>Priority_Setter\<close>, \<open>Cpuctl_Setter\<close> (scheduler/): the three setters and the takeover sequence.
  \<^item> \<open>Dispatch\<close>, \<open>Full_Scan\<close>, \<open>Scan_Cycle\<close>, \<open>Config_Watcher\<close>, \<open>Daemon\<close>, \<open>Main_Loop\<close> (main.cpp): dispatching processes to the
    workers, the sliced full scan, a round of the scan with its phases and the event callback, the watcher of the
    configuration file, start, reload and shutdown, and the whole program as a step relation.
  \<^item> \<open>Runtime\<close>, \<open>Configured_Groups\<close>, \<open>Cache_Safety\<close>: the state of the components side by side, and what holds across them.
    \<open>Model_Kernel\<close> is a small concrete machine on which theorems are applied; it models no code.

  \<^bold>\<open>Conventions.\<close> A class or struct is a record, an enum a datatype; a method that changes state is a function in the
  state monad or on the record; errors, early returns and thrown exceptions are values. \<open>int\<close> fields are unbounded
  integers where the parser's ranges (\<open>parsed_config_in_range\<close>) exclude overflow, start times are naturals, masks and hashes are
  words of their width. A \<open>std::set<int>\<close> is a set walked in ascending order. What a mutex protects is one step. Loops that
  depend on the clock or the kernel are \<open>partial_function (option)\<close>, and that they return is proved under a law of
  the clock or of the queue (\<open>cycle_tick_returns\<close>, \<open>full_scan_ends\<close>, \<open>launcher_is_a_package\<close>, \<open>watcher_reports_changes\<close>); all other
  loops are total functions. The only fixed number of turns is that of the router's thread after its
  stop: five, which is the longest way from any point of its loop to its end (\<open>turns_left_bound\<close>).
  The platform is a 64-bit one: \<open>size_t\<close> and \<open>long\<close> have 64 bits and \<open>CPU_SETSIZE\<close> is 1024. Stopping a worker empties its queue; the
  tasks it still processes before the join are turns of the worker before that step.

  \<^bold>\<open>What is assumed.\<close> The theorems hold for every kernel, clock, JSON library, regular-expression engine, hash function and
  thread library, which are parameters, unless they name a law: \<open>sched_laws\<close> (a scheduling call that
  succeeds is shown by the next query), \<open>clock_law\<close> and \<open>child_clock\<close> (the monotonic clock moves), \<open>reads_table\<close> (the
  processes do not change while they are walked), \<open>control_law\<close> (control files keep what was
  written to them), \<open>queue_law\<close> (an inotify queue that is read runs empty).

  \<^bold>\<open>What the properties show.\<close> Safety of what is done to threads (C1, C2, C12, C13), the promise that everything can be put back
  and is (C3, C4, C6, C9, C11, C32), the composition (C5, C7, C10, C18), the cycle's fairness and completeness (C8, C21 to C26), queues and
  caches (C14, C15, C33, C35), events (C16, C17, C19, C20, C38), the configuration (C27 to C31), and the texts, names and
  limits the rest relies on (C34, C36, C37, C39, C40).

  \<^bold>\<open>Not modelled.\<close> Memory exhaustion and other exceptions of the standard library (a failed thread creation is modelled); the
  memory model below the mutexes and atomics: every critical section is one step, one worker's task and one round of
  the main loop are uninterrupted runs; the messages the components
  log (the logger itself is modelled on its own); what the child of \<open>LauncherFinder\<close> does before \<open>exec\<close>; the naming of threads; the
  destructors, whose only work is a \<open>stop\<close> or a \<open>reset\<close> modelled elsewhere; the rollback while an exception unwinds. Tests,
  build files and the module's shell scripts are no part of the program.
\<close>

section \<open>Properties\<close>

subsection \<open>Scheduling a thread\<close>

text \<open>
  C1. The takeover sequence, whatever its six operations do: every state-changing operation
  and the verification directly follow an identity check that succeeded, nothing follows one
  that failed, at most the given number of attempts is made, and success is reported exactly
  when the sequence ended with both verifications passing.
\<close>

theorem takeover_checks_identity:
  "case run_state (run_takeover_sequence (recorded_ops ops) pid tid mname cpus n) (s, []) of
     (r, (s', es)) \<Rightarrow> phase_of es \<noteq> Violation \<and> attempts r \<le> nat n \<and>
       (success r \<longleftrightarrow> phase_of es = Verified True)"
proof -
  obtain r s' es where "run_state (run_takeover_sequence (recorded_ops ops) pid tid mname cpus n) (s, [])
      = (r, (s', es))" by (metis surj_pair)
  with takeover_monitored [OF this] show ?thesis by simp
qed

text \<open>
  C2. Processing a task changes nothing but its own thread: every system call it makes that
  changes the system is a scheduling call on that thread, or the opening of an existing
  \<open>tasks\<close> file and the writing of that thread's identifier (or the rest of it after a short
  write). No directory is made and no file is created.
\<close>

theorem dispatch_touches_only_its_thread:
  "\<exists>es. rt_effects (snd (run_state (process_dispatch_task
       (Some \<lparr>sv_os = traced os, sv_rx = rx, sv_hash = h, sv_key_hash = kh, sv_matcher = m, sv_timing = tm\<rparr>)
       task) s)) = rt_effects s @ es \<and> list_all (concerns (dt_tid task)) es"
  using emits_dispatch [of "\<lparr>sv_os = traced os, sv_rx = rx, sv_hash = h, sv_key_hash = kh, sv_matcher = m,
    sv_timing = tm\<rparr>" os task] by (simp add: emits_def)

text \<open>
  C13. A scheduling dimension of a thread is managed only while the baseline to restore it is
  held, and the cache stays well formed: every dispatch keeps this, on every path.
\<close>

theorem dispatch_keeps_baselines:
  "inv_kept (\<lambda>s. tcache_inv (tcache s)) (process_dispatch_task services task)"
  using dispatch_ok [of services task] unfolding rt_cache_ok_def [abs_def] .

text \<open>
  C12. A task whose thread is gone, or whose process or thread identifier was reused, changes
  nothing in the system; its cache entry is dropped.
\<close>

theorem stale_task_has_no_effect:
  assumes "sv_os sv = traced os" "fst (run_state (is_current_task_identity sv task) s) = False"
  shows "rt_effects (snd (run_state (process_dispatch_task (Some sv) task) s)) = rt_effects s \<and>
    tcache (snd (run_state (process_dispatch_task (Some sv) task) s)) =
      erase_thread_if_identity (dt_pid task) (dt_tid task) (dt_process_start_time task)
        (dt_thread_start_time task) (tcache s)"
proof -
  obtain s1 where run: "run_state (is_current_task_identity sv task) s = (False, s1)"
    using assms(2) by (metis prod.collapse)
  from identity_quiet [OF assms(1) run] stale_run [OF run] show ?thesis
    by (simp add: rt_effects_def)
qed

definition sample_task :: DispatchTask where
  "sample_task = \<lparr>dt_pid = 7, dt_tid = 8, dt_process_start_time = 5, dt_thread_start_time = 6,
     dt_thread_name = ''worker'', dt_state = TOP, dt_cpuset_base = ''/dev/cpuset'',
     dt_proc_name = ''app'', dt_cmdline = ''app''\<rparr>"

definition sample_services :: "'w os \<Rightarrow> ('w, string) services" where
  "sample_services os = \<lparr>sv_os = os, sv_rx = substring_lib, sv_hash = length, sv_key_hash = (\<lambda>_. 0),
     sv_matcher = make_matcher substring_lib default_config, sv_timing = default_timing\<rparr>"

lemma sample_task_stale:
  "fst (run_state (is_current_task_identity (sample_services (traced model_os)) sample_task)
     (traced_rt (model_rt [] []))) = False"
  by code_simp

theorem stale_task_has_no_effect_witness:
  "rt_effects (snd (run_state (process_dispatch_task (Some (sample_services (traced model_os))) sample_task)
     (traced_rt (model_rt [] [])))) = rt_effects (traced_rt (model_rt [] []))"
  using stale_task_has_no_effect [of "sample_services (traced model_os)" model_os, OF _ sample_task_stale]
  by (simp add: sample_services_def)

subsection \<open>Putting threads back\<close>

definition sample_baseline :: ThreadBaseline where
  "sample_baseline = new_baseline\<lparr>bl_affinity := [0, 1], bl_has_affinity := True\<rparr>"

definition sample_entry :: ThreadCacheEntry where
  "sample_entry = \<lparr>te_pid = 7, te_tid = 8, te_process_start_time = 5, te_thread_start_time = 6,
     te_thread_name = ''worker'', te_cmdline = ''app'', te_actual_state = TOP,
     te_result = new_result TOP, te_applied_result = None, te_managed = no_components,
     te_cpuset_base = [], te_cpuctl_base = [], te_baseline = Some sample_baseline\<rparr>"

definition sample_cache :: ThreadCache where
  "sample_cache = [((7, 8), sample_entry)]"

lemma sample_cache_inv: "tcache_inv sample_cache"
  by (simp add: tcache_inv_def sample_cache_def umap_ok_def entry_ok_def sample_entry_def)

lemma sample_rt_inv: "tcache_inv (tcache (model_rt files sample_cache))"
  by (simp add: model_rt_def sample_cache_inv)

text \<open>
  C6. Restoring all baselines reports success exactly when no baseline is left in the cache:
  every thread was either put back or found to be gone.
\<close>

theorem restore_all_complete:
  assumes "tcache_inv (tcache s)"
  shows "fst (run_state (restore_all_thread_baselines os) s) \<longleftrightarrow>
    get_all_baselines (tcache (snd (run_state (restore_all_thread_baselines os) s))) = []"
  using restore_all_result [OF assms, of os] by (metis prod.collapse)

theorem restore_all_complete_witness:
  "fst (run_state (restore_all_thread_baselines model_os) (model_rt [] sample_cache)) \<longleftrightarrow>
   get_all_baselines (tcache (snd (run_state (restore_all_thread_baselines model_os) (model_rt [] sample_cache)))) = []"
  by (rule restore_all_complete [OF sample_rt_inv])

text \<open>
  At shutdown the exit code tells the truth: 0 with an empty cache, or 2 with at least
  one baseline still recorded.
\<close>

theorem shutdown_exit_code:
  assumes "tcache_inv (tcache s)" "run_state (shutdown_restore os) s = (code, s')"
  shows "(code = 0 \<and> tcache s' = []) \<or> (code = 2 \<and> get_all_baselines (tcache s') \<noteq> [])"
  by (rule shutdown_result [OF assms])

theorem shutdown_exit_code_witness:
  "\<exists>code s'. (code = 0 \<and> tcache s' = [] \<or> code = 2 \<and> get_all_baselines (tcache s') \<noteq> []) \<and>
     run_state (shutdown_restore model_os) (model_rt [] sample_cache) = (code, s')"
proof -
  obtain code s' where run: "run_state (shutdown_restore model_os) (model_rt [] sample_cache) = (code, s')"
    by (metis surj_pair)
  from shutdown_exit_code [OF sample_rt_inv run] run show ?thesis by blast
qed

text \<open>
  C32. The retry loop, whatever its operations do: it tries at most the given number of times,
  waits exactly once between two tries with the number of the failed try, stops at the first
  success, and fails only after the last try.
\<close>

theorem retry_is_bounded:
  assumes "0 < n"
  shows "case run_state (run_restoration_with_retry n (recorded_try m) (recorded_delay d)) (s, []) of
    (r, (s', es)) \<Rightarrow> \<exists>k < nat n. es = retry_events k 1 r \<and> (r \<or> Suc k = nat n)"
proof -
  obtain r s' es where run:
    "run_state (run_restoration_with_retry n (recorded_try m) (recorded_delay d)) (s, []) = (r, (s', es))"
    by (metis surj_pair)
  obtain j where j: "nat n = Suc j" using assms by (metis gr0_implies_Suc zero_less_nat_eq)
  have "run_state (retry_loop (Suc j) 1 (recorded_try m) (recorded_delay d)) (s, []) = (r, (s', es))"
    using run assms by (simp add: run_restoration_with_retry_def j del: retry_loop.simps)
  from retry_loop_trace [OF this] obtain k where "k \<le> j" "es = retry_events k 1 r" "\<not> r \<longrightarrow> k = j"
    by auto
  with run j show ?thesis by (auto intro!: exI [of _ k])
qed

theorem retry_is_bounded_witness:
  "case run_state (run_restoration_with_retry 3 (recorded_try (State (\<lambda>i :: nat. (i = 1, i + 1))))
      (recorded_delay (\<lambda>_. State_Monad.return ()))) (0, []) of
    (r, (s', es)) \<Rightarrow> \<exists>k < nat 3. es = retry_events k 1 r \<and> (r \<or> Suc k = nat 3)"
  by (rule retry_is_bounded) simp

subsection \<open>The thread cache\<close>

text \<open>
  C11. The first capture of a baseline component wins: no later sequence of captures, of this
  thread or of others, changes or loses a component that is already held.
\<close>

theorem first_capture_wins:
  assumes "get_baseline pid tid c = Some b"
  shows "\<exists>b'. get_baseline pid tid (fold (\<lambda>((p, t), x). set_baseline p t x) xs c) = Some b' \<and> baseline_le b b'"
  using baselines.captures_keep [where c = c and k = "(pid, tid)" and b = b and xs = xs] assms
  by (simp add: case_prod_unfold)

theorem first_capture_wins_witness:
  "\<exists>b'. get_baseline 7 8 (fold (\<lambda>((p, t), x). set_baseline p t x)
      [((7, 8), new_baseline\<lparr>bl_affinity := [3], bl_has_affinity := True, bl_cpuset_path := ''/x'',
         bl_has_cpuset_path := True\<rparr>)] sample_cache) = Some b' \<and> baseline_le sample_baseline b'"
  by (rule first_capture_wins) (simp add: get_baseline_def sample_cache_def sample_entry_def)

text \<open>
  What a full scan keeps: an entry stays exactly when it changed since the scan began, or
  its process still runs with the same start time and its thread was seen with the same
  start time, or was not seen but still has a baseline to restore.
\<close>

theorem full_scan_keeps:
  assumes "tcache_inv c"
  shows "map_of (retain_live_threads live_processes live_threads scan_start c) k = Some e \<longleftrightarrow>
    map_of c k = Some e \<and>
    (map_of scan_start k \<noteq> Some (te_process_start_time e, te_thread_start_time e) \<or>
     map_of live_processes (te_pid e) = Some (te_process_start_time e) \<and>
     (map_of live_threads k = Some (te_thread_start_time e) \<or>
      map_of live_threads k = None \<and> te_baseline e \<noteq> None))"
  using assms by (auto simp: tcache_inv_def retain_live_threads_lookup split: option.splits if_splits)

theorem full_scan_keeps_witness:
  "map_of (retain_live_threads [(7, 5)] [] (identity_snapshot sample_cache) sample_cache) (7, 8) = Some sample_entry"
  unfolding full_scan_keeps [OF sample_cache_inv]
  by (simp add: sample_cache_def sample_entry_def identity_snapshot_def)

subsection \<open>The dispatch queue\<close>

text \<open>
  C15. In every state the interleavings of producers, worker and stop can reach, the queue holds
  each waiting key once, exactly the keys that have a task, each task under its own key, and
  never more than 4096 of them.
\<close>

theorem queue_bounded_and_consistent:
  assumes "queue_reachable q"
  shows "distinct (wq_queue q) \<and> set (wq_queue q) = fst ` set (wq_pending q) \<and>
    length (wq_queue q) \<le> kMaxQueuedTasks \<and> (\<forall>(k, t) \<in> set (wq_pending q). k = task_key t)"
  using reachable_queue_ok [OF assms] by (simp add: queue_ok_def)

theorem queue_bounded_and_consistent_witness:
  "length (wq_queue (snd (enqueue sample_task (start_worker empty_queue)))) \<le> kMaxQueuedTasks"
proof -
  have "queue_reachable (snd (enqueue sample_task (start_worker empty_queue)))"
    by (rule queue_next [OF queue_next [OF queue_init step_start] step_enqueue])
  from queue_bounded_and_consistent [OF this] show ?thesis by blast
qed

text \<open>
  C14. What a producer offers to a started worker is delivered: the worker takes the accepted
  tasks once per thread identity, in the order in which the identities first came, each
  with the newest accepted task of its identity.
\<close>

theorem queue_delivers_newest:
  "case offer_all ts (start_worker empty_queue) of (acc, q) \<Rightarrow>
     drain_all (length (wq_queue q)) q = map snd (fold (\<lambda>t. AList.update (task_key t) t) acc [])"
proof -
  obtain acc q where offer: "dispatch.offer ts (start_worker empty_queue) = (acc, q)" by (metis surj_pair)
  from dispatch.delivered [OF started_queue_ok this] offer show ?thesis
    by (simp add: offer_all_eq drain_all_eq)
qed

subsection \<open>Matching\<close>

text \<open>
  C33. For queries whose process name, thread name and command line hold no \<open>#\<close> (\<open>plain_query\<close>), the result
  cache is invisible: a matcher that starts with an empty cache answers every query of a sequence of such
  queries as it would without the cache, whatever the clock does. The condition is needed: with the separator
  inside a name two queries can share a key (\<open>match_cache_key_collides\<close>).
\<close>

theorem cached_matching_is_fresh:
  assumes "list_all plain_query qs"
  shows "fst (run_state (match_all os hash rx m qs) (e, empty_process_cache)) = map (fresh_answer rx m) qs"
  by (rule match_all_fresh) (simp_all add: assms)

definition sample_rule :: ProcessRule where
  "sample_rule = \<lparr>pr_name = ''apps'', pr_regex_str = ''app'', pr_pinned = False, pr_topfore = True,
     pr_thread_rules = [\<lparr>tr_keyword = ''/MAIN_THREAD/'', tr_affinity_class = ''main'', tr_prio_class = ''auto'',
       tr_uclamp_max = None, tr_cpu_share = None, tr_enable_limit = False\<rparr>]\<rparr>"

definition sample_config :: Config where
  "sample_config = default_config\<lparr>sched := default_sched\<lparr>sc_rules := [sample_rule]\<rparr>\<rparr>"

theorem cached_matching_is_fresh_witness:
  "fst (run_state (match_all model_os length substring_lib (make_matcher substring_lib sample_config)
      [(''app'', ''app'', FG, [], True), (''app'', ''app'', FG, [], True)]) (model_env [], empty_process_cache)) =
   map (fresh_answer substring_lib (make_matcher substring_lib sample_config))
      [(''app'', ''app'', FG, [], True), (''app'', ''app'', FG, [], True)]"
  by (rule cached_matching_is_fresh) (simp add: plain_query_def plain_names_def)

subsection \<open>Priorities\<close>

text \<open>
  C34. Setting a configured priority settles it: on a kernel that keeps the documented laws of
  its scheduling calls, after a successful call the drift check finds nothing changed.
\<close>

theorem set_priority_settled:
  assumes "sched_laws os tid obs" "0 < tid" "p \<noteq> 0" "run_state (set_priority os tid p) s = (True, s')"
  shows "fst (run_state (is_sched_changed os tid p) s') = False"
  by (rule set_priority_settles [OF assms(1,2,4,3)])

lemma model_sched_laws: "sched_laws model_os tid (\<lambda>m. (mc_policy m, mc_rt_prio m, mc_nice_value m))"
  by (auto simp: sched_laws_def model_os_def)

theorem set_priority_settled_witness:
  "fst (run_state (is_sched_changed model_os 8 112)
     (snd (run_state (set_priority model_os 8 112) (model_rt [] [])))) = False"
  by (rule set_priority_settled [OF model_sched_laws])
    (simp_all add: set_priority_def set_nice_value_def model_os_def)

text \<open>
  The calls a configured priority makes: none for an unknown value; otherwise the one
  policy change it encodes, followed by the nice value for 100 to 139 if the policy change
  succeeded, and success is reported only if all of them succeeded.
\<close>

theorem set_priority_calls:
  assumes "0 < tid" "p \<noteq> 0" "run_state (set_priority (traced os) tid p) s = (ok, s')"
  shows "case priority_plan p of
      None \<Rightarrow> \<not> ok \<and> rt_effects s' = rt_effects s
    | Some (policy, rt, nice) \<Rightarrow> \<exists>policy_ok. (ok \<longrightarrow> policy_ok) \<and>
        rt_effects s' = rt_effects s @ ESetScheduler tid policy rt #
          (case nice of Some n \<Rightarrow> if policy_ok then [ESetPriority tid n] else [] | None \<Rightarrow> [])"
  by (rule set_priority_plan [OF assms])

theorem set_priority_calls_witness:
  "\<exists>ok s'. run_state (set_priority (traced model_os) 8 50) (traced_rt (model_rt [] [])) = (ok, s') \<and>
     rt_effects s' = rt_effects (traced_rt (model_rt [] [])) @ [ESetScheduler 8 SCHED_FIFO 50]"
proof -
  obtain ok s' where run: "run_state (set_priority (traced model_os) 8 50) (traced_rt (model_rt [] [])) = (ok, s')"
    by (metis surj_pair)
  from set_priority_calls [OF _ _ run] run show ?thesis by (auto simp: priority_plan_def)
qed

subsection \<open>Throttling\<close>

text \<open>
  C35. When the records of a worker live at least as long as the minimum interval
  (\<open>min_schedule_interval_ms \<le> schedule_cleanup_interval_ms\<close>), a thread dispatched again in the same state
  within that interval is skipped, whatever other threads are dispatched and whatever cadence checks run in
  between. The condition is needed: a shorter cleanup drops the record (\<open>cleanup_defeats_throttle\<close>).
\<close>

theorem same_state_is_throttled:
  assumes "schedule_ok st" "skip_step tm t key state st = (False, st1)"
    and "list_all (between_dispatches key t till) ops" "t \<le> till"
    and "elapsed_ms t till < min_schedule_interval_ms tm"
    and "min_schedule_interval_ms tm \<le> schedule_cleanup_interval_ms tm"
  shows "fst (skip_step tm till key state (fold (run_schedule_op kh tm) ops st1)) = True"
proof -
  have "0 \<le> elapsed_ms t till" using elapsed_mono [OF order_refl assms(4)] by simp
  with assms(5,6) have "0 \<le> schedule_cleanup_interval_ms tm" "elapsed_ms t till \<le> schedule_cleanup_interval_ms tm"
    by simp_all
  with run_other_ops [OF skip_step_accepts [OF assms(1,2)] assms(3)]
  have "scheduled t key state (fold (run_schedule_op kh tm) ops st1)" by simp
  from skip_step_throttles [OF this assms(5)] show ?thesis by simp
qed

theorem same_state_is_throttled_witness:
  "fst (skip_step default_timing 100000000 (7, 8, 5, 6) TOP (fold (run_schedule_op (\<lambda>_. 0) default_timing)
     [OpCheck 40000000 (7, 8, 5, 6), OpSkip 50000000 (7, 9, 5, 6) TOP]
     (snd (skip_step default_timing 0 (7, 8, 5, 6) TOP empty_schedule)))) = True"
proof (rule same_state_is_throttled [where t = 0])
  show "skip_step default_timing 0 (7, 8, 5, 6) TOP empty_schedule =
      (False, snd (skip_step default_timing 0 (7, 8, 5, 6) TOP empty_schedule))"
    by (simp add: skip_step_def empty_schedule_def kScheduleCleanupThreshold_def)
qed (simp_all add: schedule_ok_def empty_schedule_def default_timing_def elapsed_ms_mono_clock NS_PER_MS_def
    between_dispatches_def)

subsection \<open>Text and sets\<close>

text \<open>
  C37. A CPU set written as a list of ranges and read back by the parser of
  \<open>Cpus_allowed_list\<close> is the same set.
\<close>

theorem cpu_set_text_round_trip:
  "map_option from_vector (parse_cpu_list (cpu_set_to_string m)) = Some m"
proof (cases "to_vector m = []")
  case True
  then have "from_vector [] = m" using from_vector_to_vector [of m] by simp
  with True show ?thesis
    by (simp add: cpu_set_to_string_def cpus_to_string_def parse_cpu_list.simps skip_blanks_def)
next
  case False
  have "cpu_list_ok (to_vector m)"
    using to_vector_sorted_distinct [of m] set_to_vector [of m]
    by (auto simp: cpu_list_ok_def strict_sorted_iff list_all_iff)
  from parse_cpu_list_cpus_to_string [OF this False] show ?thesis
    by (simp add: cpu_set_to_string_def from_vector_to_vector)
qed

text \<open>
  The start time is read from field 22 whatever the thread is called: the name between the
  parentheses may hold spaces, digits and parentheses.
\<close>

theorem start_time_any_name:
  assumes "length fs = 19" "list_all (\<lambda>f. CHR '' '' \<notin> set f \<and> CHR '')'' \<notin> set f \<and> f \<noteq> []) fs"
    and "CHR '')'' \<notin> set rest" "rest = [] \<or> hd rest = CHR '' ''" "int start < UINT64_MOD"
  shows "parse_start_time_from_stat
     (pid @ '' ('' @ comm @ '') '' @ concat (map (\<lambda>f. f @ '' '') fs) @ show_nat start @ rest) = start"
  by (rule parse_start_time_any_comm [OF assms])

theorem start_time_any_name_witness:
  "parse_start_time_from_stat (''7'' @ '' ('' @ '') 1 (x) 99'' @ '') '' @
     concat (map (\<lambda>f. f @ '' '') (replicate 19 ''0'')) @ show_nat 4711 @ '' 17'') = 4711"
  by (rule start_time_any_name) (simp_all add: UINT64_MOD_def list_all_iff)

subsection \<open>Caches\<close>

text \<open>
  C18. The file cache stays bounded by 1000 entries, its recency list holds each cached path
  once, and no file of the kernel's \<open>/proc\<close> or cgroup trees is ever in it: every read
  keeps this.
\<close>

theorem read_file_keeps_cache: "inv_kept fcache_inv (read_file os path)"
  by (rule read_file_fcache_inv)

text \<open>
  A file-cache hit is recent: after any sequence of stores and erasures, what a lookup
  returns is what the last store for that path put there, less than the time to live ago.
\<close>

theorem file_cache_hit_is_recent:
  assumes "file_cache_lookup ttl now path (fold file_cache.run_op ops \<lparr>fc_entries = [], fc_lru = []\<rparr>) = Some content"
  shows "\<exists>t. last_store ops path = Some (content, t) \<and> elapsed_ms t now < ttl"
  by (rule file_cache.hits_are_recent [OF _ _ assms]) (simp_all add: file_cache_ok_def)

theorem file_cache_hit_is_recent_witness:
  "\<exists>t. last_store [Store 0 ''/a'' ''x'', Store 5000000 ''/a'' ''y''] ''/a'' = Some (''y'', t) \<and> elapsed_ms t 9000000 < 100"
  by (rule file_cache_hit_is_recent)
    (simp add: file_cache.run_op.simps file_cache_insert_def file_cache_lookup_def touch_file_cache_entry_def
      kMaxCacheSize_def elapsed_ms_mono_clock NS_PER_MS_def)

text \<open>
  Invalidating a process drops every cached cgroup path of the process and of its threads,
  and none of another process.
\<close>

theorem invalidation_is_exact:
  assumes "is_valid_pid pid" "is_valid_pid p" "cgroup_cache_ok (ccache e)"
  shows "map_of (ccache (snd (run_state (invalidate_process_caches pid) e))) (process_key p, controller) =
      (if p = pid then None else map_of (ccache e) (process_key p, controller)) \<and>
    map_of (ccache (snd (run_state (invalidate_process_caches pid) e))) (thread_key p tid, controller) =
      (if p = pid then None else map_of (ccache e) (thread_key p tid, controller))"
proof -
  have run: "run_state (invalidate_process_caches pid) e =
      ((), snd (run_state (invalidate_process_caches pid) e))" by (metis old.unit.exhaust prod.collapse)
  from invalidate_process_lookup [OF assms(1,3,2) run] show ?thesis by blast
qed

theorem invalidation_is_exact_witness:
  "map_of (ccache (snd (run_state (invalidate_process_caches 7)
     ((model_env [])\<lparr>ccache := [((process_key 9, ''cpu''), (''/'', 0))]\<rparr>)))) (process_key 9, ''cpu'') = Some (''/'', 0)"
  by (subst invalidation_is_exact [THEN conjunct1])
    (simp_all add: is_valid_pid_def INT_MAX_def cgroup_cache_ok_def umap_ok_def kMaxCgroupCacheSize_def)

text \<open>
  A process is never classified from a cpuset group of the scheduler's own: when the cpu
  controller says nothing, such a process is reported as owned and of no known state.
\<close>

theorem own_cpuset_is_not_a_state:
  assumes "is_reuperf_cpuset_path cpuset" "cgroup_path_to_state cpu = COTHER"
  shows "cgroup_paths_to_state_info cpu cpuset = \<lparr>ci_state = COTHER, ci_reuperf_owned = True\<rparr>"
  by (rule own_cpuset_never_top [OF assms])

theorem own_cpuset_is_not_a_state_witness:
  "cgroup_paths_to_state_info ''/'' ''/top-app/ReUperf_all'' = \<lparr>ci_state = COTHER, ci_reuperf_owned = True\<rparr>"
  by (rule own_cpuset_is_not_a_state) code_simp+

subsection \<open>Process events\<close>

text \<open>
  C16. What the router reports of a batch of events, if none was lost: new are the processes whose
  last event is a creation and that were not tracked or also ended in the batch, dead are
  those whose last event is an exit, recycled are those that ended and began again; afterwards
  exactly the processes that begin are tracked, and those that were and did not end.
\<close>

theorem batch_reports_events:
  assumes "er_running r" "er_pending_events r = []" "\<not> er_events_dropped (offer_events evs r)"
  shows "classify_events (er_pending_events (offer_events evs r)) tracked =
    ({p. begins evs p \<or> p \<in> tracked \<and> \<not> ends evs p},
     {p. begins evs p \<and> (False \<in> set (events_of p evs) \<or> p \<notin> tracked)},
     {p. ends evs p},
     {p. begins evs p \<and> False \<in> set (events_of p evs)})"
  by (rule classify_summary [OF assms])

definition sample_router :: "unit EventRouter" where
  "sample_router = snd (start_router True None None (new_router 50))"

theorem batch_reports_events_witness:
  "classify_events (er_pending_events (offer_events [(7, True), (8, False), (7, False), (7, True)] sample_router)) {8} =
    ({p. begins [(7, True), (8, False), (7, False), (7, True)] p \<or>
         p \<in> {8} \<and> \<not> ends [(7, True), (8, False), (7, False), (7, True)] p},
     {p. begins [(7, True), (8, False), (7, False), (7, True)] p \<and>
         (False \<in> set (events_of p [(7, True), (8, False), (7, False), (7, True)]) \<or> p \<notin> {8})},
     {p. ends [(7, True), (8, False), (7, False), (7, True)] p},
     {p. begins [(7, True), (8, False), (7, False), (7, True)] p \<and>
         False \<in> set (events_of p [(7, True), (8, False), (7, False), (7, True)])})"
  by (rule batch_reports_events)
    (simp_all add: sample_router_def start_router_def new_router_def offer_events_def add_event_def
      kMaxPendingEvents_def)

text \<open>
  C17. In every state the router can reach through events, its own steps, stops and restarts, when
  no event is waiting or being classified, the tracked processes are exactly those whose last
  accepted event is a creation.
\<close>

theorem tracked_pids_follow_events:
  assumes "router_trace evs r" "er_pending_events r = []" "batch_of r = []"
  shows "er_tracked_pids r = {p. last_event evs p = Some True}"
  by (rule trace_tracks [OF assms])

theorem tracked_pids_follow_events_witness:
  "er_tracked_pids (classify_batch (take_batch (router_wake (loop_test (add_event 7 True sample_router))))) =
    {p. last_event [(7, True)] p = Some True}"
proof (rule tracked_pids_follow_events)
  have start: "router_trace [] sample_router"
    unfolding sample_router_def by (rule trace_start [OF trace_new]) (simp_all add: new_router_def)
  have "router_trace ([] @ [(7, True)]) (add_event 7 True sample_router)"
    using trace_event [OF start, of 7 True]
    by (simp add: accepts_def sample_router_def start_router_def new_router_def kMaxPendingEvents_def)
  then have "router_trace [(7, True)] (add_event 7 True sample_router)" by simp
  from trace_step [OF trace_step [OF trace_step [OF trace_step [OF this step_top] step_wake] step_take]
      step_classify [where d = False]]
  show "router_trace [(7, True)] (classify_batch (take_batch (router_wake (loop_test (add_event 7 True sample_router)))))"
    by (simp add: sample_router_def start_router_def new_router_def add_event_def kMaxPendingEvents_def
        loop_test_def router_wake_def wake_condition_def take_batch_def)
qed (simp_all add: sample_router_def start_router_def new_router_def add_event_def kMaxPendingEvents_def
    loop_test_def router_wake_def take_batch_def classify_batch_def batch_of_def split: prod.split)

subsection \<open>Scanning in slices\<close>

text \<open>
  C36. Reading the threads of a process in slices gives what reading them in one go gives: whatever
  the budgets of the slices, the completed list holds the identifiers of the directory once, in
  ascending order, or nothing when the directory could not be read to its end.
\<close>

theorem sliced_enumeration_is_whole:
  assumes "run_state (open_tasks os (begin_pid pid)) s0 = (Some c, s1)" "0 < pid"
    and "cu_task_dir c = Some d"
    and "run_state (enumerate_slices os bs c) s = ((True, c'), s')"
  shows "cu_tids c' = remdups_adj (sort (if ds_error d then [] else entry_ids (ds_entries d)))"
  using enumerate_resumes [OF assms] by (simp add: finish_ids_def)

definition sample_dir :: dir_stream where
  "sample_dir = \<lparr>ds_entries = [\<lparr>d_name = ''9'', d_type = DT_DIR\<rparr>, \<lparr>d_name = ''.'', d_type = DT_DIR\<rparr>,
     \<lparr>d_name = ''8'', d_type = DT_DIR\<rparr>], ds_error = False\<rparr>"

definition sample_slice :: "machine slice" where
  "sample_slice = \<lparr>sl_env = model_env [], sl_budget = \<lparr>bg_deadline = 1000, bg_batch_size = 1,
     bg_batch_yield_us = 0, bg_thread_reads = 0\<rparr>\<rparr>"

definition sample_proc_os :: "machine os" where
  "sample_proc_os = still_os [] [(''/proc/7/task'', sample_dir)]"

lemma sample_open:
  "run_state (open_tasks sample_proc_os (begin_pid 7)) sample_slice =
    (Some ((begin_pid 7)\<lparr>cu_task_dir := Some sample_dir\<rparr>), sample_slice)"
  by code_simp

lemma sample_enumeration:
  "run_state (enumerate_slices sample_proc_os
      [\<lparr>bg_deadline = 0, bg_batch_size = 1, bg_batch_yield_us = 0, bg_thread_reads = 0\<rparr>,
       \<lparr>bg_deadline = 1000, bg_batch_size = 1, bg_batch_yield_us = 0, bg_thread_reads = 0\<rparr>]
      ((begin_pid 7)\<lparr>cu_task_dir := Some sample_dir\<rparr>)) sample_slice =
    ((True, (begin_pid 7)\<lparr>cu_tid_enumeration_complete := True, cu_tids := [8, 9]\<rparr>),
     sample_slice\<lparr>sl_budget := \<lparr>bg_deadline = 1000, bg_batch_size = 1, bg_batch_yield_us = 0, bg_thread_reads = 3\<rparr>\<rparr>)"
  by code_simp

theorem sliced_enumeration_is_whole_witness:
  "[8, 9] = remdups_adj (sort (if ds_error sample_dir then [] else entry_ids (ds_entries sample_dir)))"
  using sliced_enumeration_is_whole [OF sample_open _ _ sample_enumeration] by simp

text \<open>
  C22. In a dispatch cycle no thread is offered to the workers twice: whatever the kernel answers and
  wherever the slices end, a call keeps the accepted tasks distinct by thread, disjoint from what
  was processed before the cycle, all recorded as processed, and each of a live thread of a
  process of the set, in the state the cycle dispatches.
\<close>

theorem dispatch_offers_once:
  assumes "cycle_inv pids st cpuset_base done s"
    and "run_state (dispatch_pids_to_workers os (recorded_pool p) pids st cpuset_base) s = (stop, s')"
  shows "cycle_inv pids st cpuset_base done s'"
  using wp_run [OF dispatch_distinct [OF assms(1)] assms(2)] .

definition sample_files :: "(string \<times> string) list" where
  "sample_files = [
     (''/proc/7/status'', ''Name:'' @ [TAB] @ ''app'' @ [NL] @ ''State: S''),
     (''/proc/7/stat'', ''7 (app) S 1 1 1 1 1 1 1 1 1 1 1 1 1 1 1 1 1 1 55 9''),
     (''/proc/7/cmdline'', ''app''),
     (''/proc/7/task/8/comm'', ''worker''),
     (''/proc/7/task/8/stat'', ''8 (worker) S 1 1 1 1 1 1 1 1 1 1 1 1 1 1 1 1 1 1 66 9'')]"

definition sample_scan_os :: "machine os" where
  "sample_scan_os = still_os sample_files [(''/proc/7/task'', sample_dir)]"

definition sample_pool :: "WorkerQueue list pool" where
  "sample_pool = scan_workers (\<lambda>i. word_of_int i) of_nat [start_worker empty_queue]"

definition sample_budget :: ScanBudget where
  "sample_budget = \<lparr>bg_deadline = 1000, bg_batch_size = 1, bg_batch_yield_us = 0, bg_thread_reads = 0\<rparr>"

definition sample_scanner :: "(machine, WorkerQueue list \<times> DispatchTask list) scanner" where
  "sample_scanner = \<lparr>sn_slice = sample_slice, sn_workers = ([start_worker empty_queue], []),
     sn_cursor = reset_cursor, sn_processed_tids = {}, sn_full_rescan_needed = False\<rparr>"

theorem dispatch_offers_once_witness:
  "cycle_inv {7} TOP ''/dev/cpuset'' {} (snd (run_state (dispatch_pids_to_workers sample_scan_os
     (recorded_pool sample_pool) {7} TOP ''/dev/cpuset'') sample_scanner))"
  by (rule dispatch_offers_once [OF _ prod.collapse [symmetric]])
    (simp_all add: cycle_inv_def monitored_def offered_once_def sample_scanner_def)

text \<open>
  C21. Nothing is missed: on processes that do not change meanwhile, the calls of a cycle, however often
  interrupted by their budgets or by full queues, have the workers accept exactly the live threads of
  the live processes, in ascending order of process and thread, when the last call reports completion.
\<close>

theorem dispatch_misses_nothing:
  assumes "reads_table os T" "finite pids" "\<forall>p \<in> pids. 0 < p" "pl_size p \<noteq> 0"
    and "run_state (dispatch_calls os (recorded_pool p) pids st base bs)
      \<lparr>sn_slice = x, sn_workers = (q, []), sn_cursor = reset_cursor, sn_processed_tids = processed,
       sn_full_rescan_needed = r\<rparr> = (False, s')"
  shows "snd (sn_workers s') =
    expected_tasks T st base processed (table_threads T (sorted_list_of_set pids))"
  by (rule dispatch_calls_complete [OF assms])

lemma sample_dispatch:
  "\<not> fst (run_state (dispatch_calls sample_scan_os (recorded_pool sample_pool) {7} TOP ''/dev/cpuset''
     [sample_budget\<lparr>bg_deadline := 0\<rparr>, sample_budget]) sample_scanner)"
  by code_simp

definition sample_table :: proc_table where
  "sample_table = table_of (map_of sample_files) (map_of [(''/proc/7/task'', sample_dir)])"

theorem dispatch_misses_nothing_witness:
  "snd (sn_workers (snd (run_state (dispatch_calls sample_scan_os (recorded_pool sample_pool) {7} TOP
     ''/dev/cpuset'' [sample_budget\<lparr>bg_deadline := 0\<rparr>, sample_budget]) sample_scanner))) =
   expected_tasks sample_table TOP ''/dev/cpuset'' {} (table_threads sample_table (sorted_list_of_set {7}))"
proof -
  have table: "reads_table sample_scan_os sample_table"
    unfolding sample_table_def
    by (rule reads_table_of) (simp_all add: answers_def sample_scan_os_def still_os_def)
  show ?thesis
    unfolding sample_scanner_def
    by (rule dispatch_misses_nothing [OF table _ _ _ not_fst_pair [OF sample_dispatch,
          unfolded sample_scanner_def]])
      (simp_all add: sample_pool_def scan_workers_def)
qed

text \<open>
  C25. At every point of a full scan, however it is cut into slices, its records agree: a process is
  live exactly when a state was observed for it, with the same start time, the sets of the three
  states list processes observed in that state, and only live processes are pinned, followed to the foreground
  or have live threads.
\<close>

theorem scan_records_agree:
  assumes "scan_reachable os hash rx m f"
  shows "map_of (fs_live_processes f) p = map_option fst (map_of (fs_observed_states f) p) \<and>
    fs_top_app_pids f \<subseteq> observed_in TOP f \<and> fs_foreground_pids f \<subseteq> observed_in FG f \<and>
    fs_background_pids f \<subseteq> observed_in BG f \<and>
    fs_pinned_pids f \<union> fs_topfore_pids f \<subseteq> dom (map_of (fs_live_processes f)) \<and>
    fst ` dom (map_of (fs_live_threads f)) \<subseteq> dom (map_of (fs_live_processes f))"
  using scan_reachable_inv [OF assms] by (simp add: scan_inv_def records_ok_def observed_in_def subset_iff)

text \<open>
  C26. A call of the full scan returns, whatever the processes do meanwhile, because the clock moves:
  a process that is replaced again and again cannot keep the scan busy past the deadline of its slice.
\<close>

theorem full_scan_ends:
  assumes "clock_law os clk"
  shows "\<exists>r. advance_full_scan os hash rx m s = Some r"
  using advance_full_scan_ends [OF assms] .

definition sample_scan :: "machine scan_st" where
  "sample_scan = \<lparr>ss_slice = sample_slice, ss_process_cache = empty_process_cache, ss_cache = sample_cache,
     ss_scan = begin_scan sample_cache []\<rparr>"

theorem full_scan_ends_witness:
  "\<exists>r. advance_full_scan ticking_os length substring_lib (make_matcher substring_lib sample_config) sample_scan = Some r"
  by (rule full_scan_ends [OF ticking_clock])

theorem scan_records_agree_witness:
  "\<exists>b s'. advance_full_scan ticking_os length substring_lib (make_matcher substring_lib sample_config)
       sample_scan = Some (b, s') \<and>
     map_of (fs_live_processes (ss_scan s')) 7 = map_option fst (map_of (fs_observed_states (ss_scan s')) 7)"
proof -
  obtain b s' where run: "advance_full_scan ticking_os length substring_lib
      (make_matcher substring_lib sample_config) sample_scan = Some (b, s')"
    using advance_full_scan_ends [OF ticking_clock] by (metis surj_pair)
  have "scan_reachable ticking_os length substring_lib (make_matcher substring_lib sample_config) (ss_scan sample_scan)"
    unfolding sample_scan_def by (simp add: scan_begun)
  with run scan_records_agree [OF scan_slice] show ?thesis by blast
qed

text \<open>
  C9. An initialisation of the cgroups that fails takes back what it did: when the writes of the rollback are
  accepted, every control file that showed something before shows it again, except in those mask groups
  that were not in use (no cpus or no mems), whose values are not worth keeping.
\<close>

theorem failed_init_rolls_back:
  assumes "control_law os ctl norm" "umap_ok (sc_cpumask (sched config))"
    and "run_state (prepare_groups os config) (begin_transaction e) = (False, s1)"
    and "run_state (rollback os) s1 = (True, s2)"
  shows "run_state (init_cgroups os config) e = (False, ct_env s2) \<and>
    unchanged_outside (unready_files (env_store ctl e) config) (env_store ctl e) (env_store ctl (ct_env s2))"
  by (rule prepare_rolled_back [OF assms])

definition group_files :: "string \<Rightarrow> (string \<times> string) list" where
  "group_files name = [(mask_group_path name @ ''/cpus'', ''0''), (mask_group_path name @ ''/mems'', ''0''),
     (mask_group_path name @ ''/tasks'', [])]"

definition cpuset_files :: "(string \<times> string) list" where
  "cpuset_files = [(cpuset_parent_path @ ''/cpus'', ''0-3''), (cpuset_parent_path @ ''/mems'', ''0'')]"

definition masked_config :: Config where
  "masked_config = default_config\<lparr>sched := default_sched\<lparr>
     sc_cpumask := [(''a'', [1, 2]), (''b'', [3])],
     sc_affinity := [(''x'', \<lparr>as_bg = ''a'', as_fg = ''a'', as_top = ''b''\<rparr>)],
     sc_rules := [\<lparr>pr_name = ''r'', pr_regex_str = ''r'', pr_pinned = False, pr_topfore = False,
       pr_thread_rules = [\<lparr>tr_keyword = ''.'', tr_affinity_class = ''x'', tr_prio_class = [],
         tr_uclamp_max = None, tr_cpu_share = None, tr_enable_limit = False\<rparr>]\<rparr>]\<rparr>\<rparr>"

lemma sample_failed_init:
  "fst (run_state (prepare_groups control_os masked_config)
     (begin_transaction (model_env (cpuset_files @ group_files ''a'')))) = False \<and>
   fst (run_state (rollback control_os) (snd (run_state (prepare_groups control_os masked_config)
     (begin_transaction (model_env (cpuset_files @ group_files ''a'')))))) = True"
  by code_simp

theorem failed_init_rolls_back_witness:
  "control_file (world (snd (run_state (init_cgroups control_os masked_config)
     (model_env (cpuset_files @ group_files ''a''))))) (mask_group_path ''a'' @ ''/cpus'') = ''0''"
proof -
  let ?e = "model_env (cpuset_files @ group_files ''a'')"
  obtain s1 where prep: "run_state (prepare_groups control_os masked_config) (begin_transaction ?e) = (False, s1)"
    using sample_failed_init by (metis prod.collapse)
  obtain s2 where roll: "run_state (rollback control_os) s1 = (True, s2)"
    using sample_failed_init prep by (metis prod.collapse snd_conv)
  have "umap_ok (sc_cpumask (sched masked_config))" by (simp add: masked_config_def umap_ok_def)
  from failed_init_rolls_back [OF control_os_law this prep roll]
  have init: "snd (run_state (init_cgroups control_os masked_config) ?e) = ct_env s2"
    and same: "unchanged_outside (unready_files (env_store control_file ?e) masked_config)
      (env_store control_file ?e) (env_store control_file (ct_env s2))" by simp_all
  have shown: "env_store control_file ?e (mask_group_path ''a'' @ f) = ''0''" if "f \<in> {''/cpus'', ''/mems''}" for f
    using that by (auto simp: env_store_def control_file_def model_env_def model_machine_def cpuset_files_def
        group_files_def cpuset_parent_path_def mask_group_path_def strip_trailing_def NL_def)
  then have "\<not> was_unready (env_store control_file ?e) ''a''" by (simp add: was_unready_def)
  then have "mask_group_path ''a'' @ ''/cpus'' \<notin> unready_files (env_store control_file ?e) masked_config"
    using mask_files_disjoint [of "''a''" "''b''"] by (auto simp: unready_files_def masked_config_def mask_files_def)
  with same shown [of "''/cpus''"] show ?thesis by (simp add: init unchanged_outside_def env_store_def)
qed

text \<open>
  C30. After a successful initialisation of a configuration with a rule that needs a cpuset group
  (\<open>requires_cpuset\<close>), the group of every mask shows the processors of the mask and the memory nodes of its
  parent group. Without such a rule \<open>init_cpuset\<close> touches no group.
\<close>

theorem init_sets_masks:
  assumes "control_law os ctl norm" "umap_ok (sc_cpumask (sched config))" "requires_cpuset config"
    and "run_state (init_cgroups os config) e = (True, e')" "(name, cpus) \<in> set (sc_cpumask (sched config))"
  shows "env_store ctl e' (cpuset_group_path name @ ''/cpus'') =
      norm (cpuset_group_path name @ ''/cpus'') (cpus_to_string cpus) \<and>
    env_store ctl e' (cpuset_group_path name @ ''/mems'') =
      norm (cpuset_group_path name @ ''/mems'') (env_store ctl e (cpuset_parent_path @ ''/mems''))"
proof -
  have "cpuset_group_path name = mask_group_path name"
    by (simp add: cpuset_group_path_def mask_group_path_def cpuset_parent_path_def)
  with prepare_sets_masks [OF assms(1-4)] assms(5) show ?thesis by (auto simp: masks_set_def mask_set_def)
qed

lemma sample_init:
  "fst (run_state (init_cgroups control_os masked_config)
     (model_env (cpuset_files @ group_files ''a'' @ group_files ''b'')))"
  by code_simp

theorem init_sets_masks_witness:
  "control_file (world (snd (run_state (init_cgroups control_os masked_config)
     (model_env (cpuset_files @ group_files ''a'' @ group_files ''b''))))) (cpuset_group_path ''a'' @ ''/cpus'') = ''1-2''"
proof -
  let ?r = "run_state (init_cgroups control_os masked_config)
     (model_env (cpuset_files @ group_files ''a'' @ group_files ''b''))"
  have run: "?r = (True, snd ?r)" using sample_init by (simp add: prod_eq_iff)
  have "umap_ok (sc_cpumask (sched masked_config))" "requires_cpuset masked_config"
    "(''a'', [1, 2]) \<in> set (sc_cpumask (sched masked_config))"
    by (simp_all add: masked_config_def umap_ok_def requires_cpuset_def)
  from init_sets_masks [OF control_os_law this(1,2) run this(3)]
  have "control_file (world (snd ?r)) (cpuset_group_path ''a'' @ ''/cpus'') = strip_trailing NL (cpus_to_string [1, 2])"
    by (simp add: env_store_def)
  moreover have "strip_trailing NL (cpus_to_string [1, 2]) = ''1-2''" by code_simp
  ultimately show ?thesis by simp
qed

text \<open>
  C27. Whatever the configuration file holds and however the JSON library converts its numbers, every
  number of a configuration that is parsed lies in its documented range: intervals, budgets, delays
  with the longest retry delay not below the first, priorities, limits, and masks that are non-empty, strictly
  ascending lists of processors a \<open>cpu_set_t\<close> can hold.
\<close>

theorem parsed_config_in_range:
  assumes "run_state (parse_config js os path) e = (Some c, e')"
  shows "sched_in_range (sched c)"
  by (rule parse_config_ok(3) [OF assms])

definition sample_json :: json where
  "sample_json = JObject [(''modules'', JObject [(''sched'', JObject [
     (''affinity'', JObject [(''x'', JObject [(''bg'', JString ''a''), (''touch'', JString ''lost'')])]),
     (''cpumask'', JObject [(''a'', JArray [JInt 2, JInt 1, JInt 2, JInt 4096]), (''../b'', JArray [JInt 3])]),
     (''refresh_interval_ms'', JInt 0),
     (''rules'', JArray [
        JObject [(''name'', JString ''r''), (''regex'', JString ''r''), (''topfore'', JBool True),
          (''rules'', JArray [JObject [(''ac'', JString ''x''), (''uclamp_max'', JInt 101)]])],
        JObject [(''name'', JString ''r''), (''regex'', JString ''q'')]])])])]"

definition sample_js :: json_lib where
  "sample_js = \<lparr>js_parse = (\<lambda>_. Some sample_json), js_int = (\<lambda>n. n)\<rparr>"

definition parsed_config :: "Config option" where
  "parsed_config = fst (run_state (parse_config sample_js model_os ''/c'') (model_env [(''/c'', ''{}'')]))"

lemma sample_parse:
  "parsed_config = Some (default_config\<lparr>sched := default_sched\<lparr>
     sc_cpumask := [(''a'', [1, 2])], sc_affinity := [(''x'', \<lparr>as_bg = ''a'', as_fg = [], as_top = []\<rparr>)],
     sc_rules := [\<lparr>pr_name = ''r'', pr_regex_str = ''r'', pr_pinned = False, pr_topfore = True,
       pr_thread_rules = [\<lparr>tr_keyword = ''.'', tr_affinity_class = ''x'', tr_prio_class = ''auto'',
         tr_uclamp_max = None, tr_cpu_share = None, tr_enable_limit = False\<rparr>]\<rparr>]\<rparr>\<rparr>)"
  by code_simp

lemma sample_parse_run:
  "run_state (parse_config sample_js model_os ''/c'') (model_env [(''/c'', ''{}'')]) = (Some (the parsed_config),
     snd (run_state (parse_config sample_js model_os ''/c'') (model_env [(''/c'', ''{}'')])))"
  using sample_parse by (simp add: parsed_config_def prod_eq_iff)

theorem parsed_config_in_range_witness: "sched_in_range (sched (the parsed_config))"
  by (rule parsed_config_in_range [OF sample_parse_run])

text \<open>
  C28. In a configuration that is parsed every reference resolves: a state of an affinity class names a
  configured mask or nothing, and the classes of a thread rule are configured or mean automatic.
\<close>

theorem parsed_references_resolve:
  assumes "run_state (parse_config js os path) e = (Some c, e')"
  shows "references_ok (sched c)"
  by (rule parse_config_ok(2) [OF assms])

theorem parsed_references_resolve_witness: "references_ok (sched (the parsed_config))"
  by (rule parsed_references_resolve [OF sample_parse_run])

text \<open>
  C29. Every name of a configuration that becomes a directory, a mask or a rule, is one component of a path
  of its own: not empty, not a dot name, at most 128 bytes, without a slash, a backslash, a colon, a NUL
  or a newline, and no two rules and no two masks share a name.
\<close>

theorem configured_names_are_components:
  assumes "run_state (parse_config js os path) e = (Some c, e')"
  shows "(\<forall>name \<in> fst ` set (sc_cpumask (sched c)) \<union> pr_name ` set (sc_rules (sched c)).
      name \<notin> {[], ''.'', ''..''} \<and> length name \<le> 128 \<and>
      set name \<inter> {CHR ''/'', CHR 0x5C, CHR '':'', NUL, NL} = {}) \<and>
    distinct (map pr_name (sc_rules (sched c))) \<and> distinct (map fst (sc_cpumask (sched c)))"
proof -
  have names: "is_safe_cgroup_component name"
    if "name \<in> fst ` set (sc_cpumask (sched c)) \<union> pr_name ` set (sc_rules (sched c))" for name
    using that parse_config_ok(1,3) [OF assms] by (auto simp: names_ok_def sched_in_range_def mask_ok_def)
  have component: "name \<notin> {[], ''.'', ''..''} \<and> length name \<le> 128 \<and>
      set name \<inter> {CHR ''/'', CHR 0x5C, CHR '':'', NUL, NL} = {}" if "is_safe_cgroup_component name" for name
    using that safe_component_chars [OF that] by (auto simp: is_safe_cgroup_component_def)
  show ?thesis
    using names component parse_config_ok(1) [OF assms] by (auto simp: names_ok_def umap_ok_def)
qed

theorem configured_names_are_components_witness:
  "CHR ''/'' \<notin> set ''a'' \<and> distinct (map pr_name (sc_rules (sched (the parsed_config))))"
  using configured_names_are_components [OF sample_parse_run] by simp

text \<open>
  C10. From the file to the thread: once a parsed configuration is initialised, the group the cpuset setter moves
  a matched thread to shows exactly the processors the configuration gives the thread's class in its state.
\<close>

theorem dispatched_groups_are_prepared:
  assumes "control_law os ctl norm" "run_state (parse_config js os0 path) e = (Some c0, e0)"
    and "run_state (init_cgroups os (c0\<lparr>launcher_package := launcher\<rparr>)) e1 = (True, e2)"
    and "match_uncached rx (make_matcher rx (c0\<lparr>launcher_package := launcher\<rparr>)) pn tn st cl main = r"
    and "mr_cpumask_name r \<noteq> []"
  shows "env_store ctl e2 (cpuset_group_path (mr_cpumask_name r) @ ''/cpus'') =
    norm (cpuset_group_path (mr_cpumask_name r) @ ''/cpus'')
      (cpus_to_string (get_cpus_for_affinity c0 (mr_affinity_class r) (mr_effective_state r)))"
proof -
  let ?c = "c0\<lparr>launcher_package := launcher\<rparr>"
  have "references_ok (sched ?c)" "umap_ok (sc_cpumask (sched ?c))"
    using parse_config_ok(1,2) [OF assms(2)] by (simp_all add: names_ok_def)
  then show ?thesis
    using prepare_sets_masks [OF assms(1) _ _ assms(3)] matched_mask_configured [OF _ assms(4,5)]
    by (fastforce simp: setter_uses_mask_group masks_set_def mask_set_def launcher_keeps_masks)
qed

definition sample_match :: MatchResult where
  "sample_match = match_uncached substring_lib (make_matcher substring_lib ((the parsed_config)\<lparr>launcher_package := []\<rparr>))
     ''server'' ''worker.1'' BG [] False"

lemma sample_match_mask: "mr_cpumask_name sample_match = ''a''"
  unfolding sample_match_def sample_parse by code_simp

lemma sample_parsed_init:
  "fst (run_state (init_cgroups control_os ((the parsed_config)\<lparr>launcher_package := []\<rparr>))
     (model_env (cpuset_files @ group_files ''a'')))"
  unfolding sample_parse by code_simp

theorem dispatched_groups_are_prepared_witness:
  "control_file (world (snd (run_state (init_cgroups control_os ((the parsed_config)\<lparr>launcher_package := []\<rparr>))
     (model_env (cpuset_files @ group_files ''a''))))) (cpuset_group_path (mr_cpumask_name sample_match) @ ''/cpus'') =
   strip_trailing NL (cpus_to_string (get_cpus_for_affinity (the parsed_config)
     (mr_affinity_class sample_match) (mr_effective_state sample_match)))"
proof -
  let ?r = "run_state (init_cgroups control_os ((the parsed_config)\<lparr>launcher_package := []\<rparr>))
     (model_env (cpuset_files @ group_files ''a''))"
  have run: "?r = (True, snd ?r)" using sample_parsed_init by (simp add: prod_eq_iff)
  show ?thesis
    using dispatched_groups_are_prepared [OF control_os_law sample_parse_run run sample_match_def [symmetric]]
      sample_match_mask by (simp add: env_store_def)
qed

text \<open>
  C5. Whatever fails and however often the configuration changes, the daemon is left with one scheduler: in
  every state it reaches, its four workers hold the configuration in force, which is a valid one, the
  intervals of the main loop are those of that configuration, and as long as the daemon runs, all four
  workers run.
\<close>

theorem daemon_keeps_one_scheduler:
  assumes "daemon_reachable js os mo ch path hash rx hi hu d"
  shows "map sw_configs (md_workers d) = replicate 4 (Some (md_config d)) \<and>
    sched_in_range (sched (md_config d)) \<and> references_ok (sched (md_config d)) \<and>
    md_highspeed_ms d = highspeed_interval (sched (md_config d)) \<and>
    md_refresh_ms d = refresh_interval (sched (md_config d)) \<and>
    (md_running d \<longrightarrow> (\<forall>w \<in> set (md_workers d). sw_started w \<and> wq_running (sw_queue w)))"
  using reachable_daemon_ok [OF assms]
  by (auto simp: daemon_ok_def config_valid_def derived_ok_def workers_serve_def worker_runs_def numeral_eq_Suc)

text \<open>A child process that prints one line; its output waits in the machine's open file.\<close>

definition sample_child :: "machine child_os" where
  "sample_child = \<lparr>ch_pipe = State (\<lambda>m. (Some (4, 5), m)),
     ch_fork = (\<lambda>cmd fds. State (\<lambda>m. (9, m\<lparr>mc_open := ''packageName=org.sample.home'' @ [NL]\<rparr>))),
     ch_setpgid = (\<lambda>pid. State (\<lambda>m. ((), m))), ch_close = (\<lambda>fd. State (\<lambda>m. ((), m))),
     ch_set_nonblock = (\<lambda>fd. State (\<lambda>m. (True, m))),
     ch_now = State (\<lambda>m. (mc_now m, m\<lparr>mc_now := mc_now m + 1\<rparr>)),
     ch_poll = (\<lambda>fd t. State (\<lambda>m. (PollReady, m))),
     ch_read = (\<lambda>fd. State (\<lambda>m. (case mc_open m of [] \<Rightarrow> ReadEof | c # cs \<Rightarrow> ReadBytes c cs, m\<lparr>mc_open := []\<rparr>))),
     ch_wait = (\<lambda>pid. State (\<lambda>m. (ChildExited, m))), ch_reap = (\<lambda>pid. State (\<lambda>m. ((), m))),
     ch_kill = (\<lambda>pid sig. State (\<lambda>m. ((), m))), ch_usleep = (\<lambda>us. State (\<lambda>m. ((), m)))\<rparr>"

definition sample_main_os :: "machine main_os" where
  "sample_main_os = \<lparr>mo_spawn_thread = State (\<lambda>m. (True, m)), mo_mtime = (\<lambda>p. State (\<lambda>m. (Some 1, m))),
     mo_realpath = (\<lambda>p. State (\<lambda>m. (Some p, m)))\<rparr>"

text \<open>Watches that answer with new descriptors, have no events, and wake a thread that is asked to stop.\<close>

definition sample_watch_os :: "machine watch_os" where
  "sample_watch_os = \<lparr>wa_init = State (\<lambda>m. (10, m)), wa_add = (\<lambda>fd p mask. State (\<lambda>m. (1, m))),
     wa_eventfd = State (\<lambda>m. (11, m)), wa_close = (\<lambda>fd. State (\<lambda>m. ((), m))),
     wa_read = (\<lambda>fd n. State (\<lambda>m. (WatchAgain, m))),
     wa_poll = (\<lambda>a b. State (\<lambda>m. (WatchReady True False False, m))),
     wa_signal = (\<lambda>fd. State (\<lambda>m. ((), m))), wa_drain = (\<lambda>fd. State (\<lambda>m. ((), m))),
     wa_spawn = State (\<lambda>m. (True, m))\<rparr>"

definition sample_program :: "(int option + machine reuperf) option" where
  "sample_program = program_start sample_js control_os sample_main_os sample_watch_os sample_child length
     substring_lib word_of_int of_nat ''/c''
     \<lparr>sl_env = model_env ((''/c'', ''{}'') # cpuset_files @ group_files ''a''), sl_budget = sample_budget\<rparr>"

definition sample_reachable :: "machine reuperf \<Rightarrow> bool" where
  "sample_reachable = program_reachable sample_js control_os sample_main_os sample_watch_os sample_child ''/c''
     length substring_lib word_of_int of_nat"

definition sample_daemon_reachable :: "machine daemon \<Rightarrow> bool" where
  "sample_daemon_reachable = daemon_reachable sample_js control_os sample_main_os sample_child ''/c''
     length substring_lib word_of_int of_nat"

lemma sample_program_runs:
  "\<exists>p. sample_program = Some (Inr p) \<and> md_running (pg_daemon p) \<and> md_last_hash (pg_daemon p) + 1 \<noteq> 0"
proof -
  have "(case sample_program of
      Some (Inr p) \<Rightarrow> md_running (pg_daemon p) \<and> md_last_hash (pg_daemon p) + 1 \<noteq> 0 | _ \<Rightarrow> False)"
    by code_simp
  then show ?thesis by (auto split: option.splits sum.splits)
qed

lemma sample_program_reachable:
  assumes "sample_program = Some (Inr p)"
  shows "sample_reachable p" "sample_daemon_reachable (pg_daemon p)"
proof -
  show ok: "sample_reachable p"
    using assms unfolding sample_program_def sample_reachable_def by (rule program_started)
  show "sample_daemon_reachable (pg_daemon p)"
    using program_daemon ok unfolding sample_reachable_def sample_daemon_reachable_def by blast
qed

theorem daemon_keeps_one_scheduler_witness:
  "\<exists>p. sample_program = Some (Inr p) \<and> md_running (pg_daemon p) \<and> length (md_workers (pg_daemon p)) = 4 \<and>
     (\<forall>w \<in> set (md_workers (pg_daemon p)). wq_running (sw_queue w))"
proof -
  obtain p where p: "sample_program = Some (Inr p)" "md_running (pg_daemon p)" using sample_program_runs by blast
  from daemon_keeps_one_scheduler [OF sample_program_reachable(2) [OF p(1), unfolded sample_daemon_reachable_def]] p
  have "\<forall>w \<in> set (md_workers (pg_daemon p)). wq_running (sw_queue w)"
    "map sw_configs (md_workers (pg_daemon p)) = replicate 4 (Some (md_config (pg_daemon p)))" by simp_all
  with p show ?thesis by (metis length_map length_replicate)
qed



text \<open>
  C8. In a full cycle the dispatch offers each thread at most once, over all its phases and however many ticks
  it takes, and in the order of importance: no task of a background process before one of a foreground
  process, and none of these before one of a process treated as top.
\<close>

theorem cycle_offers_each_thread_once:
  assumes "cycle_run os hash rx m p cfg refresh_ms c0 c"
  shows "\<exists>ts. snd (cy_workers c) = snd (cy_workers c0) @ ts \<and> distinct (map dt_tid ts) \<and> in_rank_order ts"
  using cycle_offers [OF assms] unfolding offers_in_order_def by blast

definition sample_cycle :: "(machine, WorkerQueue list \<times> DispatchTask list) cycle" where
  "sample_cycle = \<lparr>cy_slice = sample_slice, cy_workers = ([start_worker empty_queue], []),
     cy_process_cache = empty_process_cache, cy_cache = sample_cache, cy_pinned = {}, cy_topfore = {},
     cy_top_app = {7}, cy_foreground = {}, cy_background = {}, cy_process_states = [],
     cy_top_cursor = reset_cursor, cy_pinned_cursor = reset_cursor, cy_topfore_cursor = reset_cursor,
     cy_foreground_cursor = reset_cursor, cy_background_cursor = reset_cursor, cy_phase = 0,
     cy_active = False, cy_scan = reset_scan, cy_processed_tids = {}, cy_next_full_scan = 0,
     cy_rescan_needed = False\<rparr>"

theorem cycle_offers_each_thread_once_witness:
  "\<exists>c. full_tick ticking_os length substring_lib (make_matcher substring_lib sample_config)
       (recorded_pool sample_pool) default_sched 2000 sample_cycle = Some c \<and>
     distinct (map dt_tid (snd (cy_workers c)))"
proof -
  obtain c where c: "full_tick ticking_os length substring_lib (make_matcher substring_lib sample_config)
       (recorded_pool sample_pool) default_sched 2000 sample_cycle = Some c"
    using full_tick_requests [OF ticking_clock] by metis
  have "\<not> cy_active sample_cycle" by (simp add: sample_cycle_def)
  from cycle_offers_each_thread_once [OF cycle_first [OF this c]] c show ?thesis
    by (auto simp: sample_cycle_def)
qed

text \<open>
  C23. A tick of a full cycle always returns, because the clock moves, and no cycle is lost: afterwards the cycle
  either is over, its records cleared, or has asked for its next tick.
\<close>

theorem cycle_tick_returns:
  assumes "clock_law os clk"
  shows "\<exists>c'. full_tick os hash rx m pool cfg refresh_ms c = Some c' \<and>
    (if cy_active c' then cy_rescan_needed c' else cycle_over c')"
  by (rule full_tick_requests [OF assms])

theorem cycle_tick_returns_witness:
  "\<exists>c'. full_tick ticking_os length substring_lib (make_matcher substring_lib sample_config)
       (recorded_pool sample_pool) default_sched 2000 sample_cycle = Some c' \<and>
     (cy_active c' \<longrightarrow> cy_rescan_needed c')"
  using cycle_tick_returns [OF ticking_clock, of length substring_lib "make_matcher substring_lib sample_config"
      "recorded_pool sample_pool" default_sched 2000 sample_cycle]
  by (auto split: if_splits)

text \<open>
  C24. A batch of process events changes what the daemon knows of the processes it names and of no other: the
  threads of new, recycled and dead processes are forgotten, all others are kept as they are; only
  threads of new processes are offered to the workers; and when events were dropped, a full scan is requested.
\<close>

theorem events_forget_processes:
  assumes "finite new_pids" "finite dead_pids" "finite recycled_pids"
    and "run_state (handle_events os hash rx m (recorded_pool p) cfg new_pids dead_pids recycled_pids dropped) c = (u, c')"
  shows "cy_cache c' = umap_erase_if
      (\<lambda>key _. fst key \<in> recycled_pids \<union> (new_pids \<inter> {0<..}) \<union> dead_pids) (cy_cache c) \<and>
    (\<exists>ts. snd (cy_workers c') = snd (cy_workers c) @ ts \<and> (\<forall>t \<in> set ts. dt_pid t \<in> new_pids \<and> 0 < dt_pid t)) \<and>
    (dropped \<or> cy_rescan_needed c \<longrightarrow> cy_rescan_needed c')"
  using wp_run [OF events_forget [OF assms(1-3)] assms(4)]
  by (auto simp: after_events_def offered_from_def)

theorem events_forget_processes_witness:
  "cy_rescan_needed (snd (run_state (handle_events sample_scan_os length substring_lib
     (make_matcher substring_lib sample_config) (recorded_pool sample_pool) default_sched {7} {} {3} True) sample_cycle))"
  using events_forget_processes [OF _ _ _ prod.collapse [symmetric], of "{7}" "{}" "{3}" sample_scan_os length
      substring_lib "make_matcher substring_lib sample_config" sample_pool default_sched True sample_cycle]
  by simp

text \<open>
  C39. Looking for the launcher always ends, and always with the name of a package: whatever the commands print
  and however they end, the name is valid, and only its dots need to be escaped in a pattern.
\<close>

theorem launcher_is_a_package:
  assumes "child_clock ch clk"
  shows "\<exists>pkg w'. launcher_find ch w = Some (pkg, w') \<and> is_valid_package pkg \<and>
    escape_regex_literal pkg = concat (map (\<lambda>c. if c = CHR ''.'' then [CHR 0x5C, CHR ''.''] else [c]) pkg)"
  using launcher_find_valid [OF assms, of w] escape_package by blast

theorem launcher_is_a_package_witness:
  "\<exists>pkg w'. launcher_find sample_child (model_machine []) = Some (pkg, w') \<and> is_valid_package pkg"
proof -
  have "child_clock sample_child mc_now"
    by (auto simp: child_clock_def sample_child_def climbs_def split: list.split)
  from launcher_is_a_package [OF this] show ?thesis by blast
qed

subsection \<open>The whole program\<close>

text \<open>
  C3. In every state the program can reach, whatever the kernel, the threads and the configuration do: each
  entry of the thread cache is filed under its own thread, and each dimension of a thread that is managed
  has its baseline recorded, so that it can be put back.
\<close>

theorem managed_only_with_baseline:
  assumes "program_reachable js os mo wo ch path hash rx hi hu p"
  shows "distinct (map fst (cy_cache (md_cycle (pg_daemon p)))) \<and>
    (\<forall>(k, e) \<in> set (cy_cache (md_cycle (pg_daemon p))). k = (te_pid e, te_tid e) \<and>
      (mc_affinity (te_managed e) \<longrightarrow> (\<exists>b. te_baseline e = Some b \<and> bl_has_affinity b \<and> bl_has_cpuset_path b)) \<and>
      (mc_priority (te_managed e) \<longrightarrow> (\<exists>b. te_baseline e = Some b \<and> bl_has_scheduler b)) \<and>
      (mc_cpuctl (te_managed e) \<longrightarrow> (\<exists>b. te_baseline e = Some b \<and> bl_has_cpuctl_path b)))"
proof -
  let ?c = "cy_cache (md_cycle (pg_daemon p))"
  have inv: "tcache_inv ?c"
    using reachable_cache_ok [OF conjunct1 [OF program_daemon [OF assms]]] .
  have ok: "entry_ok k e" if "(k, e) \<in> set ?c" for k e
    using inv that by (cases k) (auto simp: tcache_inv_def umap_ok_def)
  show ?thesis
    using inv by (auto simp: tcache_inv_def umap_ok_def dest!: ok) (auto simp: entry_ok_def covers_def split: option.splits)
qed

theorem managed_only_with_baseline_witness:
  "\<exists>p. sample_program = Some (Inr p) \<and> distinct (map fst (cy_cache (md_cycle (pg_daemon p))))"
  using sample_program_runs sample_program_reachable(1) managed_only_with_baseline
  unfolding sample_reachable_def by blast

text \<open>
  C4. However the program got where it is, and whatever its threads do while it is leaving, it ends with a truthful
  exit code: 0 exactly when its attempts to put the threads back have left no baseline in the cache, and 2
  otherwise. The cache is cleared in the first case only; in the second it stays as the attempts have left
  it. By then the threads of the monitor, the router and the workers have ended.
\<close>

theorem exit_code_is_true:
  assumes "program_reachable js os mo wo ch path hash rx hi hu p"
    and "program_exit os wo hash rx hi hu p joined code p'"
  shows "code = (if baselines_left (after_attempts os (pg_daemon joined)) = [] then 0 else 2) \<and>
    cy_cache (md_cycle (pg_daemon p')) = (if code = 0 then []
      else cy_cache (md_cycle (after_attempts os (pg_daemon joined)))) \<and>
    (\<forall>w \<in> set (md_workers (pg_daemon p')). \<not> sw_started w \<and> \<not> wq_running (sw_queue w)) \<and>
    er_pc (wt_router (pg_watches p')) = Exited \<and> pm_thread (wt_monitor (pg_watches p')) = NoThread"
  using program_exit_result [OF assms] by blast

theorem exit_code_is_true_witness:
  "\<exists>p joined code p'. sample_reachable p \<and>
     program_exit control_os sample_watch_os length substring_lib word_of_int of_nat p joined code p' \<and>
     (code = 0 \<longleftrightarrow> baselines_left (after_attempts control_os (pg_daemon joined)) = [])"
proof -
  obtain p where p: "sample_program = Some (Inr p)" using sample_program_runs by blast
  let ?q = "p\<lparr>pg_daemon := (pg_daemon p)\<lparr>md_shutdown_requested := True, md_running := False\<rparr>\<rparr>"
  let ?exit = "run_state (main_exit control_os sample_watch_os) ?q"
  have reach: "sample_reachable ?q"
    using program_next [OF _ program_side [OF side_signal]] sample_program_reachable(1) [OF p]
    unfolding sample_reachable_def by blast
  have "\<exists>joined. program_exit control_os sample_watch_os length substring_lib word_of_int of_nat ?q joined
      (fst ?exit) (snd ?exit)"
    by (rule main_exit_leaves [OF reach [unfolded sample_reachable_def]]) simp_all
  then obtain joined where left: "program_exit control_os sample_watch_os length substring_lib word_of_int of_nat
      ?q joined (fst ?exit) (snd ?exit)" by blast
  have "fst ?exit = 0 \<longleftrightarrow> baselines_left (after_attempts control_os (pg_daemon joined)) = []"
    using exit_code_is_true [OF reach [unfolded sample_reachable_def] left] by simp
  with reach left show ?thesis by blast
qed

text \<open>
  C7. The program refines the daemon: whatever happens to it, a round of the main loop, a turn of the monitor's
  or the router's thread, of a worker, a change of the world or a signal, its daemon makes a sequence of steps
  of the daemon.
\<close>

theorem program_is_the_daemon:
  assumes "program_reachable js os mo wo ch path hash rx hi hu p"
    and "program_step js os mo wo ch path hash rx hi hu p p'"
  shows "daemon_reachable js os mo ch path hash rx hi hu (pg_daemon p) \<and>
    rtranclp (daemon_step js os mo ch path hash rx hi hu) (pg_daemon p) (pg_daemon p')"
proof -
  have now: "daemon_reachable js os mo ch path hash rx hi hu (pg_daemon p)"
    "follows True js os mo ch path hash rx hi hu (pg_daemon p) p"
    using program_daemon [OF assms(1)] by (simp_all add: follows_def)
  from program_step_follows [OF assms(2) now(2)] now(1) show ?thesis by (simp add: follows_def)
qed

theorem program_is_the_daemon_witness:
  "\<exists>p. sample_program = Some (Inr p) \<and> rtranclp (daemon_step sample_js control_os sample_main_os sample_child ''/c''
      length substring_lib word_of_int of_nat) (pg_daemon p)
      ((pg_daemon p)\<lparr>md_shutdown_requested := True, md_running := False\<rparr>)"
proof -
  obtain p where p: "sample_program = Some (Inr p)" using sample_program_runs by blast
  from program_is_the_daemon [OF sample_program_reachable(1) [OF p, unfolded sample_reachable_def] program_side [OF side_signal]] p
  show ?thesis by auto
qed

subsection \<open>What the watches see\<close>


definition sample_event :: "32 word \<Rightarrow> string \<Rightarrow> inotify_event" where
  "sample_event bits name = \<lparr>ie_wd = 1, ie_mask = bits, ie_cookie = 0, ie_name = name @ [NUL]\<rparr>"



text \<open>
  C19. The process monitor loses no descriptor and closes none twice, however its starts, rounds, stops and errors
  alternate: the descriptors it was given are those it closed and the two it holds, it holds none
  once it has been joined, and it counts as running only while its thread is in its loop.
\<close>

theorem monitor_leaks_nothing:
  assumes "monitor_reachable (ledger wo) (w, {#}, {#}) s c" "mx_world c = (w', opened, closed)"
  shows "opened = closed + held_fd (pm_inotify_fd (mx_monitor c)) + held_fd (pm_stop_fd (mx_monitor c)) \<and>
    (pm_thread (mx_monitor c) = NoThread \<longrightarrow> opened = closed) \<and>
    (is_running (mx_monitor c) \<longrightarrow> pm_thread (mx_monitor c) = Looping)"
  using reachable_monitor_ok [OF assms(1)] assms(2)
  by (auto simp: monitor_simps is_running_def split: if_splits)

theorem monitor_leaks_nothing_witness:
  "\<exists>w'. mx_world (snd (run_state (start_monitor (ledger sample_watch_os) None None)
      \<lparr>mx_world = (model_machine [], {#}, {#}), mx_client = (), mx_monitor = new_monitor\<rparr>)) =
    (w', {#11, 10#}, {#} :: int multiset)"
proof -
  let ?new = "\<lparr>mx_world = (model_machine [], {#}, {#}), mx_client = (), mx_monitor = new_monitor\<rparr>"
  let ?c = "snd (run_state (start_monitor (ledger sample_watch_os) None None) ?new)"
  have "monitor_step (ledger sample_watch_os) ?new ?c"
    by (rule monitor_starts) (simp add: new_monitor_def)
  with monitor_created have reach: "monitor_reachable (ledger sample_watch_os) (model_machine [], {#}, {#}) () ?c"
    by (rule monitor_moved)
  have held: "pm_inotify_fd (mx_monitor ?c) = 10 \<and> pm_stop_fd (mx_monitor ?c) = 11 \<and> snd (snd (mx_world ?c)) = {#}"
    by (simp add: start_monitor_def open_monitor_def spawn_monitor_def new_monitor_def set_monitor_def monitor_sys_def
        ledger_def book_open_def on_kernel_def sample_watch_os_def)
  obtain w' opened closed where books: "mx_world ?c = (w', opened, closed)" by (metis surj_pair)
  from monitor_leaks_nothing [OF reach books] held books show ?thesis by (simp add: add_mset_commute)
qed

text \<open>
  C20. On a kernel whose event queue runs empty, a look at the watch of the configuration file always returns, and it
  reports a change exactly when one of the events read concerns the file or events were dropped; the report is
  given once.
\<close>

theorem watcher_reports_changes:
  assumes "queue_law wo len" "\<not> cw_config_changed (snd c)"
  shows "\<exists>reported c' bufs. check_and_clear (transcript wo) c = Some (reported, c') \<and>
    snd (fst c') = snd (fst c) @ bufs \<and>
    (reported \<longleftrightarrow> (\<exists>e \<in> set (events_of_buffers bufs). concerns_file (cw_watch_basename (snd c)) e)) \<and>
    \<not> cw_config_changed (snd c')"
proof -
  obtain reported c' where run: "check_and_clear (transcript wo) c = Some (reported, c')"
    using check_ends [OF transcript_queue_law [OF assms(1)]] by (metis surj_pair)
  from check_reports [OF this assms(2)] run show ?thesis by blast
qed

text \<open>A watch whose reads are a list.\<close>

definition queued_watch_os :: "watch_read list watch_os" where
  "queued_watch_os = \<lparr>wa_init = State (\<lambda>m. (10, m)), wa_add = (\<lambda>fd p bits. State (\<lambda>m. (1, m))),
     wa_eventfd = State (\<lambda>m. (11, m)), wa_close = (\<lambda>fd. State (\<lambda>m. ((), m))),
     wa_read = (\<lambda>fd n. State (\<lambda>m. case m of [] \<Rightarrow> (WatchAgain, []) | r # rs \<Rightarrow> (r, rs))),
     wa_poll = (\<lambda>a b. State (\<lambda>m. (WatchReady True False False, m))),
     wa_signal = (\<lambda>fd. State (\<lambda>m. ((), m))), wa_drain = (\<lambda>fd. State (\<lambda>m. ((), m))),
     wa_spawn = State (\<lambda>m. (True, m))\<rparr>"

theorem watcher_reports_changes_witness:
  "\<exists>reported c'. check_and_clear (transcript queued_watch_os)
      (([WatchInterrupted, WatchData (encode_event (sample_event IN_CLOSE_WRITE ''config.json''))], []),
       new_watcher ''/data/config.json'') = Some (reported, c') \<and> \<not> cw_config_changed (snd c')"
proof -
  have "queue_law queued_watch_os length"
    by (auto simp: queue_law_def queued_watch_os_def split: list.splits)
  from watcher_reports_changes [OF this, of "(([WatchInterrupted,
      WatchData (encode_event (sample_event IN_CLOSE_WRITE ''config.json''))], []), new_watcher ''/data/config.json'')"]
  show ?thesis by (auto simp: new_watcher_def)
qed

text \<open>
  C38. Reading the buffer of a watch undoes its encoding: of a buffer that ends inside an event, the complete events are
  read back as they are, and the incomplete one is noticed exactly when its header is complete.
\<close>

theorem event_records_round_trip:
  assumes "\<forall>e \<in> set evs. event_fits e" "event_fits e" "k < length (encode_event e)"
  shows "records (concat (map encode_event evs) @ take k (encode_event e)) = (evs, kEventSize \<le> k)"
  by (rule records_cut [OF assms])

theorem event_records_round_trip_witness:
  "records (encode_event (sample_event IN_CREATE ''7'') @ take 17 (encode_event (sample_event IN_DELETE ''8''))) =
     ([sample_event IN_CREATE ''7''], True)"
proof -
  have "event_fits (sample_event IN_CREATE ''7'')" "event_fits (sample_event IN_DELETE ''8'')"
    "17 < length (encode_event (sample_event IN_DELETE ''8''))"
    by (simp_all add: event_fits_def sample_event_def encode_event_def)
  from event_records_round_trip [OF _ this(2,3), of "[sample_event IN_CREATE ''7'']"] this(1)
  show ?thesis by (simp add: kEventSize_def)
qed

subsection \<open>The log\<close>

text \<open>
  C40. A message within the level of its module is written as one line, to the console when that is on and to the file as
  long as it is open, with one attempt to open the file again when a write fails; any other message leaves
  no trace.
\<close>

theorem log_lines_written:
  "case run_state (log_message (recorded_log lo) level tag msg) ((w, es), l) of (u, ((w', es'), l')) \<Rightarrow>
     if log_enabled level tag l
     then \<exists>line fs. line_of lo (lg_structured_logging l) level tag msg line \<and>
       es' = es @ (if lg_console_output l then [LCerr line] else []) @ fs \<and>
       file_takes (lg_log_file l) line (lg_file l) fs (lg_file l') \<and> l' = l\<lparr>lg_file := lg_file l'\<rparr>
     else w' = w \<and> es' = es \<and> l' = l"
proof (cases "log_enabled level tag l")
  case False
  then show ?thesis by (simp add: log_message_filter)
next
  case True
  obtain line w1 es1 where form: "run_state (format_output (recorded_log lo) level tag msg (lg_structured_logging l)) (w, es) =
      (line, (w1, es1))" by (metis surj_pair)
  obtain u w' es' l' where out: "run_state (write_output (recorded_log lo) line) ((w1, es1), l) = (u, ((w', es'), l'))"
    by (metis surj_pair)
  have run: "run_state (log_message (recorded_log lo) level tag msg) ((w, es), l) = (u, ((w', es'), l'))"
    using True form out by (simp add: log_message_def)
  have "line_of lo (lg_structured_logging l) level tag msg line" "es1 = es"
    using format_output_line [OF form] by simp_all
  with write_output_takes [OF out] True show ?thesis by (simp only: run prod.case if_True) blast
qed

end
